(* ===== verification/Prelude.thy ===== *)
theory Prelude
  imports Main "HOL-Library.Sublist"
begin

text \<open>
  Shared vocabulary of the development: JavaScript strings, the regular expressions the services
  test, and the generic lemmas the component theories rely on.

  A JavaScript string is a \<^typ>\<open>string\<close> that holds its UTF-8 bytes. Equality, concatenation,
  prefix tests and the ASCII regular expressions of the sources mean the same on the bytes as on
  the UTF-16 code units; where the sources look at code units (\<open>length\<close>) or at Unicode white space
  (\<open>\s\<close>), the definitions below decode the bytes.
\<close>

section \<open>Characters and case\<close>

text \<open>\<open>String.prototype.toLowerCase\<close>, on the ASCII letters. The sources apply it to identifiers that
  are UUIDs (token subjects that passed the UUID test, ids that passed \<open>IsUUID\<close> or \<open>ParseUUIDPipe\<close>).\<close>

definition byte :: "char \<Rightarrow> nat" where
  "byte c = of_char c"

definition to_lower :: "char \<Rightarrow> char" where
  "to_lower c = (if 65 \<le> byte c \<and> byte c \<le> 90 then char_of (byte c + 32) else c)"

definition toLowerCase :: "string \<Rightarrow> string" where
  "toLowerCase s = map to_lower s"

lemma byte_char_of [simp]: "n < 256 \<Longrightarrow> byte (char_of n) = n"
  by (simp add: byte_def)

lemma char_of_byte [simp]: "char_of (byte c) = c"
  by (simp add: byte_def)

lemma byte_to_lower:
  "byte (to_lower c) = (if 65 \<le> byte c \<and> byte c \<le> 90 then byte c + 32 else byte c)"
  by (simp add: to_lower_def)

lemma to_lower_idem [simp]: "to_lower (to_lower c) = to_lower c"
proof -
  have "\<not> (65 \<le> byte (to_lower c) \<and> byte (to_lower c) \<le> 90)"
    by (auto simp: byte_to_lower)
  then show ?thesis
    unfolding to_lower_def [of "to_lower c"] by (rule if_not_P)
qed

lemma toLowerCase_idem [simp]: "toLowerCase (toLowerCase s) = toLowerCase s"
  by (simp add: toLowerCase_def)

lemma length_toLowerCase [simp]: "length (toLowerCase s) = length s"
  by (simp add: toLowerCase_def)

lemma toLowerCase_append [simp]: "toLowerCase (s @ t) = toLowerCase s @ toLowerCase t"
  by (simp add: toLowerCase_def)

lemma toLowerCase_Nil_iff [simp]: "toLowerCase s = [] \<longleftrightarrow> s = []"
  by (simp add: toLowerCase_def)

section \<open>Length in UTF-16 code units\<close>

text \<open>\<open>s.length\<close>: every code point below U+10000 (one to three bytes, counted at its first byte) is one
  code unit, every other one (four bytes) is two; continuation bytes count nothing.\<close>

definition units_of_byte :: "char \<Rightarrow> nat" where
  "units_of_byte c = (if byte c < 128 then 1 else if byte c < 192 then 0
     else if byte c < 240 then 1 else 2)"

definition js_length :: "string \<Rightarrow> nat" where
  "js_length s = sum_list (map units_of_byte s)"

lemma js_length_Nil [simp]: "js_length [] = 0"
  by (simp add: js_length_def)

lemma js_length_le: "js_length s \<le> 2 * length s"
  by (induction s) (auto simp: js_length_def units_of_byte_def)

section \<open>White space\<close>

text \<open>\<open>space_bytes\<close> gives the number of bytes of the white space character (regular expression class
  \<open>\s\<close>) a byte sequence starts with, 0 when it starts with none.\<close>

fun space_bytes :: "nat list \<Rightarrow> nat" where
  "space_bytes [] = 0"
| "space_bytes (b # bs) =
     (if b = 32 \<or> (9 \<le> b \<and> b \<le> 13) then 1
      else (case bs of
        [] \<Rightarrow> 0
      | c # cs \<Rightarrow>
          (if b = 194 \<and> c = 160 then 2
          else (case cs of
            [] \<Rightarrow> 0
          | d # _ \<Rightarrow>
              (if (b = 225 \<and> c = 154 \<and> d = 128)
                \<or> (b = 226 \<and> c = 128 \<and> (128 \<le> d \<and> d \<le> 138 \<or> d = 168 \<or> d = 169 \<or> d = 175))
                \<or> (b = 226 \<and> c = 129 \<and> d = 159)
                \<or> (b = 227 \<and> c = 128 \<and> d = 128)
                \<or> (b = 239 \<and> c = 187 \<and> d = 191)
              then 3 else 0)))))"

fun has_space :: "string \<Rightarrow> bool" where
  "has_space [] = False"
| "has_space (c # cs) = (space_bytes (map byte (c # cs)) \<noteq> 0 \<or> has_space cs)"

section \<open>The regular expressions of the sources\<close>

text \<open>\<open>/^Bearer ([^\s]+)$/i.exec(header)\<close>: the captured token, if the header matches.\<close>

definition bearer_token :: "string \<Rightarrow> string option" where
  "bearer_token h =
     (if toLowerCase (take 7 h) = ''bearer '' \<and> drop 7 h \<noteq> [] \<and> \<not> has_space (drop 7 h)
      then Some (drop 7 h) else None)"

lemma bearer_token_SomeD:
  assumes "bearer_token h = Some t"
  shows "t \<noteq> []" "\<not> has_space t" "\<exists>scheme. h = scheme @ t \<and> toLowerCase scheme = ''bearer ''"
  using assms append_take_drop_id [of 7 h]
  by (auto simp: bearer_token_def split: if_splits simp del: append_take_drop_id intro: sym)

lemma bearer_token_of_header:
  assumes "t \<noteq> []" "\<not> has_space t" "toLowerCase scheme = ''bearer ''"
  shows "bearer_token (scheme @ t) = Some t"
proof -
  have "length scheme = 7"
    using assms(3) length_toLowerCase [of scheme] by simp
  then show ?thesis
    using assms by (simp add: bearer_token_def)
qed

text \<open>\<open>/^[0-9a-f]{8}-[0-9a-f]{4}-[0-9a-f]{4}-[0-9a-f]{4}-[0-9a-f]{12}$/i.test(s)\<close>, group by group.\<close>

definition is_hex :: "char \<Rightarrow> bool" where
  "is_hex c = (48 \<le> byte c \<and> byte c \<le> 57 \<or> 97 \<le> byte (to_lower c) \<and> byte (to_lower c) \<le> 102)"

definition hex_run :: "nat \<Rightarrow> string \<Rightarrow> bool" where
  "hex_run n s = (length s = n \<and> list_all is_hex s)"

definition uuid_test :: "string \<Rightarrow> bool" where
  "uuid_test s =
     (hex_run 8 (take 8 s) \<and> take 1 (drop 8 s) = ''-''
      \<and> hex_run 4 (take 4 (drop 9 s)) \<and> take 1 (drop 13 s) = ''-''
      \<and> hex_run 4 (take 4 (drop 14 s)) \<and> take 1 (drop 18 s) = ''-''
      \<and> hex_run 4 (take 4 (drop 19 s)) \<and> take 1 (drop 23 s) = ''-''
      \<and> hex_run 12 (drop 24 s))"

lemma is_hex_to_lower [simp]: "is_hex (to_lower c) = is_hex c"
  by (auto simp: is_hex_def byte_to_lower)

lemma hex_run_toLowerCase [simp]: "hex_run n (toLowerCase s) = hex_run n s"
  by (simp add: hex_run_def toLowerCase_def list_all_iff)

lemma take_toLowerCase: "take n (toLowerCase s) = toLowerCase (take n s)"
  by (simp add: toLowerCase_def take_map)

lemma drop_toLowerCase: "drop n (toLowerCase s) = toLowerCase (drop n s)"
  by (simp add: toLowerCase_def drop_map)

lemma to_lower_dash: "to_lower c = CHR ''-'' \<longleftrightarrow> c = CHR ''-''"
proof
  assume eq: "to_lower c = CHR ''-''"
  then have "byte (to_lower c) = 45" by (simp add: byte_def)
  then have "byte c = 45" by (auto simp: byte_to_lower split: if_splits)
  then have "char_of (byte c) = (char_of (45::nat) :: char)" by simp
  then show "c = CHR ''-''"
    by (metis char_of_byte byte_def eq to_lower_def \<open>byte (to_lower c) = 45\<close> \<open>byte c = 45\<close>)
next
  assume "c = CHR ''-''"
  then show "to_lower c = CHR ''-''" by (simp add: to_lower_def byte_def)
qed

lemma toLowerCase_dash: "toLowerCase s = ''-'' \<longleftrightarrow> s = ''-''"
  by (cases s) (auto simp: toLowerCase_def to_lower_dash)

lemma uuid_test_toLowerCase [simp]: "uuid_test (toLowerCase s) = uuid_test s"
  by (simp add: uuid_test_def take_toLowerCase drop_toLowerCase toLowerCase_dash)

lemma uuid_test_length: "uuid_test s \<Longrightarrow> length s = 36"
  by (auto simp: uuid_test_def hex_run_def)

lemma uuid_test_nonempty: "uuid_test s \<Longrightarrow> s \<noteq> []"
  using uuid_test_length by fastforce

text \<open>The canonical spelling of a UUID, as PostgreSQL writes it and as principals carry it.\<close>

definition canonical_uuid :: "string \<Rightarrow> bool" where
  "canonical_uuid s \<longleftrightarrow> uuid_test s \<and> toLowerCase s = s"

lemma canonical_uuid_toLowerCase [simp]: "canonical_uuid (toLowerCase s) \<longleftrightarrow> uuid_test s"
  by (simp add: canonical_uuid_def)

section \<open>Paths and URLs\<close>

text \<open>\<open>s.startsWith(p)\<close> is the library's \<^const>\<open>prefix\<close>; \<open>s.split('?')[0]\<close> is the part before the
  first question mark; \<open>s.replace(/\/+$/, '')\<close> drops the trailing slashes.\<close>

definition before_query :: "string \<Rightarrow> string" where
  "before_query s = takeWhile (\<lambda>c. c \<noteq> CHR ''?'') s"

definition strip_slashes :: "string \<Rightarrow> string" where
  "strip_slashes s = rev (dropWhile (\<lambda>c. c = CHR ''/'') (rev s))"

lemma strip_slashes_no_trailing:
  "strip_slashes s = [] \<or> last (strip_slashes s) \<noteq> CHR ''/''"
proof (cases "strip_slashes s = []")
  case False
  then have "dropWhile (\<lambda>c. c = CHR ''/'') (rev s) \<noteq> []"
    by (simp add: strip_slashes_def)
  then have "hd (dropWhile (\<lambda>c. c = CHR ''/'') (rev s)) \<noteq> CHR ''/''"
    by (rule hd_dropWhile)
  then show ?thesis by (simp add: strip_slashes_def last_rev)
qed simp

lemma strip_slashes_idem [simp]: "strip_slashes (strip_slashes s) = strip_slashes s"
  by (simp add: strip_slashes_def)

lemma strip_slashes_prefix: "\<exists>n. s = strip_slashes s @ replicate n (CHR ''/'')"
proof -
  let ?P = "\<lambda>c. c = CHR ''/''"
  have "rev s = takeWhile ?P (rev s) @ dropWhile ?P (rev s)" by simp
  then have "s = strip_slashes s @ rev (takeWhile ?P (rev s))"
    unfolding strip_slashes_def by (metis rev_append rev_rev_ident)
  moreover have "rev (takeWhile ?P (rev s)) = replicate (length (takeWhile ?P (rev s))) (CHR ''/'')"
    by (rule replicate_eqI) (auto dest: set_takeWhileD)
  ultimately show ?thesis by metis
qed

section \<open>Association lists\<close>

text \<open>Objects keep their properties as association lists; \<open>map_of\<close> reads one, \<open>obj_set\<close> assigns one,
  keeping the position of an existing property as JavaScript does.\<close>

fun obj_set :: "'k \<Rightarrow> 'v \<Rightarrow> ('k \<times> 'v) list \<Rightarrow> ('k \<times> 'v) list" where
  "obj_set k v [] = [(k, v)]"
| "obj_set k v ((k', v') # ps) = (if k' = k then (k, v) # ps else (k', v') # obj_set k v ps)"

lemma map_of_obj_set [simp]: "map_of (obj_set k v ps) = (map_of ps)(k \<mapsto> v)"
  by (induction ps) (auto simp: fun_eq_iff)

lemma map_of_filter_key:
  "map_of (filter (\<lambda>(k, _). k \<noteq> a) ps) k = (if k = a then None else map_of ps k)"
  by (induction ps) auto

lemma list_all_distinct_map_filter:
  "distinct (map f xs) \<Longrightarrow> distinct (map f (filter P xs))"
  by (induction xs) auto

lemma distinct_map_unique:
  "distinct (map f xs) \<Longrightarrow> x \<in> set xs \<Longrightarrow> y \<in> set xs \<Longrightarrow> f x = f y \<Longrightarrow> x = y"
  by (auto simp: distinct_map dest: inj_onD)

lemma find_distinct_key:
  assumes "distinct (map f xs)" "x \<in> set xs"
  shows "find (\<lambda>y. f y = f x) xs = Some x"
  using assms
proof (induction xs)
  case (Cons a xs)
  show ?case
  proof (cases "f a = f x")
    case True
    with Cons.prems have "a = x" by (auto dest: distinct_map_unique)
    then show ?thesis by simp
  next
    case False
    with Cons show ?thesis by auto
  qed
qed simp

text \<open>A table filled in a loop: reading it gives the last element of the loop with the key.\<close>

lemma find_snoc: "find P (xs @ [x]) = (case find P xs of Some y \<Rightarrow> Some y | None \<Rightarrow> if P x then Some x else None)"
  by (induction xs) auto

lemma map_of_assigned:
  "map_of (fold (\<lambda>r. obj_set (f r) r) rs ps) k = (case find (\<lambda>r. f r = k) (rev rs) of Some r \<Rightarrow> Some r | None \<Rightarrow> map_of ps k)"
  by (induction rs arbitrary: ps) (auto simp: find_snoc split: option.splits)

lemma keys_obj_set: "fst ` set (obj_set k v ps) = insert k (fst ` set ps)"
  by (induction k v ps rule: obj_set.induct) auto

lemma distinct_obj_set: "distinct (map fst ps) \<Longrightarrow> distinct (map fst (obj_set k v ps))"
  by (induction k v ps rule: obj_set.induct) (auto simp: keys_obj_set)

lemma set_assigned:
  "x \<in> snd ` set (fold (\<lambda>r. obj_set (f r) r) rs []) \<longleftrightarrow> find (\<lambda>r. f r = f x) (rev rs) = Some x"
proof -
  let ?m = "fold (\<lambda>r. obj_set (f r) r) rs []"
  have d: "distinct (map fst (fold (\<lambda>r. obj_set (f r) r) rs ps))" if "distinct (map fst ps)" for ps
    using that by (induction rs arbitrary: ps) (simp_all add: distinct_obj_set)
  have "map_of ?m k = Some y \<longleftrightarrow> (k, y) \<in> set ?m" for k y using d [of "[]"] by simp
  moreover have "map_of ?m k = find (\<lambda>r. f r = k) (rev rs)" for k
    using map_of_assigned [of f rs "[]" k] by (simp split: option.splits)
  ultimately have keys: "(k, y) \<in> set ?m \<longleftrightarrow> find (\<lambda>r. f r = k) (rev rs) = Some y" for k y by metis
  show ?thesis
  proof
    assume "x \<in> snd ` set ?m"
    then obtain k where k: "find (\<lambda>r. f r = k) (rev rs) = Some x" using keys by fastforce
    then have "f x = k" by (auto simp: find_Some_iff)
    with k show "find (\<lambda>r. f r = f x) (rev rs) = Some x" by simp
  next
    assume "find (\<lambda>r. f r = f x) (rev rs) = Some x"
    then show "x \<in> snd ` set ?m" unfolding keys [symmetric] by force
  qed
qed

end
