(* ===== verification/JsValue.thy ===== *)
theory JsValue
  imports Complex_Main Prelude
begin

text \<open>
  JavaScript values as the sources see them: the data types of JSON bodies, message headers, token
  payloads and environment variables, double precision numbers with their rounding, and the
  conversions \<open>Number(x)\<close> and \<open>String(x)\<close>.
\<close>

section \<open>Numbers\<close>

text \<open>A double: not-a-number, an infinity (\<open>True\<close> for the positive one) or a finite value. The two zeros
  are one value here; no source distinguishes them.\<close>

datatype jsnum = NaN | Infty bool | Fin rat

text \<open>\<open>ilog2 n\<close> is the position of the highest bit of a positive \<open>n\<close>.\<close>

function ilog2 :: "int \<Rightarrow> nat" where
  "ilog2 n = (if n < 2 then 0 else Suc (ilog2 (n div 2)))"
  by pat_completeness auto
termination
  by (relation "measure nat") auto

declare ilog2.simps [simp del]

definition pow_int :: "rat \<Rightarrow> int \<Rightarrow> rat" where
  "pow_int b e = (if 0 \<le> e then b ^ nat e else 1 / b ^ nat (- e))"

text \<open>The binary exponent of a positive rational: \<open>2 ^ e \<le> x < 2 ^ (e + 1)\<close>.\<close>

definition bin_exponent :: "rat \<Rightarrow> int" where
  "bin_exponent x =
     (let (n, d) = quotient_of x; e = int (ilog2 n) - int (ilog2 d)
      in if x < pow_int 2 e then e - 1 else if pow_int 2 (e + 1) \<le> x then e + 1 else e)"

definition round_half_even :: "rat \<Rightarrow> int" where
  "round_half_even x =
     (let f = \<lfloor>x\<rfloor>; r = x - of_int f
      in if r < 1 / 2 then f else if 1 / 2 < r then f + 1 else if even f then f else f + 1)"

text \<open>Rounding to the nearest double (53 bits of precision, ties to even, gradual underflow, overflow
  to infinity).\<close>

definition to_double :: "rat \<Rightarrow> jsnum" where
  "to_double x =
     (if x = 0 then Fin 0
      else let a = \<bar>x\<bar>;
               e = max (bin_exponent a - 52) (- 1074);
               v = of_int (round_half_even (a / pow_int 2 e)) * pow_int 2 e
           in if pow_int 2 1024 \<le> v then Infty (0 < x) else Fin (sgn x * v))"

fun js_add :: "jsnum \<Rightarrow> jsnum \<Rightarrow> jsnum" where
  "js_add NaN _ = NaN"
| "js_add _ NaN = NaN"
| "js_add (Infty a) (Infty b) = (if a = b then Infty a else NaN)"
| "js_add (Infty a) (Fin _) = Infty a"
| "js_add (Fin _) (Infty b) = Infty b"
| "js_add (Fin x) (Fin y) = to_double (x + y)"

text \<open>\<open>a >= b\<close>; a comparison with not-a-number is false.\<close>

fun js_ge :: "jsnum \<Rightarrow> jsnum \<Rightarrow> bool" where
  "js_ge NaN _ = False"
| "js_ge _ NaN = False"
| "js_ge (Infty a) (Infty b) = (a \<or> \<not> b)"
| "js_ge (Infty a) (Fin _) = a"
| "js_ge (Fin _) (Infty b) = (\<not> b)"
| "js_ge (Fin x) (Fin y) = (y \<le> x)"

text \<open>\<open>Number.isInteger\<close>.\<close>

fun is_integer :: "jsnum \<Rightarrow> bool" where
  "is_integer (Fin x) = (of_int \<lfloor>x\<rfloor> = x)"
| "is_integer _ = False"

lemma ilog2_pow: "n < 2 ^ k \<Longrightarrow> 0 < k \<Longrightarrow> ilog2 n < k"
proof (induction n arbitrary: k rule: ilog2.induct)
  case (1 n)
  show ?case
  proof (cases "n < 2")
    case True
    with "1.prems" show ?thesis by (simp add: ilog2.simps [of n])
  next
    case False
    have "k \<noteq> 1" using "1.prems" False by auto
    with "1.prems"(2) obtain j where k: "k = Suc (Suc j)"
      by (cases k; cases "k - 1") auto
    with "1.prems" have "n div 2 < 2 ^ Suc j" by auto
    with "1.IH" False have "ilog2 (n div 2) < Suc j" by blast
    with False k show ?thesis by (simp add: ilog2.simps [of n])
  qed
qed

lemma round_half_even_int [simp]: "round_half_even (of_int n) = n"
  by (simp add: round_half_even_def)

lemma to_double_0 [simp]: "to_double 0 = Fin 0"
  by (simp add: to_double_def)

lemma pow_int_pos [simp]: "0 < b \<Longrightarrow> 0 < pow_int b e"
  by (simp add: pow_int_def)

lemma pow_int_1024: "pow_int 2 1024 = 2 ^ 1024"
  by (simp add: pow_int_def)

lemma quotient_of_of_int: "quotient_of (of_int n) = (n, 1)"
  by (simp add: quotient_of_int)

lemma bin_exponent_of_nat_le:
  assumes "0 < n" "n < 2 ^ k" "0 < k"
  shows "bin_exponent (of_nat n) \<le> int k"
proof -
  have q: "quotient_of (of_nat n) = (int n, 1)"
    using quotient_of_of_int [of "int n"] by simp
  have "int n < 2 ^ k" using assms(2) by (metis of_nat_less_iff of_nat_power of_nat_numeral)
  then have "ilog2 (int n) < k" using assms(3) by (rule ilog2_pow)
  then show ?thesis
    by (auto simp: bin_exponent_def q Let_def ilog2.simps [of 1])
qed

text \<open>An integer below \<open>2 ^ 52\<close> is a double: it rounds to itself.\<close>

lemma to_double_of_nat:
  assumes "n < 2 ^ 52"
  shows "to_double (of_nat n) = Fin (of_nat n)"
proof (cases "n = 0")
  case False
  let ?e = "max (bin_exponent (of_nat n) - 52) (- 1074)"
  have le: "?e \<le> 0"
    using bin_exponent_of_nat_le [of n 52] assms False by simp
  have scale: "of_nat n / pow_int 2 ?e = of_int (int n * 2 ^ nat (- ?e))"
    using le by (auto simp: pow_int_def)
  have unscale: "of_int (int n * 2 ^ nat (- ?e)) * pow_int 2 ?e = (of_nat n :: rat)"
    using le by (auto simp: pow_int_def)
  have small: "\<not> pow_int 2 1024 \<le> (of_nat n :: rat)"
  proof -
    have "(of_nat n :: rat) < of_nat (2 ^ 52)" using assms by (simp only: of_nat_less_iff)
    also have "\<dots> = 2 ^ 52" by simp
    also have "\<dots> \<le> (2::rat) ^ 1024" by (rule power_increasing) simp_all
    finally show ?thesis by (simp add: pow_int_1024)
  qed
  have v: "of_int (round_half_even (of_nat n / pow_int 2 ?e)) * pow_int 2 ?e = (of_nat n :: rat)"
    by (simp only: scale round_half_even_int unscale)
  show ?thesis
    unfolding to_double_def using False small by (simp add: Let_def v)
qed simp

lemma js_add_of_nat:
  "m + n < 2 ^ 52 \<Longrightarrow> js_add (Fin (of_nat m)) (Fin (of_nat n)) = Fin (of_nat (m + n))"
  using to_double_of_nat [of "m + n"] by simp

lemma js_ge_of_nat [simp]: "js_ge (Fin (of_nat m)) (Fin (of_nat n)) \<longleftrightarrow> n \<le> m"
  by simp


section \<open>Decimal digits\<close>

text \<open>The decimal digits of a non-negative integer, and the integer a digit string denotes.\<close>

function int_string :: "int \<Rightarrow> string" where
  "int_string n =
     (if n < 10 then [char_of (48 + nat n)] else int_string (n div 10) @ [char_of (48 + nat (n mod 10))])"
  by pat_completeness auto
termination
  by (relation "measure nat") auto

declare int_string.simps [simp del]

definition nat_string :: "nat \<Rightarrow> string" where
  "nat_string n = int_string (int n)"

definition is_digit :: "char \<Rightarrow> bool" where
  "is_digit c = (48 \<le> byte c \<and> byte c \<le> 57)"

definition digit_val :: "char \<Rightarrow> int" where
  "digit_val c = (if is_digit c then int (byte c) - 48 else int (byte (to_lower c)) - 87)"

definition digits_val :: "int \<Rightarrow> string \<Rightarrow> int" where
  "digits_val base ds = foldl (\<lambda>a c. base * a + digit_val c) 0 ds"

lemma digits_val_Nil [simp]: "digits_val b [] = 0"
  by (simp add: digits_val_def)

lemma digits_val_snoc [simp]: "digits_val b (ds @ [c]) = b * digits_val b ds + digit_val c"
  by (simp add: digits_val_def)

lemma is_digit_char_of [simp]: "d < 10 \<Longrightarrow> is_digit (char_of (48 + d :: nat))"
  by (simp add: is_digit_def)

lemma digit_val_char_of [simp]: "d < 10 \<Longrightarrow> digit_val (char_of (48 + d :: nat)) = int d"
  by (simp add: digit_val_def)

lemma int_string_digits: "0 \<le> n \<Longrightarrow> int_string n \<noteq> [] \<and> list_all is_digit (int_string n)"
proof (induction n rule: int_string.induct)
  case (1 n)
  show ?case
  proof (cases "n < 10")
    case True
    with "1.prems" show ?thesis by (simp add: int_string.simps [of n])
  next
    case False
    with 1 show ?thesis by (simp add: int_string.simps [of n])
  qed
qed

lemma digits_val_int_string: "0 \<le> n \<Longrightarrow> digits_val 10 (int_string n) = n"
proof (induction n rule: int_string.induct)
  case (1 n)
  show ?case
  proof (cases "n < 10")
    case True
    with "1.prems" show ?thesis
      using digits_val_snoc [of 10 "[]"] by (simp add: int_string.simps [of n])
  next
    case False
    with 1 show ?thesis by (simp add: int_string.simps [of n])
  qed
qed

lemma digits_val_nat_string [simp]: "digits_val 10 (nat_string n) = int n"
  by (simp add: nat_string_def digits_val_int_string)

lemma nat_string_digits: "nat_string n \<noteq> []" "list_all is_digit (nat_string n)"
  using int_string_digits [of "int n"] by (simp_all add: nat_string_def)

section \<open>\<open>Number(string)\<close>\<close>

function trim_left :: "string \<Rightarrow> string" where
  "trim_left s = (let n = space_bytes (map byte s) in if n = 0 then s else trim_left (drop n s))"
  by pat_completeness auto
termination
proof (relation "measure length", simp)
  fix s :: string and n
  assume "n = space_bytes (map byte s)" "n \<noteq> 0"
  moreover from this have "s \<noteq> []" by auto
  ultimately show "(drop n s, s) \<in> measure length" by simp
qed

declare trim_left.simps [simp del]

fun trim_right :: "string \<Rightarrow> string" where
  "trim_right [] = []"
| "trim_right (c # cs) = (if trim_left (c # cs) = [] then [] else c # trim_right cs)"

text \<open>A decimal literal is its integer digits, its fraction digits and its exponent.\<close>

definition exponent_of :: "string \<Rightarrow> int option" where
  "exponent_of t =
     (let neg = (take 1 t = ''-''); ds = (if neg \<or> take 1 t = ''+'' then drop 1 t else t)
      in if ds = [] \<or> \<not> list_all is_digit ds then None
         else Some (if neg then - digits_val 10 ds else digits_val 10 ds))"

definition decimal_literal :: "string \<Rightarrow> (string \<times> string \<times> int) option" where
  "decimal_literal s =
     (let ip = takeWhile is_digit s; r = dropWhile is_digit s;
          fp = (if take 1 r = ''.'' then takeWhile is_digit (drop 1 r) else []);
          r' = (if take 1 r = ''.'' then dropWhile is_digit (drop 1 r) else r)
      in if ip = [] \<and> fp = [] then None
         else if r' = [] then Some (ip, fp, 0)
         else if take 1 r' = ''e'' \<or> take 1 r' = ''E''
         then map_option (\<lambda>e. (ip, fp, e)) (exponent_of (drop 1 r'))
         else None)"

definition decimal_value :: "string \<times> string \<times> int \<Rightarrow> rat" where
  "decimal_value = (\<lambda>(ip, fp, e). of_int (digits_val 10 (ip @ fp)) * pow_int 10 (e - int (length fp)))"

definition prefixed_int :: "int \<Rightarrow> (char \<Rightarrow> bool) \<Rightarrow> string \<Rightarrow> jsnum" where
  "prefixed_int base ok ds =
     (if ds \<noteq> [] \<and> list_all ok ds then to_double (of_int (digits_val base ds)) else NaN)"

definition string_to_number :: "string \<Rightarrow> jsnum" where
  "string_to_number str =
     (let s = trim_right (trim_left str);
          neg = (take 1 s = ''-''); u = (if neg \<or> take 1 s = ''+'' then drop 1 s else s)
      in if s = [] then Fin 0
         else if toLowerCase (take 2 s) = ''0x'' then prefixed_int 16 is_hex (drop 2 s)
         else if toLowerCase (take 2 s) = ''0o'' then prefixed_int 8 (\<lambda>c. 48 \<le> byte c \<and> byte c \<le> 55) (drop 2 s)
         else if toLowerCase (take 2 s) = ''0b'' then prefixed_int 2 (\<lambda>c. 48 \<le> byte c \<and> byte c \<le> 49) (drop 2 s)
         else if u = ''Infinity'' then Infty (\<not> neg)
         else case decimal_literal u of
           None \<Rightarrow> NaN
         | Some l \<Rightarrow> to_double (if neg then - decimal_value l else decimal_value l))"

text \<open>A decimal numeral denotes its number.\<close>

lemma trim_left_digit: "is_digit c \<Longrightarrow> trim_left (c # cs) = c # cs"
  by (auto simp: trim_left.simps [of "c # cs"] is_digit_def Let_def split: list.splits)

lemma trim_right_digits: "list_all is_digit ds \<Longrightarrow> trim_right ds = ds"
  by (induction ds) (simp_all add: trim_left_digit)

lemma digits_not_special:
  assumes "list_all is_digit ds" "ds \<noteq> []"
  shows "take 1 ds \<noteq> ''-''" "take 1 ds \<noteq> ''+''" "toLowerCase (take 2 ds) \<noteq> ''0x''" "toLowerCase (take 2 ds) \<noteq> ''0o''"
    "toLowerCase (take 2 ds) \<noteq> ''0b''" "ds \<noteq> ''Infinity''"
proof -
  have low: "to_lower c = c" if "is_digit c" for c using that by (simp add: is_digit_def to_lower_def)
  have "toLowerCase (take 2 ds) = take 2 ds"
    using assms(1) low by (auto simp: toLowerCase_def list_all_iff intro!: map_idI dest: in_set_takeD)
  moreover have "list_all is_digit (take 2 ds)" "list_all is_digit (take 1 ds)"
    using assms(1) by (auto simp: list_all_iff dest: in_set_takeD)
  moreover have "\<not> list_all is_digit ''-''" "\<not> list_all is_digit ''+''" "\<not> list_all is_digit ''0x''"
    "\<not> list_all is_digit ''0o''" "\<not> list_all is_digit ''0b''" "\<not> list_all is_digit ''Infinity''"
    by code_simp+
  ultimately show "take 1 ds \<noteq> ''-''" "take 1 ds \<noteq> ''+''" "toLowerCase (take 2 ds) \<noteq> ''0x''"
    "toLowerCase (take 2 ds) \<noteq> ''0o''" "toLowerCase (take 2 ds) \<noteq> ''0b''" "ds \<noteq> ''Infinity''"
    using assms(1) by metis+
qed

lemma decimal_literal_digits:
  assumes "list_all is_digit ds" "ds \<noteq> []"
  shows "decimal_literal ds = Some (ds, [], 0)"
proof -
  have w: "takeWhile is_digit ds = ds" "dropWhile is_digit ds = []"
    using assms(1) by (auto simp: list_all_iff takeWhile_eq_all_conv)
  show ?thesis using assms(2) by (simp add: decimal_literal_def Let_def w)
qed

lemma string_to_number_digits:
  assumes "list_all is_digit ds" "ds \<noteq> []"
  shows "string_to_number ds = to_double (of_int (digits_val 10 ds))"
proof -
  have "trim_right (trim_left ds) = ds"
    using assms trim_left_digit trim_right_digits by (cases ds) auto
  then show ?thesis
    using digits_not_special [OF assms] decimal_literal_digits [OF assms] assms(2)
    by (simp add: string_to_number_def Let_def decimal_value_def pow_int_def)
qed

lemma string_to_number_nat_string:
  assumes "n < 2 ^ 52"
  shows "string_to_number (nat_string n) = Fin (of_nat n)"
  using string_to_number_digits [OF nat_string_digits(2,1)] to_double_of_nat [OF assms] by simp

section \<open>\<open>String(number)\<close>\<close>

function ilog10 :: "int \<Rightarrow> nat" where
  "ilog10 n = (if n < 10 then 0 else Suc (ilog10 (n div 10)))"
  by pat_completeness auto
termination
  by (relation "measure nat") auto

declare ilog10.simps [simp del]

text \<open>The decimal exponent of a positive rational: \<open>10 ^ e \<le> x < 10 ^ (e + 1)\<close>.\<close>

definition dec_exponent :: "rat \<Rightarrow> int" where
  "dec_exponent x =
     (let (n, d) = quotient_of x; e = int (ilog10 n) - int (ilog10 d)
      in if x < pow_int 10 e then e - 1 else if pow_int 10 (e + 1) \<le> x then e + 1 else e)"

text \<open>The shortest digits that read back as the number: the least \<open>k\<close> for which the \<open>k\<close>-digit decimal
  nearest to \<open>x\<close> rounds to \<open>x\<close>. The result is the digits and the position of the decimal point.
  Seventeen digits identify every double.\<close>

fun shortest_digits :: "nat \<Rightarrow> nat \<Rightarrow> rat \<Rightarrow> int \<times> int" where
  "shortest_digits fuel k x =
     (let n = dec_exponent x + 1; s = \<lfloor>x * pow_int 10 (int k - n) + 1 / 2\<rfloor>
      in if fuel = 0 \<or> to_double (of_int s * pow_int 10 (n - int k)) = Fin x
         then (if s = 10 ^ k then (10 ^ (k - 1), n + 1) else (s, n))
         else shortest_digits (fuel - 1) (Suc k) x)"

declare shortest_digits.simps [simp del]

definition positive_string :: "rat \<Rightarrow> string" where
  "positive_string x =
     (let (s, n) = shortest_digits 16 1 x; ds = int_string s; k = int (length ds)
      in if k \<le> n \<and> n \<le> 21 then ds @ replicate (nat (n - k)) (CHR ''0'')
         else if 0 < n \<and> n \<le> 21 then take (nat n) ds @ ''.'' @ drop (nat n) ds
         else if - 6 < n \<and> n \<le> 0 then ''0.'' @ replicate (nat (- n)) (CHR ''0'') @ ds
         else (if k = 1 then ds else take 1 ds @ ''.'' @ drop 1 ds)
           @ ''e'' @ (if n - 1 < 0 then ''-'' else ''+'') @ int_string \<bar>n - 1\<bar>)"

fun num_string :: "jsnum \<Rightarrow> string" where
  "num_string NaN = ''NaN''"
| "num_string (Infty b) = (if b then ''Infinity'' else ''-Infinity'')"
| "num_string (Fin x) =
     (if x = 0 then ''0'' else if x < 0 then ''-'' @ positive_string (- x) else positive_string x)"

section \<open>Values\<close>

datatype jsval =
    JUndefined
  | JNull
  | JBool bool
  | JNum jsnum
  | JStr string
  | JArr "jsval list"
  | JObj "(string \<times> jsval) list"

text \<open>\<open>v.name\<close> for a value that is neither \<open>undefined\<close> nor \<open>null\<close> and a name no prototype defines, and
  \<open>v?.name\<close>.\<close>

fun js_get :: "jsval \<Rightarrow> string \<Rightarrow> jsval" where
  "js_get (JObj ps) k = (case map_of ps k of None \<Rightarrow> JUndefined | Some v \<Rightarrow> v)"
| "js_get _ k = JUndefined"

fun nullish :: "jsval \<Rightarrow> bool" where
  "nullish JUndefined = True"
| "nullish JNull = True"
| "nullish _ = False"

text \<open>\<open>v ?? d\<close>.\<close>

definition js_or :: "jsval \<Rightarrow> jsval \<Rightarrow> jsval" where
  "js_or v d = (if nullish v then d else v)"

fun join_with :: "string \<Rightarrow> string list \<Rightarrow> string" where
  "join_with sep [] = []"
| "join_with sep [x] = x"
| "join_with sep (x # y # ys) = x @ sep @ join_with sep (y # ys)"

fun js_String :: "jsval \<Rightarrow> string" where
  "js_String JUndefined = ''undefined''"
| "js_String JNull = ''null''"
| "js_String (JBool b) = (if b then ''true'' else ''false'')"
| "js_String (JNum n) = num_string n"
| "js_String (JStr s) = s"
| "js_String (JArr xs) = join_with '','' (map (\<lambda>x. if nullish x then [] else js_String x) xs)"
| "js_String (JObj _) = ''[object Object]''"

fun js_Number :: "jsval \<Rightarrow> jsnum" where
  "js_Number JUndefined = NaN"
| "js_Number JNull = Fin 0"
| "js_Number (JBool b) = Fin (if b then 1 else 0)"
| "js_Number (JNum n) = n"
| "js_Number (JStr s) = string_to_number s"
| "js_Number (JArr xs) = string_to_number (js_String (JArr xs))"
| "js_Number (JObj _) = NaN"

end
