(* ===== verification/Async.thy ===== *)
theory Async
  imports Prelude
begin

text \<open>
  The effects of the services. An asynchronous TypeScript function that reads and writes shared
  state and may reject is a function from the state to its outcome and the new state; the outcome
  is \<open>Inl\<close> of the thrown value or \<open>Inr\<close> of the result. The theory holds the values the sources
  throw, the combinators for \<open>await\<close>, \<open>throw\<close>, \<open>try/catch\<close> and \<open>finally\<close>, what a service writes to
  its logger and its metric counters, and a Hoare logic for such functions.
\<close>

section \<open>Thrown values\<close>

text \<open>\<open>RejectReason\<close> of \<open>token-verifier.ts\<close>.\<close>

datatype reject_reason =
    Missing | Malformed | Expired | NotYetValid | Signature | Issuer | Audience | Claims

fun reason_name :: "reject_reason \<Rightarrow> string" where
  "reason_name Missing = ''missing''"
| "reason_name Malformed = ''malformed''"
| "reason_name Expired = ''expired''"
| "reason_name NotYetValid = ''not_yet_valid''"
| "reason_name Signature = ''signature''"
| "reason_name Issuer = ''issuer''"
| "reason_name Audience = ''audience''"
| "reason_name Claims = ''claims''"

text \<open>The classes the sources distinguish with \<open>instanceof\<close>: the HTTP exceptions of the framework (with
  their status), the query error of the database layer, the token library's errors (a claim error
  carries the claim it is about), the sources' own error classes, any other \<open>Error\<close>, and a thrown
  value that is no \<open>Error\<close> (with its string form).\<close>

datatype err_class =
    HttpException nat
  | QueryFailedError
  | JWTExpired
  | JWTClaimValidationFailed string
  | JWSSignatureVerificationFailed
  | JWKSNoMatchingKey
  | JWKSMultipleMatchingKeys
  | JOSEAlgNotAllowed
  | JWSInvalid
  | JWTInvalid
  | JOSENotSupported
  | TokenInvalid reject_reason
  | KeysUnavailable
  | PermanentError
  | PlainError
  | NonError string

text \<open>A thrown value with the properties the sources read: \<open>code\<close>, \<open>constraint\<close> and \<open>message\<close> (\<open>None\<close> where the
  property is absent or no string), \<open>driverError\<close> and \<open>cause\<close> (\<open>None\<close> where it is \<open>undefined\<close> or
  \<open>null\<close>). \<open>Falsy\<close> stands for \<open>undefined\<close>, \<open>null\<close> and the other falsy values, with their string form.\<close>

datatype thrown =
    Thrown (err_class: err_class) (err_code: "string option") (err_constraint: "string option")
      (err_message: "string option") (err_driverError: "thrown option") (err_cause: "thrown option")
  | Falsy string

definition error_of :: "err_class \<Rightarrow> string \<Rightarrow> thrown" where
  "error_of c msg = Thrown c None None (Some msg) None None"

text \<open>\<open>new UnauthorizedException(message)\<close> and its kin.\<close>

definition http_exception :: "nat \<Rightarrow> string \<Rightarrow> thrown" where
  "http_exception status msg = error_of (HttpException status) msg"

lemma http_exception_inject [simp]:
  "http_exception s m = http_exception s' m' \<longleftrightarrow> s = s' \<and> m = m'"
  by (simp add: http_exception_def error_of_def)

fun has_class :: "err_class \<Rightarrow> thrown \<Rightarrow> bool" where
  "has_class c (Thrown c' _ _ _ _ _) = (c' = c)"
| "has_class c (Falsy _) = False"

text \<open>\<open>(err as Error).message\<close> as it appears in a log line, and
  \<open>err instanceof Error ? err.message : String(err)\<close>.\<close>

fun message_of :: "thrown \<Rightarrow> string" where
  "message_of (Thrown _ _ _ (Some m) _ _) = m"
| "message_of (Thrown _ _ _ None _ _) = ''undefined''"
| "message_of (Falsy _) = ''undefined''"

fun error_text :: "thrown \<Rightarrow> string" where
  "error_text (Thrown (NonError s) _ _ _ _ _) = s"
| "error_text (Falsy s) = s"
| "error_text e = message_of e"

section \<open>Outcomes of asynchronous calls\<close>

type_synonym ('w, 'a) io = "'w \<Rightarrow> (thrown + 'a) \<times> 'w"

definition return_io :: "'a \<Rightarrow> ('w, 'a) io" where
  "return_io a = (\<lambda>w. (Inr a, w))"

definition throw_io :: "thrown \<Rightarrow> ('w, 'a) io" where
  "throw_io e = (\<lambda>w. (Inl e, w))"

definition bind_io :: "('w, 'a) io \<Rightarrow> ('a \<Rightarrow> ('w, 'b) io) \<Rightarrow> ('w, 'b) io" where
  "bind_io m f = (\<lambda>w. case m w of (Inl e, w') \<Rightarrow> (Inl e, w') | (Inr a, w') \<Rightarrow> f a w')"

definition seq_io :: "('w, 'a) io \<Rightarrow> ('w, 'b) io \<Rightarrow> ('w, 'b) io" where
  "seq_io m n = bind_io m (\<lambda>_. n)"

definition catch_io :: "('w, 'a) io \<Rightarrow> (thrown \<Rightarrow> ('w, 'a) io) \<Rightarrow> ('w, 'a) io" where
  "catch_io m h = (\<lambda>w. case m w of (Inl e, w') \<Rightarrow> h e w' | (Inr a, w') \<Rightarrow> (Inr a, w'))"

definition finally_io :: "('w, 'a) io \<Rightarrow> ('w, 'b) io \<Rightarrow> ('w, 'a) io" where
  "finally_io m n =
     (\<lambda>w. case m w of (r, w') \<Rightarrow> (case n w' of (Inl e, w'') \<Rightarrow> (Inl e, w'') | (Inr _, w'') \<Rightarrow> (r, w'')))"

definition gets_io :: "('w \<Rightarrow> 'a) \<Rightarrow> ('w, 'a) io" where
  "gets_io f = (\<lambda>w. (Inr (f w), w))"

definition modify_io :: "('w \<Rightarrow> 'w) \<Rightarrow> ('w, unit) io" where
  "modify_io f = (\<lambda>w. (Inr (), f w))"

definition lift_io :: "thrown + 'a \<Rightarrow> ('w, 'a) io" where
  "lift_io r = (\<lambda>w. (r, w))"

text \<open>\<open>try\<close> around \<open>m\<close> alone: the continuation \<open>k\<close> runs outside it.\<close>

definition attempt_io :: "('w, 'a) io \<Rightarrow> ('a \<Rightarrow> ('w, 'b) io) \<Rightarrow> (thrown \<Rightarrow> ('w, 'b) io) \<Rightarrow> ('w, 'b) io" where
  "attempt_io m k h = (\<lambda>w. case m w of (Inl e, w') \<Rightarrow> h e w' | (Inr a, w') \<Rightarrow> k a w')"

lemmas io_defs = attempt_io_def lift_io_def return_io_def throw_io_def bind_io_def seq_io_def catch_io_def finally_io_def
  gets_io_def modify_io_def

lemma bind_return [simp]: "bind_io (return_io a) f = f a"
  by (simp add: io_defs)

lemma bind_return_right [simp]: "bind_io m return_io = m"
  by (auto simp: io_defs fun_eq_iff split: prod.splits sum.splits)

lemma bind_throw [simp]: "bind_io (throw_io e) f = throw_io e"
  by (simp add: io_defs)

lemma bind_assoc: "bind_io (bind_io m f) g = bind_io m (\<lambda>a. bind_io (f a) g)"
  by (auto simp: io_defs fun_eq_iff split: prod.splits sum.splits)

lemma catch_return [simp]: "catch_io (return_io a) h = return_io a"
  by (simp add: io_defs)

lemma catch_throw [simp]: "catch_io (throw_io e) h = h e"
  by (simp add: io_defs)

section \<open>Loggers and counters\<close>

datatype log_level = Debug | Info | Warn | Error

text \<open>What a service has written: its log lines and the increments of its metric counters (instrument
  name and attributes), oldest first. The state of a component extends this record.\<close>

record obs =
  logs :: "(log_level \<times> string) list"
  counters :: "(string \<times> (string \<times> string) list) list"

definition log_io :: "log_level \<Rightarrow> string \<Rightarrow> ('z obs_scheme, unit) io" where
  "log_io l msg = modify_io (\<lambda>w. w\<lparr>logs := logs w @ [(l, msg)]\<rparr>)"

definition count_io :: "string \<Rightarrow> (string \<times> string) list \<Rightarrow> ('z obs_scheme, unit) io" where
  "count_io name attrs = modify_io (\<lambda>w. w\<lparr>counters := counters w @ [(name, attrs)]\<rparr>)"

lemmas obs_defs = log_io_def count_io_def

definition no_obs :: obs where
  "no_obs = \<lparr>logs = [], counters = []\<rparr>"

section \<open>A Hoare logic\<close>

text \<open>\<open>valid P m Q E\<close>: started where \<open>P\<close> holds, \<open>m\<close> either returns \<open>a\<close> in a state where \<open>Q a\<close> holds or
  throws \<open>e\<close> in a state where \<open>E e\<close> holds. The rules below are for backward reasoning.\<close>

definition valid :: "('w \<Rightarrow> bool) \<Rightarrow> ('w, 'a) io \<Rightarrow> ('a \<Rightarrow> 'w \<Rightarrow> bool) \<Rightarrow> (thrown \<Rightarrow> 'w \<Rightarrow> bool) \<Rightarrow> bool" where
  "valid P m Q E \<longleftrightarrow> (\<forall>w. P w \<longrightarrow> (case m w of (Inr a, w') \<Rightarrow> Q a w' | (Inl e, w') \<Rightarrow> E e w'))"

named_theorems wp \<open>rules that compute a precondition\<close>

lemma valid_bind [wp]:
  "(\<And>a. valid (R a) (f a) Q E) \<Longrightarrow> valid P m R E \<Longrightarrow> valid P (bind_io m f) Q E"
  by (fastforce simp: valid_def bind_io_def split: prod.splits sum.splits)

lemma valid_seq [wp]:
  "valid R n Q E \<Longrightarrow> valid P m (\<lambda>_. R) E \<Longrightarrow> valid P (seq_io m n) Q E"
  unfolding seq_io_def by (rule valid_bind)

lemma valid_catch [wp]:
  "(\<And>e. valid (R e) (h e) Q E) \<Longrightarrow> valid P m Q R \<Longrightarrow> valid P (catch_io m h) Q E"
  by (fastforce simp: valid_def catch_io_def split: prod.splits sum.splits)

lemma valid_return [wp]: "valid (Q a) (return_io a) Q E"
  by (simp add: valid_def return_io_def)

lemma valid_throw [wp]: "valid (E e) (throw_io e) Q E"
  by (simp add: valid_def throw_io_def)

lemma valid_gets [wp]: "valid (\<lambda>w. Q (f w) w) (gets_io f) Q E"
  by (simp add: valid_def gets_io_def)

lemma valid_modify [wp]: "valid (\<lambda>w. Q () (f w)) (modify_io f) Q E"
  by (simp add: valid_def modify_io_def)

lemma valid_conseq:
  assumes "valid P' m Q' E'" "\<And>w. P w \<Longrightarrow> P' w" "\<And>a w. Q' a w \<Longrightarrow> Q a w" "\<And>e w. E' e w \<Longrightarrow> E e w"
  shows "valid P m Q E"
  using assms by (fastforce simp: valid_def split: prod.splits sum.splits)

lemma valid_pre: "valid P' m Q E \<Longrightarrow> (\<And>w. P w \<Longrightarrow> P' w) \<Longrightarrow> valid P m Q E"
  by (rule valid_conseq)

lemma validD_Inr: "valid P m Q E \<Longrightarrow> P w \<Longrightarrow> m w = (Inr a, w') \<Longrightarrow> Q a w'"
  by (fastforce simp: valid_def)

lemma validD_Inl: "valid P m Q E \<Longrightarrow> P w \<Longrightarrow> m w = (Inl e, w') \<Longrightarrow> E e w'"
  by (fastforce simp: valid_def)

text \<open>\<open>preserves I m\<close>: whatever \<open>m\<close> does, it keeps \<open>I\<close>.\<close>

definition preserves :: "('w \<Rightarrow> bool) \<Rightarrow> ('w, 'a) io \<Rightarrow> bool" where
  "preserves I m \<longleftrightarrow> (\<forall>w. I w \<longrightarrow> I (snd (m w)))"

lemma preserves_return [intro, simp]: "preserves I (return_io a)"
  by (simp add: preserves_def return_io_def)

lemma preserves_throw [intro, simp]: "preserves I (throw_io e)"
  by (simp add: preserves_def throw_io_def)

lemma preserves_bind [intro]:
  assumes "preserves I m" "\<And>a. preserves I (f a)"
  shows "preserves I (bind_io m f)"
proof (unfold preserves_def, intro allI impI)
  fix w assume "I w"
  with assms(1) have mid: "I (snd (m w))" by (simp add: preserves_def)
  show "I (snd (bind_io m f w))"
  proof (cases "fst (m w)")
    case (Inl e)
    with mid show ?thesis by (cases "m w") (simp add: bind_io_def)
  next
    case (Inr a)
    with mid assms(2) show ?thesis by (cases "m w") (simp add: bind_io_def preserves_def)
  qed
qed

lemma preserves_seq [intro]: "preserves I m \<Longrightarrow> preserves I n \<Longrightarrow> preserves I (seq_io m n)"
  unfolding seq_io_def by (rule preserves_bind)

lemma preserves_catch [intro]:
  assumes "preserves I m" "\<And>e. preserves I (h e)"
  shows "preserves I (catch_io m h)"
proof (unfold preserves_def, intro allI impI)
  fix w assume "I w"
  with assms(1) have mid: "I (snd (m w))" by (simp add: preserves_def)
  show "I (snd (catch_io m h w))"
  proof (cases "fst (m w)")
    case (Inl e)
    with mid assms(2) show ?thesis by (cases "m w") (simp add: catch_io_def preserves_def)
  next
    case (Inr a)
    with mid show ?thesis by (cases "m w") (simp add: catch_io_def)
  qed
qed

lemma preserves_attempt [intro]:
  assumes "preserves I m" "\<And>a. preserves I (k a)" "\<And>e. preserves I (h e)"
  shows "preserves I (attempt_io m k h)"
proof -
  have "attempt_io m k h =
    bind_io (catch_io (bind_io m (\<lambda>a. return_io (Inr a))) (\<lambda>e. return_io (Inl e)))
      (\<lambda>r. case r of Inr a \<Rightarrow> k a | Inl e \<Rightarrow> h e)"
    by (auto simp: io_defs fun_eq_iff split: prod.splits sum.splits)
  with assms show ?thesis by (auto intro!: preserves_bind preserves_catch split: sum.split)
qed

lemma preserves_lift [intro, simp]: "preserves I (lift_io r)"
  by (simp add: preserves_def lift_io_def)

lemma preserves_modify [intro]: "(\<And>w. I w \<Longrightarrow> I (f w)) \<Longrightarrow> preserves I (modify_io f)"
  by (simp add: preserves_def modify_io_def)

lemma preserves_gets [intro, simp]: "preserves I (gets_io f)"
  by (simp add: preserves_def gets_io_def)

lemmas preserves_rules = preserves_bind preserves_seq preserves_catch preserves_attempt

end
