(* ===== verification/User_Directory.thy ===== *)
theory User_Directory
  imports JsValue Async
begin

text \<open>
  The cache (\<open>order-service/src/infra/cache.service.ts\<close>) and the user lookup that uses it
  (\<open>order-service/src/users/user-directory.service.ts\<close>). Redis and the network are parameters: a
  function from the calls made so far (the last one is the one to answer) to the outcome, so that a
  server may answer every call differently. The calls themselves are part of the state, which makes
  statements about how often and with what a server is called possible.
\<close>

section \<open>The cache\<close>

datatype cache_call =
    CacheGet string
  | CacheSet string string int
  | CacheQuit
  | CacheDisconnect

type_synonym redis = "cache_call list \<Rightarrow> thrown + string option"

record cache_world = obs +
  healthy :: bool
  cache_calls :: "cache_call list"

definition redis_call :: "redis \<Rightarrow> cache_call \<Rightarrow> ('z cache_world_scheme, string option) io" where
  "redis_call redis c = (\<lambda>w. (redis (cache_calls w @ [c]), w\<lparr>cache_calls := cache_calls w @ [c]\<rparr>))"

text \<open>\<open>retryStrategy\<close> of the constructor: the delay before reconnect attempt number \<open>attempt\<close>.\<close>

definition retryStrategy :: "nat \<Rightarrow> nat" where
  "retryStrategy attempt = min (attempt * 200) 2000"

text \<open>The \<open>error\<close> and \<open>ready\<close> listeners.\<close>

definition cache_on_error :: "thrown \<Rightarrow> ('z cache_world_scheme, unit) io" where
  "cache_on_error err =
     bind_io (gets_io healthy) (\<lambda>h.
       seq_io (if h then log_io Warn (''Redis unavailable, falling back to source of truth: '' @ message_of err)
               else return_io ())
         (modify_io (\<lambda>w. w\<lparr>healthy := False\<rparr>)))"

definition cache_on_ready :: "('z cache_world_scheme, unit) io" where
  "cache_on_ready =
     bind_io (gets_io healthy) (\<lambda>h.
       seq_io (if \<not> h then log_io Info ''Redis connection restored'' else return_io ())
         (modify_io (\<lambda>w. w\<lparr>healthy := True\<rparr>)))"

definition count_cache :: "string \<Rightarrow> string \<Rightarrow> ('z obs_scheme, unit) io" where
  "count_cache operation outcome = count_io ''cache.operations'' [(''operation'', operation), (''outcome'', outcome)]"

definition cache_get :: "redis \<Rightarrow> string \<Rightarrow> ('z cache_world_scheme, string option) io" where
  "cache_get redis key =
     catch_io
       (bind_io (redis_call redis (CacheGet key)) (\<lambda>v.
          seq_io (count_cache ''get'' (if v = None then ''miss'' else ''hit'')) (return_io v)))
       (\<lambda>err. seq_io (count_cache ''get'' ''error'')
          (seq_io (log_io Debug (''cache get failed for '' @ key @ '': '' @ message_of err)) (return_io None)))"

definition cache_set :: "redis \<Rightarrow> string \<Rightarrow> string \<Rightarrow> int \<Rightarrow> ('z cache_world_scheme, unit) io" where
  "cache_set redis key v ttlSeconds =
     catch_io
       (seq_io (redis_call redis (CacheSet key v ttlSeconds)) (count_cache ''set'' ''ok''))
       (\<lambda>err. seq_io (count_cache ''set'' ''error'')
          (log_io Debug (''cache set failed for '' @ key @ '': '' @ message_of err)))"

definition cache_onModuleDestroy :: "redis \<Rightarrow> ('z cache_world_scheme, unit) io" where
  "cache_onModuleDestroy redis =
     catch_io
       (seq_io (redis_call redis CacheQuit) (return_io ()))
       (\<lambda>err. seq_io (log_io Warn (''Redis quit failed, forcing disconnect: '' @ message_of err))
          (seq_io (redis_call redis CacheDisconnect) (return_io ())))"

section \<open>The user lookup\<close>

record fetch_request =
  fetch_url :: string
  fetch_headers :: "(string \<times> string) list"
  fetch_timeoutMs :: int

type_synonym fetch_env = "fetch_request list \<Rightarrow> thrown + nat"

record dir_world = cache_world +
  fetches :: "fetch_request list"

record directory_config =
  USER_SERVICE_URL :: string
  USER_LOOKUP_TIMEOUT_MS :: int
  USER_CACHE_TTL_SECONDS :: int

definition ATTEMPTS :: nat where
  "ATTEMPTS = 2"

definition fetch_call :: "fetch_env \<Rightarrow> fetch_request \<Rightarrow> ('z dir_world_scheme, nat) io" where
  "fetch_call net req = (\<lambda>w. (net (fetches w @ [req]), w\<lparr>fetches := fetches w @ [req]\<rparr>))"

definition count_lookup :: "string \<Rightarrow> ('z obs_scheme, unit) io" where
  "count_lookup outcome = count_io ''user.lookups'' [(''outcome'', outcome)]"

text \<open>The loop of \<open>fetchExists\<close>, with the attempts left: \<open>Inr\<close> of the answer, or \<open>Inl\<close> of the last cause
  when the loop ends without one.\<close>

fun fetch_loop :: "fetch_env \<Rightarrow> fetch_request \<Rightarrow> nat \<Rightarrow> string \<Rightarrow> ('z dir_world_scheme, string + bool) io" where
  "fetch_loop net req 0 cause = return_io (Inl cause)"
| "fetch_loop net req (Suc left) cause =
     bind_io
       (catch_io (bind_io (fetch_call net req) (\<lambda>status. return_io (Inr status)))
          (\<lambda>err. return_io (Inl (message_of err))))
       (\<lambda>r. case r of
          Inl msg \<Rightarrow> fetch_loop net req left msg
        | Inr status \<Rightarrow>
            if status = 200 then return_io (Inr True)
            else if status = 404 then return_io (Inr False)
            else if status < 500 then return_io (Inl (''user-service responded '' @ nat_string status))
            else fetch_loop net req left (''user-service responded '' @ nat_string status))"

definition lookup_request :: "directory_config \<Rightarrow> string \<Rightarrow> string \<Rightarrow> string option \<Rightarrow> fetch_request" where
  "lookup_request cfg userId requestId auth =
     \<lparr>fetch_url = USER_SERVICE_URL cfg @ ''/v1/users/'' @ userId,
      fetch_headers = (''x-request-id'', requestId) #
        (case auth of Some a \<Rightarrow> (if a \<noteq> [] then [(''authorization'', a)] else []) | None \<Rightarrow> []),
      fetch_timeoutMs = USER_LOOKUP_TIMEOUT_MS cfg\<rparr>"

definition fetchExists ::
  "fetch_env \<Rightarrow> directory_config \<Rightarrow> string \<Rightarrow> string \<Rightarrow> string option \<Rightarrow> ('z dir_world_scheme, bool) io" where
  "fetchExists net cfg userId requestId auth =
     bind_io (fetch_loop net (lookup_request cfg userId requestId auth) ATTEMPTS ''unknown'') (\<lambda>r.
       case r of
         Inr found \<Rightarrow> return_io found
       | Inl cause \<Rightarrow>
           seq_io (count_lookup ''unavailable'')
           (seq_io (log_io Error (''user lookup failed requestId='' @ requestId @ '' cause='' @ cause))
             (throw_io (http_exception 503 ''User lookup is temporarily unavailable''))))"

definition cache_key :: "string \<Rightarrow> string" where
  "cache_key userId = ''user:'' @ userId"

text \<open>\<open>UserDirectory.exists\<close>. A cached value counts when it is truthy: neither \<open>null\<close> nor empty.\<close>

definition user_exists ::
  "redis \<Rightarrow> fetch_env \<Rightarrow> directory_config \<Rightarrow> string \<Rightarrow> string \<Rightarrow> string option \<Rightarrow> ('z dir_world_scheme, bool) io" where
  "user_exists redis net cfg userId requestId auth =
     bind_io (cache_get redis (cache_key userId)) (\<lambda>v.
       if v \<noteq> None \<and> v \<noteq> Some []
       then seq_io (count_lookup ''cache_hit'') (return_io True)
       else bind_io (fetchExists net cfg userId requestId auth) (\<lambda>found.
         seq_io (count_lookup (if found then ''found'' else ''not_found''))
         (seq_io (if found then cache_set redis (cache_key userId) ''1'' (USER_CACHE_TTL_SECONDS cfg) else return_io ())
           (return_io found))))"

section \<open>The cache degrades to a miss\<close>

lemmas cache_defs = redis_call_def count_cache_def obs_defs io_defs

lemma cache_get_outcome:
  "fst (cache_get redis key w) =
     Inr (case redis (cache_calls w @ [CacheGet key]) of Inl _ \<Rightarrow> None | Inr v \<Rightarrow> v)"
  by (simp add: cache_get_def cache_defs split: sum.split)

lemma cache_get_calls:
  "cache_calls (snd (cache_get redis key w)) = cache_calls w @ [CacheGet key]"
  by (simp add: cache_get_def cache_defs split: sum.split)

lemma cache_get_frame: "fetches (snd (cache_get redis key w)) = fetches w"
  by (simp add: cache_get_def cache_defs split: sum.split)

lemma cache_set_outcome: "fst (cache_set redis key v ttl w) = Inr ()"
  by (simp add: cache_set_def cache_defs split: sum.split)

lemma cache_set_calls:
  "cache_calls (snd (cache_set redis key v ttl w)) = cache_calls w @ [CacheSet key v ttl]"
  by (simp add: cache_set_def cache_defs split: sum.split)

lemma cache_set_frame: "fetches (snd (cache_set redis key v ttl w)) = fetches w"
  by (simp add: cache_set_def cache_defs split: sum.split)


section \<open>What a lookup answers\<close>

text \<open>The specification of a lookup, over the answers alone: what one answer of user-service settles,
  which answers are worth a second attempt, and whether the cache already knows the user.\<close>

fun settles :: "thrown + nat \<Rightarrow> bool option" where
  "settles (Inl _) = None"
| "settles (Inr status) = (if status = 200 then Some True else if status = 404 then Some False else None)"

fun retryable :: "thrown + nat \<Rightarrow> bool" where
  "retryable (Inl _) = True"
| "retryable (Inr status) = (500 \<le> status)"

definition cached :: "redis \<Rightarrow> string \<Rightarrow> 'z cache_world_scheme \<Rightarrow> bool" where
  "cached redis userId w = (\<exists>v. redis (cache_calls w @ [CacheGet (cache_key userId)]) = Inr (Some v) \<and> v \<noteq> [])"

definition lookup_unavailable :: thrown where
  "lookup_unavailable = http_exception 503 ''User lookup is temporarily unavailable''"

definition decide :: "thrown + nat \<Rightarrow> thrown + nat \<Rightarrow> thrown + bool" where
  "decide first second =
     (case settles first of
        Some b \<Rightarrow> Inr b
      | None \<Rightarrow>
          if retryable first
          then (case settles second of Some b \<Rightarrow> Inr b | None \<Rightarrow> Inl lookup_unavailable)
          else Inl lookup_unavailable)"

lemma retryable_unsettled: "retryable a \<Longrightarrow> settles a = None"
  by (cases a) auto

lemma fetch_loop_step:
  "fetch_loop net req (Suc left) cause w =
     (let a = net (fetches w @ [req]); w' = w\<lparr>fetches := fetches w @ [req]\<rparr> in
      case settles a of
        Some b \<Rightarrow> (Inr (Inr b), w')
      | None \<Rightarrow>
          (let c = (case a of Inl e \<Rightarrow> message_of e | Inr st \<Rightarrow> ''user-service responded '' @ nat_string st)
           in if retryable a then fetch_loop net req left c w' else (Inr (Inl c), w')))"
  by (cases "net (fetches w @ [req])") (auto simp: fetch_call_def io_defs Let_def)

lemma fetch_loop_two:
  fixes w :: "'z dir_world_scheme" and net :: fetch_env and req :: fetch_request
  defines "a \<equiv> net (fetches w @ [req])" and "b \<equiv> net (fetches w @ [req, req])"
  shows "\<exists>r. fetch_loop net req 2 cause w =
     (Inr r, w\<lparr>fetches := fetches w @ (if retryable a then [req, req] else [req])\<rparr>)
     \<and> (case r of Inr found \<Rightarrow> decide a b = Inr found | Inl _ \<Rightarrow> decide a b = Inl lookup_unavailable)"
  unfolding a_def b_def numeral_2_eq_2 fetch_loop_step
  by (auto simp: Let_def decide_def retryable_unsettled return_io_def split: option.splits)

lemma fetchExists_outcome:
  fixes w :: "'z dir_world_scheme" and net :: fetch_env and cfg :: directory_config
    and userId requestId :: string and auth :: "string option"
  defines "req \<equiv> lookup_request cfg userId requestId auth"
  shows "fst (fetchExists net cfg userId requestId auth w) =
           decide (net (fetches w @ [req])) (net (fetches w @ [req, req]))
       \<and> fetches (snd (fetchExists net cfg userId requestId auth w)) =
           fetches w @ (if retryable (net (fetches w @ [req])) then [req, req] else [req])
       \<and> cache_calls (snd (fetchExists net cfg userId requestId auth w)) = cache_calls w"
proof -
  obtain r where run: "fetch_loop net req ATTEMPTS ''unknown'' w =
     (Inr r, w\<lparr>fetches := fetches w @ (if retryable (net (fetches w @ [req])) then [req, req] else [req])\<rparr>)"
    and dec: "case r of Inr found \<Rightarrow> decide (net (fetches w @ [req])) (net (fetches w @ [req, req])) = Inr found
       | Inl _ \<Rightarrow> decide (net (fetches w @ [req])) (net (fetches w @ [req, req])) = Inl lookup_unavailable"
    using fetch_loop_two [where net = net and w = w and req = req and cause = "''unknown''"] unfolding ATTEMPTS_def by blast
  show ?thesis
    using dec run
    by (cases r) (simp_all add: fetchExists_def req_def [symmetric] count_lookup_def obs_defs io_defs
        lookup_unavailable_def)
qed

lemma user_exists_hit:
  "cached redis userId w \<Longrightarrow>
     fst (user_exists redis net cfg userId requestId auth w) = Inr True
   \<and> fetches (snd (user_exists redis net cfg userId requestId auth w)) = fetches w
   \<and> cache_calls (snd (user_exists redis net cfg userId requestId auth w)) =
       cache_calls w @ [CacheGet (cache_key userId)]"
  by (auto simp: cached_def user_exists_def cache_get_def count_lookup_def cache_defs)

lemma user_exists_miss:
  fixes w :: "'z dir_world_scheme" and redis :: redis and userId :: string
  assumes "\<not> cached redis userId w"
  defines "w1 \<equiv> snd (cache_get redis (cache_key userId) w)"
  shows "user_exists redis net cfg userId requestId auth w =
     bind_io (fetchExists net cfg userId requestId auth) (\<lambda>found.
         seq_io (count_lookup (if found then ''found'' else ''not_found''))
         (seq_io (if found then cache_set redis (cache_key userId) ''1'' (USER_CACHE_TTL_SECONDS cfg) else return_io ())
           (return_io found))) w1"
proof -
  obtain v where v: "cache_get redis (cache_key userId) w = (Inr v, w1)" and "v = None \<or> v = Some []"
    unfolding w1_def using assms(1) cache_get_outcome [of redis "cache_key userId" w]
    by (cases "cache_get redis (cache_key userId) w")
      (auto simp: cached_def split: sum.splits option.splits, metis option.exhaust)
  then show ?thesis by (auto simp: user_exists_def bind_io_def [of "cache_get _ _"])
qed

lemma user_exists_miss_effects:
  fixes w :: "'z dir_world_scheme" and redis :: redis and net :: fetch_env and cfg :: directory_config
    and userId requestId :: string and auth :: "string option"
  assumes miss: "\<not> cached redis userId w"
  defines "req \<equiv> lookup_request cfg userId requestId auth"
  defines "d \<equiv> decide (net (fetches w @ [req])) (net (fetches w @ [req, req]))"
  shows "fst (user_exists redis net cfg userId requestId auth w) = d
       \<and> fetches (snd (user_exists redis net cfg userId requestId auth w)) =
           fetches w @ (if retryable (net (fetches w @ [req])) then [req, req] else [req])
       \<and> cache_calls (snd (user_exists redis net cfg userId requestId auth w)) =
           cache_calls w @ [CacheGet (cache_key userId)]
           @ (if d = Inr True then [CacheSet (cache_key userId) ''1'' (USER_CACHE_TTL_SECONDS cfg)] else [])"
proof -
  let ?w1 = "snd (cache_get redis (cache_key userId) w)"
  have w1: "fetches ?w1 = fetches w" "cache_calls ?w1 = cache_calls w @ [CacheGet (cache_key userId)]"
    by (simp_all add: cache_get_frame cache_get_calls)
  obtain r w2 where run: "fetchExists net cfg userId requestId auth ?w1 = (r, w2)" by fastforce
  have r: "r = d" "cache_calls w2 = cache_calls ?w1"
    "fetches w2 = fetches w @ (if retryable (net (fetches w @ [req])) then [req, req] else [req])"
    using fetchExists_outcome [of net cfg userId requestId auth ?w1] run w1
    by (simp_all add: req_def d_def)
  show ?thesis
  proof (cases r)
    case (Inl e)
    with r(1) have d: "d = Inl e" by simp
    with run r(2,3) w1 Inl show ?thesis by (simp add: user_exists_miss [OF miss] bind_io_def)
  next
    case (Inr found)
    let ?key = "cache_key userId" and ?ttl = "USER_CACHE_TTL_SECONDS cfg"
    obtain w3 where w3: "count_lookup (if found then ''found'' else ''not_found'') w2 = (Inr (), w3)"
      "fetches w3 = fetches w2" "cache_calls w3 = cache_calls w2"
      by (simp add: count_lookup_def obs_defs io_defs)
    obtain w4 where set3: "cache_set redis ?key ''1'' ?ttl w3 = (Inr (), w4)"
      "fetches w4 = fetches w3" "cache_calls w4 = cache_calls w3 @ [CacheSet ?key ''1'' ?ttl]"
      by (metis cache_set_outcome cache_set_frame cache_set_calls prod.collapse)
    from Inr r(1) have d: "d = Inr found" by simp
    show ?thesis
      using run Inr r(2,3) d w1 w3 set3
      by (cases found)
        (simp_all add: user_exists_miss [OF miss] bind_io_def seq_io_def return_io_def)
  qed
qed

lemma user_exists_answer:
  "fst (user_exists redis net cfg userId requestId auth w) =
     (if cached redis userId w then Inr True
      else decide (net (fetches w @ [lookup_request cfg userId requestId auth]))
             (net (fetches w @ [lookup_request cfg userId requestId auth, lookup_request cfg userId requestId auth])))"
  using user_exists_hit [of redis userId w net cfg requestId auth]
    user_exists_miss_effects [of redis userId w net cfg requestId auth]
  by (cases "cached redis userId w") simp_all

text \<open>Only positive answers of user-service are cached, under the key of that user, with the configured
  time to live; whatever Redis does, the lookup makes no other cache call.\<close>

lemma only_found_users_are_cached:
  "cache_calls (snd (user_exists redis net cfg userId requestId auth w)) =
     cache_calls w @ [CacheGet (cache_key userId)]
     @ (if \<not> cached redis userId w \<and> fst (user_exists redis net cfg userId requestId auth w) = Inr True
        then [CacheSet (cache_key userId) ''1'' (USER_CACHE_TTL_SECONDS cfg)] else [])"
  using user_exists_hit [of redis userId w net cfg requestId auth]
    user_exists_miss_effects [of redis userId w net cfg requestId auth]
  by (cases "cached redis userId w") simp_all

text \<open>C30: a lookup answers what user-service says, and asks it at most twice. With a cached user the answer
  is yes and user-service is not asked. Otherwise the first answer 200 or 404 decides; a failed
  request or a 5xx is asked once more, with the same URL, request id and caller authorization; any
  other answer, and a second failure, is a 503, never a guess. Redis matters only through a cached
  value: an unreachable Redis gives the same answers as an empty one. Of the answers only a yes of user-service is
  cached, under the key of that user and with the configured time to live.\<close>

theorem user_lookup_decides:
  "fst (user_exists redis net cfg userId requestId auth w) =
     (let req = lookup_request cfg userId requestId auth in
      if cached redis userId w then Inr True
      else decide (net (fetches w @ [req])) (net (fetches w @ [req, req])))
   \<and> fetches (snd (user_exists redis net cfg userId requestId auth w)) =
     (let req = lookup_request cfg userId requestId auth in
      fetches w @ (if cached redis userId w then []
                   else if retryable (net (fetches w @ [req])) then [req, req] else [req]))
   \<and> cache_calls (snd (user_exists redis net cfg userId requestId auth w)) =
     cache_calls w @ [CacheGet (''user:'' @ userId)]
     @ (if \<not> cached redis userId w \<and> fst (user_exists redis net cfg userId requestId auth w) = Inr True
        then [CacheSet (''user:'' @ userId) ''1'' (USER_CACHE_TTL_SECONDS cfg)] else [])"
  using user_exists_hit [of redis userId w net cfg requestId auth]
    user_exists_miss_effects [of redis userId w net cfg requestId auth]
    only_found_users_are_cached [of redis net cfg userId requestId auth w]
  by (cases "cached redis userId w") (simp_all add: Let_def cache_key_def)

end
