(* ===== verification/Orders_Store.thy ===== *)
theory Orders_Store
  imports JsValue Async
begin

text \<open>
  The tables of order-service as its migration declares them
  (\<open>order-service/src/migrations/1700000000000-create-orders.ts\<close>), with the entities
  (\<open>order.entity.ts\<close>, \<open>idempotency-key.entity.ts\<close>), the statements the service runs on them and the
  interface those statements give to the service: the locale \<open>order_store\<close>, interpreted on the tables
  at the end.
\<close>

section \<open>Rows\<close>

text \<open>An amount is the decimal it is written as.\<close>

record order_row =
  ord_id :: string
  ord_userId :: string
  ord_amount :: rat
  ord_description :: string
  ord_status :: string
  ord_createdAt :: string

record key_row =
  idem_key :: string
  idem_orderId :: string
  idem_createdAt :: string

record create_order_dto =
  dto_userId :: string
  dto_amount :: rat
  dto_description :: string

record order_tables =
  orders_tbl :: "order_row list"
  keys_tbl :: "key_row list"

definition no_orders :: order_tables where
  "no_orders = \<lparr>orders_tbl = [], keys_tbl = []\<rparr>"

section \<open>Database errors\<close>

text \<open>A statement the server refuses: the database layer wraps the driver's error, which carries the
  SQLSTATE code and the constraint.\<close>

definition pg_error :: "string \<Rightarrow> string option \<Rightarrow> string \<Rightarrow> thrown" where
  "pg_error code con msg =
     Thrown QueryFailedError (Some code) con (Some msg)
       (Some (Thrown PlainError (Some code) con (Some msg) None None)) None"

text \<open>\<open>isUniqueViolation\<close> of \<open>common/pg-errors.ts\<close>.\<close>

fun isUniqueViolation :: "thrown \<Rightarrow> bool" where
  "isUniqueViolation (Thrown QueryFailedError _ _ _ (Some d) _) =
     (case d of Thrown _ co _ _ _ _ \<Rightarrow> co = Some ''23505'' | Falsy _ \<Rightarrow> False)"
| "isUniqueViolation _ = False"

lemma isUniqueViolation_pg_error [simp]: "isUniqueViolation (pg_error co con m) \<longleftrightarrow> co = ''23505''"
  by (simp add: pg_error_def)

section \<open>Statements\<close>

text \<open>A column of type \<open>UUID\<close> reads back in lower case whatever the case it was written in, and refuses
  a text that is no UUID. \<open>NUMERIC(12,2)\<close> rounds to two decimals and refuses ten or more digits before
  the point. \<open>VARCHAR(200)\<close> counts characters, and no text may hold the zero byte.\<close>

definition pg_uuid :: "string \<Rightarrow> thrown + string" where
  "pg_uuid s = (if uuid_test s then Inr (toLowerCase s)
     else Inl (pg_error ''22P02'' None ''invalid input syntax for type uuid''))"

definition pg_numeric_12_2 :: "rat \<Rightarrow> rat" where
  "pg_numeric_12_2 x = sgn x * (of_int \<lfloor>\<bar>x\<bar> * 100 + 1 / 2\<rfloor> / 100)"

definition characters :: "string \<Rightarrow> nat" where
  "characters s = length (filter (\<lambda>c. byte c < 128 \<or> 192 \<le> byte c) s)"

definition find_key :: "string \<Rightarrow> order_tables \<Rightarrow> key_row option" where
  "find_key key t = find (\<lambda>r. idem_key r = key) (keys_tbl t)"

definition find_order :: "string \<Rightarrow> order_tables \<Rightarrow> thrown + order_row option" where
  "find_order i t = (case pg_uuid i of Inl e \<Rightarrow> Inl e | Inr u \<Rightarrow> Inr (find (\<lambda>r. ord_id r = u) (orders_tbl t)))"

text \<open>\<open>INSERT INTO orders\<close> with the values of the entity, for the id and time the server generates. The
  entity handed back keeps the values it was saved with; only the generated columns are filled in.\<close>

definition insert_order ::
  "string \<Rightarrow> string \<Rightarrow> create_order_dto \<Rightarrow> order_tables \<Rightarrow> thrown + order_row \<times> order_tables" where
  "insert_order i now dto t =
     (case pg_uuid (dto_userId dto) of
        Inl e \<Rightarrow> Inl e
      | Inr u \<Rightarrow>
          let a = pg_numeric_12_2 (dto_amount dto) in
          if CHR 0x00 \<in> set (dto_description dto)
            then Inl (pg_error ''22021'' None ''invalid byte sequence for encoding'')
          else if 10 ^ 10 \<le> \<bar>a\<bar> then Inl (pg_error ''22003'' None ''numeric field overflow'')
          else if \<not> 0 < a then Inl (pg_error ''23514'' (Some ''orders_amount_check'') ''violates check constraint'')
          else if i \<in> ord_id ` set (orders_tbl t)
            then Inl (pg_error ''23505'' (Some ''orders_pkey'') ''duplicate key value'')
          else
            let row = \<lparr>ord_id = i, ord_userId = u, ord_amount = a, ord_description = dto_description dto,
                       ord_status = ''CREATED'', ord_createdAt = now\<rparr>
            in Inr (row\<lparr>ord_userId := dto_userId dto, ord_amount := dto_amount dto\<rparr>,
                    t\<lparr>orders_tbl := orders_tbl t @ [row]\<rparr>))"

definition insert_key ::
  "string \<Rightarrow> string \<Rightarrow> string \<Rightarrow> order_tables \<Rightarrow> thrown + order_tables" where
  "insert_key key orderId now t =
     (if 200 < characters key then Inl (pg_error ''22001'' None ''value too long for type character varying(200)'')
      else if key \<in> idem_key ` set (keys_tbl t)
        then Inl (pg_error ''23505'' (Some ''idempotency_keys_pkey'') ''duplicate key value'')
      else if orderId \<notin> ord_id ` set (orders_tbl t)
        then Inl (pg_error ''23503'' (Some ''idempotency_keys_order_id_fkey'') ''violates foreign key constraint'')
      else Inr (t\<lparr>keys_tbl := keys_tbl t @ [\<lparr>idem_key = key, idem_orderId = orderId, idem_createdAt = now\<rparr>]\<rparr>))"

text \<open>The body of \<open>dataSource.transaction\<close> in \<open>OrdersService.create\<close>: save the order, insert the key if
  there is one. The tables change only if both succeed.\<close>

definition order_tx ::
  "string \<Rightarrow> string \<Rightarrow> create_order_dto \<Rightarrow> string option \<Rightarrow> order_tables \<Rightarrow> thrown + order_row \<times> order_tables" where
  "order_tx i now dto key t =
     (case insert_order i now dto t of
        Inl e \<Rightarrow> Inl e
      | Inr (saved, t') \<Rightarrow>
          (if key = None \<or> key = Some [] then Inr (saved, t')
           else (case insert_key (the key) (ord_id saved) now t' of
                   Inl e \<Rightarrow> Inl e
                 | Inr t'' \<Rightarrow> Inr (saved, t''))))"

section \<open>The integrity the constraints give\<close>

definition db_ok :: "order_tables \<Rightarrow> bool" where
  "db_ok t \<longleftrightarrow>
     distinct (map ord_id (orders_tbl t)) \<and> distinct (map idem_key (keys_tbl t))
     \<and> idem_orderId ` set (keys_tbl t) \<subseteq> ord_id ` set (orders_tbl t)
     \<and> (\<forall>r\<in>set (orders_tbl t). 0 < ord_amount r \<and> canonical_uuid (ord_userId r)
          \<and> canonical_uuid (ord_id r))"

lemma db_ok_empty [simp]: "db_ok no_orders"
  by (simp add: db_ok_def no_orders_def)

lemma insert_order_InrD:
  assumes "insert_order i now dto t = Inr (saved, t')"
  obtains row where "t' = t\<lparr>orders_tbl := orders_tbl t @ [row]\<rparr>" "ord_id row = i" "i \<notin> ord_id ` set (orders_tbl t)"
    "uuid_test (dto_userId dto)" "ord_userId row = toLowerCase (dto_userId dto)" "0 < ord_amount row"
    "ord_description row = dto_description dto" "ord_status row = ''CREATED''"
    "saved = row\<lparr>ord_userId := dto_userId dto, ord_amount := dto_amount dto\<rparr>"
  using assms by (auto simp: insert_order_def pg_uuid_def Let_def split: if_splits)

lemma insert_key_InrD:
  assumes "insert_key key oid now t = Inr t'"
  obtains row where "t' = t\<lparr>keys_tbl := keys_tbl t @ [row]\<rparr>" "idem_key row = key" "idem_orderId row = oid"
    "key \<notin> idem_key ` set (keys_tbl t)" "oid \<in> ord_id ` set (orders_tbl t)"
  using assms by (auto simp: insert_key_def split: if_splits)

text \<open>What a committed transaction changed: one new order, and one new key that points to it if the
  request had one.\<close>

definition keyed :: "string option \<Rightarrow> bool" where
  "keyed key \<longleftrightarrow> key \<noteq> None \<and> key \<noteq> Some []"

definition tx_effect ::
  "string \<Rightarrow> create_order_dto \<Rightarrow> string option \<Rightarrow> order_tables \<Rightarrow> order_row \<Rightarrow> order_tables \<Rightarrow> bool" where
  "tx_effect i dto key t saved t' \<longleftrightarrow>
     (\<exists>row. orders_tbl t' = orders_tbl t @ [row] \<and> ord_id row = i \<and> i \<notin> ord_id ` set (orders_tbl t)
        \<and> uuid_test (dto_userId dto) \<and> ord_userId row = toLowerCase (dto_userId dto) \<and> 0 < ord_amount row
        \<and> ord_description row = dto_description dto \<and> ord_status row = ''CREATED''
        \<and> saved = row\<lparr>ord_userId := dto_userId dto, ord_amount := dto_amount dto\<rparr>)
   \<and> (if keyed key
      then the key \<notin> idem_key ` set (keys_tbl t)
        \<and> (\<exists>r. keys_tbl t' = keys_tbl t @ [r] \<and> idem_key r = the key \<and> idem_orderId r = i)
      else keys_tbl t' = keys_tbl t)"

lemma order_tx_effect:
  assumes "order_tx i now dto key t = Inr (saved, t')"
  shows "tx_effect i dto key t saved t'"
proof -
  from assms obtain t1 where ins: "insert_order i now dto t = Inr (saved, t1)"
    by (auto simp: order_tx_def split: sum.splits if_split_asm)
  then obtain row where row: "t1 = t\<lparr>orders_tbl := orders_tbl t @ [row]\<rparr>" "ord_id row = i"
    "i \<notin> ord_id ` set (orders_tbl t)" "uuid_test (dto_userId dto)"
    "ord_userId row = toLowerCase (dto_userId dto)" "0 < ord_amount row"
    "ord_description row = dto_description dto" "ord_status row = ''CREATED''"
    "saved = row\<lparr>ord_userId := dto_userId dto, ord_amount := dto_amount dto\<rparr>"
    by (rule insert_order_InrD)
  show ?thesis
  proof (cases "keyed key")
    case False
    then have "t' = t1" using assms ins by (auto simp: order_tx_def keyed_def)
    with row False show ?thesis by (simp add: tx_effect_def)
  next
    case True
    then have "insert_key (the key) i now t1 = Inr t'"
      using assms ins row(2,9) by (auto simp: order_tx_def keyed_def split: sum.splits)
    then obtain r where "t' = t1\<lparr>keys_tbl := keys_tbl t1 @ [r]\<rparr>" "idem_key r = the key" "idem_orderId r = i"
      "the key \<notin> idem_key ` set (keys_tbl t1)" by (rule insert_key_InrD)
    with row True show ?thesis by (simp add: tx_effect_def)
  qed
qed

lemma tx_effect_db_ok:
  "db_ok t \<Longrightarrow> canonical_uuid i \<Longrightarrow> tx_effect i dto key t saved t' \<Longrightarrow> db_ok t'"
  by (cases "keyed key") (auto simp: tx_effect_def db_ok_def image_subset_iff)

section \<open>The interface of the store\<close>

text \<open>What \<open>OrdersService\<close> relies on. A committed transaction adds one order under a fresh id, binds the
  idempotency key (if there is one) to it and leaves every other key and order as it was; a key is
  bound at most once and to an order that exists; a transaction is refused as a unique violation only
  if the key was bound or the id was taken.\<close>

locale order_store =
  fixes findKey :: "string \<Rightarrow> 's \<Rightarrow> key_row option"
    and findOrder :: "string \<Rightarrow> 's \<Rightarrow> thrown + order_row option"
    and tx :: "string \<Rightarrow> string \<Rightarrow> create_order_dto \<Rightarrow> string option \<Rightarrow> 's \<Rightarrow> thrown + order_row \<times> 's"
    and inv :: "'s \<Rightarrow> bool"
  assumes tx_inv: "inv s \<Longrightarrow> canonical_uuid i \<Longrightarrow> tx i now d key s = Inr (saved, s') \<Longrightarrow> inv s'"
    and tx_saved: "tx i now d key s = Inr (saved, s') \<Longrightarrow> ord_id saved = i \<and> ord_userId saved = dto_userId d"
    and tx_order: "inv s \<Longrightarrow> canonical_uuid i \<Longrightarrow> tx i now d key s = Inr (saved, s') \<Longrightarrow>
      findOrder i s = Inr None
      \<and> (\<exists>r. findOrder i s' = Inr (Some r) \<and> ord_userId r = toLowerCase (dto_userId d) \<and> ord_id r = i)"
    and tx_keeps_orders: "inv s \<Longrightarrow> tx i now d key s = Inr (saved, s') \<Longrightarrow>
      findOrder j s = Inr (Some r) \<Longrightarrow> findOrder j s' = Inr (Some r)"
    and tx_key: "tx i now d key s = Inr (saved, s') \<Longrightarrow> keyed key \<Longrightarrow>
      findKey (the key) s = None \<and> (\<exists>kr. findKey (the key) s' = Some kr \<and> idem_orderId kr = i)"
    and tx_keeps_keys: "tx i now d key s = Inr (saved, s') \<Longrightarrow> findKey k s = Some kr \<Longrightarrow> findKey k s' = Some kr"
    and tx_no_other_key: "tx i now d key s = Inr (saved, s') \<Longrightarrow> \<not> (keyed key \<and> k = the key) \<Longrightarrow>
      findKey k s' = findKey k s"
    and key_order: "inv s \<Longrightarrow> findKey k s = Some kr \<Longrightarrow> \<exists>r. findOrder (idem_orderId kr) s = Inr (Some r)"
    and order_id: "inv s \<Longrightarrow> findOrder j s = Inr (Some r) \<Longrightarrow> ord_id r = toLowerCase j"
    and order_user: "inv s \<Longrightarrow> findOrder j s = Inr (Some r) \<Longrightarrow> canonical_uuid (ord_userId r)"
    and key_canonical: "inv s \<Longrightarrow> findKey k s = Some kr \<Longrightarrow> canonical_uuid (idem_orderId kr)"
    and tx_conflict: "inv s \<Longrightarrow> canonical_uuid i \<Longrightarrow> tx i now d key s = Inl e \<Longrightarrow> isUniqueViolation e \<Longrightarrow>
      (keyed key \<and> (\<exists>kr. findKey (the key) s = Some kr)) \<or> (\<exists>r. findOrder i s = Inr (Some r))"
begin

text \<open>Every key leads to its order: the lookup \<open>findByKey\<close> of the service succeeds.\<close>

lemma key_leads_to_order:
  assumes "inv s" "findKey k s = Some kr"
  obtains r where "findOrder (idem_orderId kr) s = Inr (Some r)" "ord_id r = idem_orderId kr"
    "canonical_uuid (ord_userId r)"
proof -
  from assms obtain r where r: "findOrder (idem_orderId kr) s = Inr (Some r)" by (blast dest: key_order)
  moreover have "ord_id r = idem_orderId kr"
    using assms r order_id key_canonical by (metis canonical_uuid_def)
  ultimately show thesis using assms that order_user by blast
qed

end

lemma find_key_Some: "find_key k t = Some kr \<Longrightarrow> kr \<in> set (keys_tbl t) \<and> idem_key kr = k"
  by (auto simp: find_key_def find_Some_iff)

lemma find_key_None: "find_key k t = None \<longleftrightarrow> k \<notin> idem_key ` set (keys_tbl t)"
  by (auto simp: find_key_def find_None_iff)

lemma find_order_canonical:
  "canonical_uuid i \<Longrightarrow> find_order i t = Inr (find (\<lambda>r. ord_id r = i) (orders_tbl t))"
  by (simp add: find_order_def pg_uuid_def canonical_uuid_def)

lemma find_order_SomeD:
  "find_order i t = Inr (Some r) \<Longrightarrow> uuid_test i \<and> r \<in> set (orders_tbl t) \<and> ord_id r = toLowerCase i"
  by (auto simp: find_order_def pg_uuid_def find_Some_iff split: if_splits)

lemma find_order_stored:
  "db_ok t \<Longrightarrow> r \<in> set (orders_tbl t) \<Longrightarrow> find_order (ord_id r) t = Inr (Some r)"
  by (auto simp: db_ok_def find_order_canonical intro: find_distinct_key)

lemma find_append_Some: "find P xs = Some x \<Longrightarrow> find P (xs @ ys) = Some x"
  by (induction xs) auto

lemma find_append_None: "find P xs = None \<Longrightarrow> find P (xs @ ys) = find P ys"
  by (induction xs) (auto split: if_splits)

lemma find_append_other: "\<not> P y \<Longrightarrow> find P (xs @ [y]) = find P xs"
  by (induction xs) auto

lemma tx_effect_keys:
  assumes "tx_effect i d key t saved t'"
  shows "keyed key \<Longrightarrow> find_key (the key) t = None
           \<and> (\<exists>kr. find_key (the key) t' = Some kr \<and> idem_orderId kr = i)"
    and "find_key k t = Some kr \<Longrightarrow> find_key k t' = Some kr"
    and "\<not> (keyed key \<and> k = the key) \<Longrightarrow> find_key k t' = find_key k t"
proof -
  show "find_key (the key) t = None \<and> (\<exists>kr. find_key (the key) t' = Some kr \<and> idem_orderId kr = i)"
    if kd: "keyed key"
  proof -
    obtain r where no: "find_key (the key) t = None" and r: "keys_tbl t' = keys_tbl t @ [r]"
      "idem_key r = the key" "idem_orderId r = i"
      using assms kd by (auto simp: tx_effect_def find_key_None)
    then have "find_key (the key) t' = Some r" by (simp add: find_key_def find_append_None)
    with no r show ?thesis by blast
  qed
  show "find_key k t' = Some kr" if "find_key k t = Some kr"
    using assms that by (auto simp: tx_effect_def find_key_def find_append_Some split: if_splits)
  show "find_key k t' = find_key k t" if "\<not> (keyed key \<and> k = the key)"
    using assms that by (auto simp: tx_effect_def find_key_def find_append_other split: if_splits)
qed

lemma tx_effect_orders:
  assumes "tx_effect i d key t saved t'" "canonical_uuid i"
  shows "find_order i t = Inr None
       \<and> (\<exists>r. find_order i t' = Inr (Some r) \<and> ord_userId r = toLowerCase (dto_userId d) \<and> ord_id r = i)"
proof -
  obtain row where row: "orders_tbl t' = orders_tbl t @ [row]" "ord_id row = i"
    "i \<notin> ord_id ` set (orders_tbl t)" "ord_userId row = toLowerCase (dto_userId d)"
    using assms(1) by (auto simp: tx_effect_def)
  then have "find (\<lambda>r. ord_id r = i) (orders_tbl t) = None"
    by (force simp: find_None_iff image_iff)
  with row assms(2) show ?thesis by (simp add: find_order_canonical find_append_None)
qed

lemma order_tx_conflict:
  assumes "order_tx i now d key t = Inl e" "isUniqueViolation e"
  shows "(keyed key \<and> the key \<in> idem_key ` set (keys_tbl t)) \<or> i \<in> ord_id ` set (orders_tbl t)"
  using assms
  by (auto simp: order_tx_def insert_order_def insert_key_def pg_uuid_def keyed_def Let_def
      split: if_splits)

interpretation pg_orders: order_store find_key find_order order_tx db_ok
proof (unfold_locales, goal_cases)
  case (1 s i now d key saved s')
  then show ?case by (blast intro: tx_effect_db_ok order_tx_effect)
next
  case (2 i now d key s saved s')
  then show ?case by (auto dest!: order_tx_effect simp: tx_effect_def)
next
  case (3 s i now d key saved s')
  then show ?case by (blast dest: order_tx_effect tx_effect_orders)
next
  case (4 s i now d key saved s' j r)
  then show ?case
    by (auto dest!: order_tx_effect simp: tx_effect_def find_order_def pg_uuid_def find_append_Some
        split: if_splits)
next
  case (5 i now d key s saved s')
  then show ?case by (blast dest: order_tx_effect tx_effect_keys(1))
next
  case (6 i now d key s saved s' k kr)
  then show ?case by (blast dest: order_tx_effect tx_effect_keys(2))
next
  case (7 i now d key s saved s' k)
  then show ?case by (blast dest: order_tx_effect tx_effect_keys(3))
next
  case (8 s k kr)
  then obtain r where "r \<in> set (orders_tbl s)" "ord_id r = idem_orderId kr"
    by (auto simp: db_ok_def image_subset_iff dest!: find_key_Some)
  with 8 show ?case using find_order_stored by metis
next
  case (9 s j r)
  then show ?case by (blast dest: find_order_SomeD)
next
  case (10 s j r)
  then show ?case by (auto dest!: find_order_SomeD simp: db_ok_def)
next
  case (11 s k kr)
  then show ?case by (auto simp: db_ok_def image_subset_iff dest!: find_key_Some)
next
  case (12 s i now d key e)
  from order_tx_conflict [OF 12(3,4)] show ?case
  proof
    assume "keyed key \<and> the key \<in> idem_key ` set (keys_tbl s)"
    then show ?thesis using find_key_None [of "the key" s] by auto
  next
    assume "i \<in> ord_id ` set (orders_tbl s)"
    then show ?thesis using 12(1) find_order_stored by blast
  qed
qed

end
