(* ===== verification/Token_Verifier.thy ===== *)
theory Token_Verifier
  imports JsValue Async
begin

text \<open>
  \<open>src/auth/token-verifier.ts\<close>, the same file in every service: the principal of a bearer token, the
  classification of verification errors, and \<open>TokenVerifier.verify\<close>. The token library's \<open>jwtVerify\<close>
  is a parameter: the outcome of the call for a token, a key resolver and the options given.
\<close>

record principal =
  sub :: string
  roles :: "string list"

record verifier_options =
  issuer :: string
  audience :: string
  clockToleranceSeconds :: int

text \<open>The options object \<open>verify\<close> hands to \<open>jwtVerify\<close>.\<close>

record jwt_options =
  jwt_issuer :: string
  jwt_audience :: string
  algorithms :: "string list"
  clockTolerance :: int
  requiredClaims :: "string list"

type_synonym 'k jwt_verify = "string \<Rightarrow> 'k \<Rightarrow> jwt_options \<Rightarrow> thrown + jsval"

definition token_invalid :: "reject_reason \<Rightarrow> thrown" where
  "token_invalid r = error_of (TokenInvalid r) (reason_name r)"

definition keys_unavailable :: "string \<Rightarrow> thrown" where
  "keys_unavailable msg = error_of KeysUnavailable msg"

text \<open>\<open>classify\<close>: which errors mean that the token is unacceptable (and why), and which mean that it
  could not be judged. The \<open>instanceof\<close> tests come in the order of the source.\<close>

fun classify :: "thrown \<Rightarrow> thrown" where
  "classify (Thrown JWTExpired _ _ _ _ _) = token_invalid Expired"
| "classify (Thrown (JWTClaimValidationFailed claim) _ _ _ _ _) =
     (if claim = ''iss'' then token_invalid Issuer
      else if claim = ''aud'' then token_invalid Audience
      else if claim = ''nbf'' then token_invalid NotYetValid
      else token_invalid Claims)"
| "classify (Thrown JWSSignatureVerificationFailed _ _ _ _ _) = token_invalid Signature"
| "classify (Thrown JWKSNoMatchingKey _ _ _ _ _) = token_invalid Signature"
| "classify (Thrown JWKSMultipleMatchingKeys _ _ _ _ _) = token_invalid Signature"
| "classify (Thrown JOSEAlgNotAllowed _ _ _ _ _) = token_invalid Signature"
| "classify (Thrown JWSInvalid _ _ _ _ _) = token_invalid Malformed"
| "classify (Thrown JWTInvalid _ _ _ _ _) = token_invalid Malformed"
| "classify (Thrown JOSENotSupported _ _ _ _ _) = token_invalid Malformed"
| "classify (Thrown (NonError _) _ _ _ _ _) = keys_unavailable ''key resolution failed''"
| "classify (Falsy _) = keys_unavailable ''key resolution failed''"
| "classify e = keys_unavailable (message_of e)"

text \<open>The options of every verification: RS256 only, the configured issuer and audience, a bounded clock
  tolerance, and the claims \<open>sub\<close> and \<open>exp\<close> present.\<close>

definition jwt_options_of :: "verifier_options \<Rightarrow> jwt_options" where
  "jwt_options_of opts =
     \<lparr>jwt_issuer = issuer opts, jwt_audience = audience opts, algorithms = [''RS256''],
      clockTolerance = clockToleranceSeconds opts, requiredClaims = [''sub'', ''exp'']\<rparr>"

text \<open>The principal a verified payload denotes: a UUID subject in lower case and the string roles of
  \<open>realm_access.roles\<close>.\<close>

fun string_roles :: "jsval \<Rightarrow> string list" where
  "string_roles (JArr vs) = [r. JStr r \<leftarrow> vs]"
| "string_roles _ = []"

definition principal_of :: "jsval \<Rightarrow> thrown + principal" where
  "principal_of payload =
     (case js_get payload ''sub'' of
        JStr s \<Rightarrow>
          if uuid_test s
          then Inr \<lparr>sub = toLowerCase s, roles = string_roles (js_get (js_get payload ''realm_access'') ''roles'')\<rparr>
          else Inl (token_invalid Claims)
      | _ \<Rightarrow> Inl (token_invalid Claims))"

definition verify :: "'k jwt_verify \<Rightarrow> 'k \<Rightarrow> verifier_options \<Rightarrow> string \<Rightarrow> thrown + principal" where
  "verify jwtVerify getKey opts token =
     (case jwtVerify token getKey (jwt_options_of opts) of
        Inl err \<Rightarrow> Inl (classify err)
      | Inr payload \<Rightarrow> principal_of payload)"

section \<open>Classification\<close>

lemma token_invalid_inject [simp]: "token_invalid r = token_invalid r' \<longleftrightarrow> r = r'"
  by (auto simp: token_invalid_def error_of_def)

lemma token_invalid_not_keys [simp]:
  "token_invalid r \<noteq> keys_unavailable m" "keys_unavailable m \<noteq> token_invalid r"
  by (simp_all add: token_invalid_def keys_unavailable_def error_of_def)

text \<open>The error classes that speak about the token itself.\<close>

definition token_fault :: "err_class \<Rightarrow> bool" where
  "token_fault c \<longleftrightarrow>
     c \<in> {JWTExpired, JWSSignatureVerificationFailed, JWKSNoMatchingKey, JWKSMultipleMatchingKeys,
          JOSEAlgNotAllowed, JWSInvalid, JWTInvalid, JOSENotSupported}
     \<or> (\<exists>claim. c = JWTClaimValidationFailed claim)"

lemma classify_cases:
  "(\<exists>r. classify e = token_invalid r \<and> (\<exists>c co cn m d ca. e = Thrown c co cn m d ca \<and> token_fault c))
   \<or> (\<exists>m. classify e = keys_unavailable m \<and> (\<forall>c co cn m d ca. e = Thrown c co cn m d ca \<longrightarrow> \<not> token_fault c))"
proof (cases e)
  case (Thrown c co cn m d ca)
  then show ?thesis by (cases c) (auto simp: token_fault_def)
next
  case (Falsy s)
  then show ?thesis by auto
qed

lemma classify_not_missing [simp]: "classify e \<noteq> token_invalid Missing"
proof (cases e)
  case (Thrown c co cn m d ca)
  then show ?thesis by (cases c) auto
next
  case (Falsy s)
  then show ?thesis by simp
qed

section \<open>Verification\<close>

lemma principal_of_InrD:
  assumes "principal_of payload = Inr p"
  obtains s where "js_get payload ''sub'' = JStr s" "uuid_test s" "sub p = toLowerCase s"
    "roles p = string_roles (js_get (js_get payload ''realm_access'') ''roles'')"
  using assms by (auto simp: principal_of_def split: jsval.splits if_splits)

lemma principal_of_InlD: "principal_of payload = Inl e \<Longrightarrow> e = token_invalid Claims"
  by (auto simp: principal_of_def split: jsval.splits if_splits)

lemma string_roles_iff: "r \<in> set (string_roles v) \<longleftrightarrow> (\<exists>vs. v = JArr vs \<and> JStr r \<in> set vs)"
  by (cases v) (auto split: jsval.splits)

lemma verify_InrD:
  assumes "verify jv k opts t = Inr p"
  obtains payload where "jv t k (jwt_options_of opts) = Inr payload" "principal_of payload = Inr p"
  using assms by (auto simp: verify_def split: sum.splits)

lemma verify_error_cases:
  assumes "verify jv k opts t = Inl e"
  shows "(\<exists>r. e = token_invalid r \<and> r \<noteq> Missing) \<or> (\<exists>m. e = keys_unavailable m)"
proof (cases "jv t k (jwt_options_of opts)")
  case (Inl err)
  with assms have "e = classify err" by (simp add: verify_def)
  then show ?thesis using classify_cases [of err] classify_not_missing [of err] by auto
next
  case (Inr payload)
  with assms have "principal_of payload = Inl e" by (simp add: verify_def)
  then show ?thesis by (auto dest: principal_of_InlD)
qed


text \<open>C16: an accepted token was verified by the token library with RS256 as the only algorithm, for the
  configured issuer and audience, with the claims \<open>sub\<close> and \<open>exp\<close> required; its subject is a UUID, the
  principal carries that UUID in its canonical lower case, and exactly the string entries of
  \<open>realm_access.roles\<close> as roles.\<close>

theorem verify_sound:
  assumes "verify jwtVerify getKey opts token = Inr p"
  shows "\<exists>payload s.
    jwtVerify token getKey
      \<lparr>jwt_issuer = issuer opts, jwt_audience = audience opts, algorithms = [''RS256''],
       clockTolerance = clockToleranceSeconds opts, requiredClaims = [''sub'', ''exp'']\<rparr> = Inr payload
    \<and> js_get payload ''sub'' = JStr s \<and> uuid_test s
    \<and> sub p = toLowerCase s \<and> uuid_test (sub p) \<and> toLowerCase (sub p) = sub p
    \<and> (\<forall>r. r \<in> set (roles p) \<longleftrightarrow>
         (\<exists>vs. js_get (js_get payload ''realm_access'') ''roles'' = JArr vs \<and> JStr r \<in> set vs))"
proof -
  from assms obtain payload where lib: "jwtVerify token getKey (jwt_options_of opts) = Inr payload"
    and "principal_of payload = Inr p" by (rule verify_InrD)
  from this(2) obtain s where "js_get payload ''sub'' = JStr s" "uuid_test s" "sub p = toLowerCase s"
    "roles p = string_roles (js_get (js_get payload ''realm_access'') ''roles'')"
    by (rule principal_of_InrD)
  with lib show ?thesis
    by (auto simp: jwt_options_of_def string_roles_iff)
qed

definition demo_payload :: jsval where
  "demo_payload = JObj
     [(''sub'', JStr ''3F6C1C2E-8a3b-4f0e-9d55-0c1d2e3f4a5b''),
      (''realm_access'', JObj [(''roles'', JArr [JStr ''customer'', JNum (Fin 7)])])]"

definition demo_jwt :: "unit jwt_verify" where
  "demo_jwt token _ opts =
     (if token = ''good'' \<and> algorithms opts = [''RS256''] then Inr demo_payload
      else if token = ''expired'' then Inl (error_of JWTExpired ''exp claim'')
      else Inl (error_of PlainError ''fetch failed''))"

definition demo_options :: verifier_options where
  "demo_options = \<lparr>issuer = ''http://idp/realms/lab'', audience = ''platform-api'', clockToleranceSeconds = 5\<rparr>"

lemma demo_verify:
  "verify demo_jwt () demo_options ''good'' =
     Inr \<lparr>sub = ''3f6c1c2e-8a3b-4f0e-9d55-0c1d2e3f4a5b'', roles = [''customer'']\<rparr>"
  by code_simp

theorem verify_sound_witness:
  "\<exists>p s. verify demo_jwt () demo_options ''good'' = Inr p \<and> uuid_test s \<and> sub p = toLowerCase s"
  using verify_sound [OF demo_verify] demo_verify by auto

text \<open>Verification fails closed. When the library reports an error, no principal comes out: the error
  is a refusal of the token exactly when its class is one of those that speak about the token, and
  otherwise (timeouts, connection errors, anything unknown) it says that the keys are unavailable.\<close>

lemma verify_fails_closed:
  assumes "jwtVerify token getKey (jwt_options_of opts) = Inl err"
  shows "((\<exists>r. verify jwtVerify getKey opts token = Inl (token_invalid r)) \<longleftrightarrow>
            (\<exists>c co cn m d ca. err = Thrown c co cn m d ca \<and> token_fault c))
       \<and> ((\<exists>m. verify jwtVerify getKey opts token = Inl (keys_unavailable m)) \<longleftrightarrow>
            (\<nexists>c co cn m d ca. err = Thrown c co cn m d ca \<and> token_fault c))"
  using classify_cases [of err] by (auto simp: verify_def assms)

lemma verify_fails_closed_demo:
  "(\<exists>r. verify demo_jwt () demo_options ''expired'' = Inl (token_invalid r))
   \<and> (\<exists>m. verify demo_jwt () demo_options ''other'' = Inl (keys_unavailable m))"
proof
  have "demo_jwt ''expired'' () (jwt_options_of demo_options) = Inl (error_of JWTExpired ''exp claim'')"
    by (simp add: demo_jwt_def)
  from verify_fails_closed [where jwtVerify = demo_jwt, OF this]
  show "\<exists>r. verify demo_jwt () demo_options ''expired'' = Inl (token_invalid r)"
    by (simp add: error_of_def token_fault_def)
  have "demo_jwt ''other'' () (jwt_options_of demo_options) = Inl (error_of PlainError ''fetch failed'')"
    by (simp add: demo_jwt_def)
  from verify_fails_closed [where jwtVerify = demo_jwt, OF this]
  show "\<exists>m. verify demo_jwt () demo_options ''other'' = Inl (keys_unavailable m)"
    by (simp add: error_of_def token_fault_def)
qed

end
