(* ===== verification/Auth_Guard.thy ===== *)
theory Auth_Guard
  imports Token_Verifier
begin

text \<open>
  \<open>src/auth/auth.guard.ts\<close>, \<open>auth.decorators.ts\<close> and \<open>auth.metrics.ts\<close>: the global guard of the
  three backend services and the ownership rules their controllers apply. The verifier is the
  outcome function of \<open>TokenVerifier.verify\<close>.
\<close>

section \<open>Requests and their context\<close>

text \<open>What the guard reads of a request: the id the logger assigned, the \<open>x-request-id\<close> and
  \<open>authorization\<close> headers, the method and the matched route.\<close>

record auth_request =
  req_id :: "string option"
  x_request_id :: "string option"
  authorization :: "string option"
  req_method :: string
  req_route :: string

text \<open>What it may change: the response headers and the principal attached to the request.\<close>

record http_ctx = obs +
  res_headers :: "(string \<times> string) list"
  req_principal :: "principal option"

definition empty_ctx :: http_ctx where
  "empty_ctx = \<lparr>logs = [], counters = [], res_headers = [], req_principal = None\<rparr>"

definition set_header :: "string \<Rightarrow> string \<Rightarrow> ('z http_ctx_scheme, unit) io" where
  "set_header k v = modify_io (\<lambda>w. w\<lparr>res_headers := obj_set k v (res_headers w)\<rparr>)"

text \<open>The metadata the decorators \<open>Public\<close> and \<open>Roles\<close> attach to a handler or a controller class. The
  handler's value, where there is one, overrides the one of the class.\<close>

record decorators =
  public_meta :: "bool option"
  roles_meta :: "string list option"

definition override_meta :: "'a option \<Rightarrow> 'a option \<Rightarrow> 'a option" where
  "override_meta handler cls = (case handler of Some x \<Rightarrow> Some x | None \<Rightarrow> cls)"

definition Public :: "decorators \<Rightarrow> decorators" where
  "Public d = d\<lparr>public_meta := Some True\<rparr>"

definition Roles :: "string list \<Rightarrow> decorators \<Rightarrow> decorators" where
  "Roles rs d = d\<lparr>roles_meta := Some rs\<rparr>"

definition undecorated :: decorators where
  "undecorated = \<lparr>public_meta = None, roles_meta = None\<rparr>"

definition recordAuthRejection :: "string \<Rightarrow> ('z obs_scheme, unit) io" where
  "recordAuthRejection reason = count_io ''auth.rejections'' [(''reason'', reason)]"

section \<open>The guard\<close>

text \<open>\<open>String(req.id ?? req.headers['x-request-id'] ?? 'unknown')\<close>.\<close>

definition request_id_of :: "auth_request \<Rightarrow> string" where
  "request_id_of req =
     (case req_id req of Some i \<Rightarrow> i | None \<Rightarrow> (case x_request_id req of Some i \<Rightarrow> i | None \<Rightarrow> ''unknown''))"

definition unauthorized :: "string \<Rightarrow> reject_reason \<Rightarrow> ('z http_ctx_scheme, 'a) io" where
  "unauthorized requestId reason =
     seq_io (recordAuthRejection (reason_name reason))
     (seq_io (log_io Warn (''auth.rejected requestId='' @ requestId @ '' reason='' @ reason_name reason))
     (seq_io (set_header ''www-authenticate'' ''Bearer'')
       (throw_io (http_exception 401 ''Invalid or missing token''))))"

fun reject_unverified :: "string \<Rightarrow> thrown \<Rightarrow> ('z http_ctx_scheme, 'a) io" where
  "reject_unverified requestId (Thrown (TokenInvalid reason) _ _ _ _ _) = unauthorized requestId reason"
| "reject_unverified requestId err =
     seq_io (recordAuthRejection ''keys_unavailable'')
     (seq_io (log_io Error (''auth.keys_unavailable requestId='' @ requestId @ '' cause='' @ message_of err))
       (throw_io (http_exception 503 ''Authentication is temporarily unavailable'')))"

definition check_roles :: "string \<Rightarrow> auth_request \<Rightarrow> string list option \<Rightarrow> principal \<Rightarrow> ('z http_ctx_scheme, bool) io" where
  "check_roles requestId req required p =
     (case required of
        None \<Rightarrow> return_io True
      | Some rs \<Rightarrow>
          if \<not> list_ex (\<lambda>r. r \<in> set (roles p)) rs
          then seq_io (recordAuthRejection ''role'')
               (seq_io (log_io Warn (''auth.forbidden requestId='' @ requestId @ '' sub='' @ sub p
                  @ '' reason=role route='' @ req_method req @ '' '' @ req_route req))
                 (throw_io (http_exception 403 ''Forbidden'')))
          else return_io True)"

definition canActivate ::
  "(string \<Rightarrow> thrown + principal) \<Rightarrow> decorators \<Rightarrow> decorators \<Rightarrow> auth_request \<Rightarrow> ('z http_ctx_scheme, bool) io" where
  "canActivate verifier handler cls req =
     (if override_meta (public_meta handler) (public_meta cls) = Some True then return_io True
      else
        let requestId = request_id_of req in
        case bearer_token (case authorization req of Some h \<Rightarrow> h | None \<Rightarrow> []) of
          None \<Rightarrow> unauthorized requestId Missing
        | Some token \<Rightarrow>
            (case verifier token of
               Inl err \<Rightarrow> reject_unverified requestId err
             | Inr p \<Rightarrow>
                 seq_io (modify_io (\<lambda>w. w\<lparr>req_principal := Some p\<rparr>))
                   (check_roles requestId req (override_meta (roles_meta handler) (roles_meta cls)) p)))"

section \<open>Ownership rules\<close>

definition isAdmin :: "principal \<Rightarrow> bool" where
  "isAdmin p \<longleftrightarrow> ''admin'' \<in> set (roles p)"

definition refuse_owner :: "principal \<Rightarrow> thrown \<Rightarrow> ('z obs_scheme, unit) io" where
  "refuse_owner p e =
     seq_io (recordAuthRejection ''not_owner'')
     (seq_io (log_io Warn (''auth.forbidden sub='' @ sub p @ '' reason=not_owner''))
       (throw_io e))"

definition assertSelfOrAdmin :: "principal \<Rightarrow> string \<Rightarrow> ('z obs_scheme, unit) io" where
  "assertSelfOrAdmin p userId =
     (if isAdmin p \<or> sub p = toLowerCase userId then return_io ()
      else refuse_owner p (http_exception 403 ''Forbidden''))"

definition ownerOrNotFound :: "principal \<Rightarrow> string \<Rightarrow> string \<Rightarrow> ('z obs_scheme, unit) io" where
  "ownerOrNotFound p ownerId notFoundMessage =
     (if isAdmin p \<or> sub p = toLowerCase ownerId then return_io ()
      else refuse_owner p (http_exception 404 notFoundMessage))"

section \<open>What the guard guarantees\<close>

lemmas guard_defs = unauthorized_def recordAuthRejection_def set_header_def obs_defs io_defs

lemma unauthorized_outcome:
  "unauthorized i r w =
     (Inl (http_exception 401 ''Invalid or missing token''),
      w\<lparr>counters := counters w @ [(''auth.rejections'', [(''reason'', reason_name r)])],
        logs := logs w @ [(Warn, ''auth.rejected requestId='' @ i @ '' reason='' @ reason_name r)],
        res_headers := obj_set ''www-authenticate'' ''Bearer'' (res_headers w)\<rparr>)"
  by (simp add: guard_defs)

lemma reject_unverified_status:
  "\<exists>w'. reject_unverified i e w = (Inl (http_exception 401 ''Invalid or missing token''), w')
     \<or> reject_unverified i e w = (Inl (http_exception 503 ''Authentication is temporarily unavailable''), w')"
  by (cases "(i, e)" rule: reject_unverified.cases) (auto simp: unauthorized_outcome, auto simp: guard_defs)

lemma reject_unverified_not_Inr [simp]: "reject_unverified i e w \<noteq> (Inr b, w')"
  by (cases "(i, e)" rule: reject_unverified.cases) (auto simp: unauthorized_outcome, auto simp: guard_defs)

lemma check_roles_InrD:
  "fst (check_roles i req required p w) = Inr b \<Longrightarrow>
     b \<and> (\<forall>rs. required = Some rs \<longrightarrow> (\<exists>r\<in>set rs. r \<in> set (roles p))) \<and> snd (check_roles i req required p w) = w"
  by (auto simp: check_roles_def list_ex_iff guard_defs split: option.splits if_splits)

lemma check_roles_Inl:
  "fst (check_roles i req required p w) = Inl e \<longleftrightarrow>
     e = http_exception 403 ''Forbidden'' \<and> (\<exists>rs. required = Some rs \<and> (\<forall>r\<in>set rs. r \<notin> set (roles p)))"
  by (auto simp: check_roles_def list_ex_iff guard_defs split: option.splits)

text \<open>The bearer token a request presents.\<close>

definition presented_token :: "auth_request \<Rightarrow> string option" where
  "presented_token req = bearer_token (case authorization req of Some h \<Rightarrow> h | None \<Rightarrow> [])"

lemma canActivate_unfold:
  "canActivate verifier handler cls req =
     (if override_meta (public_meta handler) (public_meta cls) = Some True then return_io True
      else case presented_token req of
          None \<Rightarrow> unauthorized (request_id_of req) Missing
        | Some token \<Rightarrow>
            (case verifier token of
               Inl err \<Rightarrow> reject_unverified (request_id_of req) err
             | Inr p \<Rightarrow>
                 seq_io (modify_io (\<lambda>w. w\<lparr>req_principal := Some p\<rparr>))
                   (check_roles (request_id_of req) req (override_meta (roles_meta handler) (roles_meta cls)) p)))"
  by (simp add: canActivate_def presented_token_def Let_def)

lemma canActivate_verified:
  assumes "override_meta (public_meta h) (public_meta c) \<noteq> Some True"
    and "presented_token req = Some t" and "v t = Inr p"
  shows "canActivate v h c req w =
     check_roles (request_id_of req) req (override_meta (roles_meta h) (roles_meta c)) p
       (w\<lparr>req_principal := Some p\<rparr>)"
  using assms by (simp add: canActivate_unfold seq_io_def bind_io_def modify_io_def)

text \<open>The two ways through the guard of a protected route. A refusal changes nothing but the log, the
  counters, the response headers and the attached principal.\<close>

definition guard_accepts :: "(string \<Rightarrow> thrown + principal) \<Rightarrow> string list option \<Rightarrow> auth_request \<Rightarrow> principal \<Rightarrow> bool" where
  "guard_accepts v required req p \<longleftrightarrow>
     (\<exists>t. presented_token req = Some t \<and> v t = Inr p)
     \<and> (case required of None \<Rightarrow> True | Some rs \<Rightarrow> \<exists>r\<in>set rs. r \<in> set (roles p))"

lemma canActivate_cases [consumes 1, case_names passes refused]:
  fixes w :: "'z http_ctx_scheme"
  assumes "override_meta (public_meta h) (public_meta c) \<noteq> Some True"
  obtains (passes) p where "guard_accepts v (override_meta (roles_meta h) (roles_meta c)) req p"
      "canActivate v h c req w = (Inr True, w\<lparr>req_principal := Some p\<rparr>)"
  | (refused) st m w' where "\<And>p. \<not> guard_accepts v (override_meta (roles_meta h) (roles_meta c)) req p"
      "canActivate v h c req w = (Inl (http_exception st m), w')" "http_ctx.more w' = http_ctx.more w"
      "st \<in> {401, 403, 503}"
proof -
  let ?rs = "override_meta (roles_meta h) (roles_meta c)" and ?run = "canActivate v h c req w"
  let ?refusal = "\<exists>st m w'. ?run = (Inl (http_exception st m), w') \<and> http_ctx.more w' = http_ctx.more w \<and> st \<in> {401, 403, 503}"
  consider p where "guard_accepts v ?rs req p" "?run = (Inr True, w\<lparr>req_principal := Some p\<rparr>)"
    | "\<forall>p. \<not> guard_accepts v ?rs req p" ?refusal
  proof (cases "presented_token req")
    case None
    with assms that(2) show thesis
      by (auto simp: canActivate_unfold unauthorized_outcome guard_accepts_def)
  next
    case (Some t)
    show thesis
    proof (cases "v t")
      case (Inl e)
      with Some assms that(2) show thesis
        by (cases "(request_id_of req, e)" rule: reject_unverified.cases)
          (auto simp: canActivate_unfold unauthorized_outcome guard_accepts_def guard_defs)
    next
      case (Inr p)
      let ?w = "w\<lparr>req_principal := Some p\<rparr>"
      have run: "?run = check_roles (request_id_of req) req ?rs p ?w"
        using canActivate_verified [where v = v, OF assms Some Inr] .
      show thesis
      proof (cases "guard_accepts v ?rs req p")
        case True
        then have "check_roles (request_id_of req) req ?rs p ?w = (Inr True, ?w)"
          by (auto simp: check_roles_def guard_accepts_def list_ex_iff return_io_def split: option.splits)
        with True run that(1) show thesis by auto
      next
        case False
        then have "?refusal"
          using Some Inr unfolding run
          by (auto simp: check_roles_def guard_accepts_def list_ex_iff guard_defs split: option.splits)
        moreover have "\<forall>p'. \<not> guard_accepts v ?rs req p'" using False Some Inr by (auto simp: guard_accepts_def)
        ultimately show thesis using that(2) by blast
      qed
    qed
  qed
  then show thesis using passes refused by cases blast+
qed

text \<open>C9: the guard never fails open. When it lets a request to a protected route through, the request
  carried a bearer token, the verifier accepted exactly that token, its principal is attached to the
  request, and the principal has one of the roles the route asks for.\<close>

theorem guard_never_fails_open:
  assumes protected: "override_meta (public_meta h) (public_meta c) \<noteq> Some True"
    and passed: "canActivate v h c req w = (Inr b, w')"
  shows "b \<and> (\<exists>t p. presented_token req = Some t \<and> v t = Inr p \<and> req_principal w' = Some p
           \<and> (\<forall>rs. override_meta (roles_meta h) (roles_meta c) = Some rs \<longrightarrow>
                (\<exists>r\<in>set rs. r \<in> set (roles p))))"
  using protected
proof (cases rule: canActivate_cases [where v = v and req = req and w = w])
  case (passes p)
  with passed show ?thesis by (auto simp: guard_accepts_def)
next
  case (refused st m w'')
  with passed show ?thesis by simp
qed

text \<open>A concrete service to exhibit the properties on: a verifier that accepts one token, for a customer.\<close>

definition demo_principal :: principal where
  "demo_principal = \<lparr>sub = ''3f6c1c2e-8a3b-4f0e-9d55-0c1d2e3f4a5b'', roles = [''customer'']\<rparr>"

definition demo_verifier :: "string \<Rightarrow> thrown + principal" where
  "demo_verifier t =
     (if t = ''good'' then Inr demo_principal
      else if t = ''offline'' then Inl (keys_unavailable ''fetch failed'') else Inl (token_invalid Signature))"

definition demo_request :: "string option \<Rightarrow> auth_request" where
  "demo_request h = \<lparr>req_id = Some ''req-1'', x_request_id = None, authorization = h,
     req_method = ''GET'', req_route = ''/v1/orders/:id''\<rparr>"

lemma demo_tokens:
  "presented_token (demo_request (Some ''Bearer good'')) = Some ''good''"
  "presented_token (demo_request (Some ''bearer bad'')) = Some ''bad''"
  "presented_token (demo_request (Some ''Bearer worse'')) = Some ''worse''"
  by code_simp+

lemma demo_verifier_good: "demo_verifier ''good'' = Inr demo_principal"
  by (simp add: demo_verifier_def)

theorem guard_never_fails_open_witness:
  "canActivate demo_verifier (Roles [''customer'', ''admin''] undecorated) undecorated
     (demo_request (Some ''Bearer good'')) empty_ctx = (Inr True, empty_ctx\<lparr>req_principal := Some demo_principal\<rparr>)
   \<and> (\<exists>t p. presented_token (demo_request (Some ''Bearer good'')) = Some t \<and> demo_verifier t = Inr p)"
proof -
  let ?h = "Roles [''customer'', ''admin''] undecorated"
  have prot: "override_meta (public_meta ?h) (public_meta undecorated) \<noteq> Some True"
    by (simp add: override_meta_def Roles_def undecorated_def)
  have run: "canActivate demo_verifier ?h undecorated (demo_request (Some ''Bearer good'')) empty_ctx
      = (Inr True, empty_ctx\<lparr>req_principal := Some demo_principal\<rparr>)"
    using canActivate_verified [where v = demo_verifier, OF prot demo_tokens(1) demo_verifier_good, of empty_ctx]
    by (simp add: check_roles_def override_meta_def Roles_def undecorated_def demo_principal_def return_io_def)
  show ?thesis using guard_never_fails_open [OF prot run] run by auto
qed

text \<open>Every rejection of a token looks the same to the client. Whatever is wrong with the token (or
  that there is none), the guard throws the same 401 with the same message and adds the same
  response header; the reason goes to the log and the counter only.\<close>

lemma guard_rejections_uniform:
  assumes "canActivate v h c req w = (Inl e, w1)" "e = http_exception 401 m"
    and "canActivate v' h' c' req' w = (Inl e', w2)" "e' = http_exception 401 m'"
  shows "e = e' \<and> res_headers w1 = res_headers w2
    \<and> map_of (res_headers w1) ''www-authenticate'' = Some ''Bearer''"
proof -
  have gen: "e = http_exception 401 ''Invalid or missing token''
      \<and> res_headers w1 = obj_set ''www-authenticate'' ''Bearer'' (res_headers w)"
    if "canActivate v h c req w = (Inl e, w1)" "e = http_exception 401 m" for v h c req e w1 m
  proof (cases "presented_token req")
    case None
    with that show ?thesis
      by (auto simp: canActivate_unfold unauthorized_outcome return_io_def split: if_splits)
  next
    case (Some t)
    show ?thesis
    proof (cases "v t")
      case (Inr p)
      with that Some show ?thesis
        by (auto simp: canActivate_unfold check_roles_def guard_defs split: if_splits option.splits)
    next
      case (Inl err)
      with that Some show ?thesis
        by (cases "(''i'', err)" rule: reject_unverified.cases)
          (auto simp: canActivate_unfold unauthorized_outcome io_defs guard_defs split: if_splits)
    qed
  qed
  from gen [OF assms(1,2)] gen [OF assms(3,4)] show ?thesis by simp
qed

lemma guard_rejections_uniform_demo:
  "fst (canActivate demo_verifier undecorated undecorated (demo_request None) empty_ctx)
     = fst (canActivate demo_verifier undecorated undecorated (demo_request (Some ''bearer bad'')) empty_ctx)"
proof -
  let ?run = "\<lambda>a. canActivate demo_verifier undecorated undecorated (demo_request a) empty_ctx"
  let ?e = "http_exception 401 ''Invalid or missing token''"
  have none: "?run None = (Inl ?e, snd (?run None))"
    by (simp add: canActivate_def demo_request_def bearer_token_def toLowerCase_def unauthorized_outcome
        override_meta_def undecorated_def)
  have bad: "?run (Some ''bearer bad'') = (Inl ?e, snd (?run (Some ''bearer bad'')))"
    by (simp add: canActivate_unfold demo_tokens demo_verifier_def token_invalid_def error_of_def
        unauthorized_outcome override_meta_def undecorated_def)
  show ?thesis
    using guard_rejections_uniform [OF none refl bad refl] none bad by (metis fst_conv)
qed

text \<open>C28: tokens are never logged. Two requests that differ only in the token they present, and on which
  the verifier gives the same verdict, leave the same log lines, the same counters, the same
  response headers and the same outcome: nothing the guard writes depends on the token itself.\<close>

theorem guard_does_not_leak_token:
  assumes "presented_token (req\<lparr>authorization := a\<rparr>) = Some t"
    and "presented_token (req\<lparr>authorization := a'\<rparr>) = Some t'"
    and "v t = v t'"
  shows "canActivate v h c (req\<lparr>authorization := a\<rparr>) w = canActivate v h c (req\<lparr>authorization := a'\<rparr>) w"
proof -
  have "request_id_of (req\<lparr>authorization := a\<rparr>) = request_id_of (req\<lparr>authorization := a'\<rparr>)"
    by (simp add: request_id_of_def split: option.split)
  moreover have "check_roles i (req\<lparr>authorization := a\<rparr>) rs p w = check_roles i (req\<lparr>authorization := a'\<rparr>) rs p w"
    for i rs p and w :: "'a http_ctx_scheme"
    by (simp add: check_roles_def split: option.split)
  ultimately show ?thesis
    using assms by (cases "v t'") (simp_all add: canActivate_unfold io_defs)
qed

theorem guard_does_not_leak_token_witness:
  "canActivate demo_verifier undecorated undecorated (demo_request (Some ''bearer bad'')) empty_ctx
     = canActivate demo_verifier undecorated undecorated (demo_request (Some ''Bearer worse'')) empty_ctx"
proof -
  have upd: "demo_request h = (demo_request None)\<lparr>authorization := h\<rparr>" for h
    by (simp add: demo_request_def)
  have verdict: "demo_verifier ''bad'' = demo_verifier ''worse''"
    by (simp add: demo_verifier_def)
  show ?thesis
    unfolding upd [of "Some _"]
    by (rule guard_does_not_leak_token [OF _ _ verdict]) (simp_all only: upd [symmetric] demo_tokens)
qed

section \<open>Ownership\<close>

lemma assertSelfOrAdmin_outcome:
  "fst (assertSelfOrAdmin p u w) =
     (if isAdmin p \<or> sub p = toLowerCase u then Inr () else Inl (http_exception 403 ''Forbidden''))"
  by (simp add: assertSelfOrAdmin_def refuse_owner_def recordAuthRejection_def obs_defs io_defs)

lemma ownerOrNotFound_outcome:
  "fst (ownerOrNotFound p u m w) =
     (if isAdmin p \<or> sub p = toLowerCase u then Inr () else Inl (http_exception 404 m))"
  by (simp add: ownerOrNotFound_def refuse_owner_def recordAuthRejection_def obs_defs io_defs)

lemma owner_checks_pass:
  assumes "isAdmin p \<or> sub p = toLowerCase u"
  shows "assertSelfOrAdmin p u = return_io ()" "ownerOrNotFound p u m = return_io ()"
  using assms by (simp_all add: assertSelfOrAdmin_def ownerOrNotFound_def)

end
