(* ===== verification/Orders_Service.thy ===== *)
theory Orders_Service
  imports User_Directory Orders_Store Auth_Guard
begin

text \<open>
  \<open>order-service/src/orders/orders.service.ts\<close>, \<open>orders.controller.ts\<close> and \<open>create-order.dto.ts\<close> for one
  request at a time. The database runs the statements of \<open>Orders_Store\<close> unless the environment lets
  one fail; the user lookup is \<open>user_exists\<close>; the event publisher is the outcome of the publish calls
  made so far (\<open>Event_Publisher\<close> looks inside). Requests that run concurrently are in
  \<open>Orders_Concurrency\<close>.
\<close>

section \<open>Environment and state\<close>

text \<open>What the database server decides: which statement fails for reasons of its own (a lost
  connection), which commit takes effect although its answer is lost, and the values of
  \<open>gen_random_uuid()\<close> and \<open>now()\<close>, all by the number of the statement.\<close>

record db_env =
  db_fail :: "nat \<Rightarrow> thrown option"
  db_commit_lost :: "nat \<Rightarrow> string option"
  db_uuid :: "nat \<Rightarrow> string"
  db_now :: "nat \<Rightarrow> string"

record order_data =
  data_orderId :: string
  data_userId :: string
  data_amount :: rat
  data_description :: string

record domain_event =
  eventId :: string
  event_type :: string
  occurredAt :: string
  event_correlationId :: string
  event_data :: order_data

type_synonym publish_call = "string \<times> domain_event"

record order_env =
  oe_db :: db_env
  oe_redis :: redis
  oe_net :: fetch_env
  oe_cfg :: directory_config
  oe_publish :: "publish_call list \<Rightarrow> thrown + unit"
  oe_randomUUID :: "nat \<Rightarrow> string"
  oe_toISOString :: "nat \<Rightarrow> string"

record order_world = dir_world +
  tables :: order_tables
  stmts :: nat
  publishes :: "publish_call list"

section \<open>Statements\<close>

definition connection_lost :: "string \<Rightarrow> thrown" where
  "connection_lost m = Thrown QueryFailedError None None (Some m) (Some (error_of PlainError m)) None"

definition db_query :: "db_env \<Rightarrow> (order_tables \<Rightarrow> thrown + 'a) \<Rightarrow> ('z order_world_scheme, 'a) io" where
  "db_query db q = (\<lambda>w.
     (case db_fail db (stmts w) of Some e \<Rightarrow> Inl e | None \<Rightarrow> q (tables w),
      w\<lparr>stmts := Suc (stmts w)\<rparr>))"

definition keys_findOneBy :: "db_env \<Rightarrow> string \<Rightarrow> ('z order_world_scheme, key_row option) io" where
  "keys_findOneBy db key = db_query db (\<lambda>t. Inr (find_key key t))"

definition orders_findOneBy :: "db_env \<Rightarrow> string \<Rightarrow> ('z order_world_scheme, order_row option) io" where
  "orders_findOneBy db i = db_query db (find_order i)"

definition transaction ::
  "db_env \<Rightarrow> create_order_dto \<Rightarrow> string option \<Rightarrow> ('z order_world_scheme, order_row) io" where
  "transaction db dto key = (\<lambda>w.
     let n = stmts w; w' = w\<lparr>stmts := Suc n\<rparr> in
     case db_fail db n of
       Some e \<Rightarrow> (Inl e, w')
     | None \<Rightarrow>
         (case order_tx (db_uuid db n) (db_now db n) dto key (tables w) of
            Inl e \<Rightarrow> (Inl e, w')
          | Inr (saved, t) \<Rightarrow>
              (case db_commit_lost db n of Some m \<Rightarrow> Inl (connection_lost m) | None \<Rightarrow> Inr saved, w'\<lparr>tables := t\<rparr>)))"

definition events_publish :: "order_env \<Rightarrow> string \<Rightarrow> domain_event \<Rightarrow> ('z order_world_scheme, unit) io" where
  "events_publish env routingKey ev = (\<lambda>w.
     (oe_publish env (publishes w @ [(routingKey, ev)]), w\<lparr>publishes := publishes w @ [(routingKey, ev)]\<rparr>))"

section \<open>OrdersService\<close>

definition replay :: "order_row \<Rightarrow> create_order_dto \<Rightarrow> thrown + order_row \<times> bool" where
  "replay existing dto =
     (if ord_userId existing \<noteq> dto_userId dto then Inl (http_exception 409 ''Idempotency-Key was already used'')
      else Inr (existing, False))"

definition findByKey :: "db_env \<Rightarrow> string \<Rightarrow> ('z order_world_scheme, order_row option) io" where
  "findByKey db key =
     bind_io (keys_findOneBy db key) (\<lambda>rec.
       case rec of Some r \<Rightarrow> orders_findOneBy db (idem_orderId r) | None \<Rightarrow> return_io None)"

definition created_event :: "order_env \<Rightarrow> order_row \<Rightarrow> string \<Rightarrow> nat \<Rightarrow> domain_event" where
  "created_event env order correlationId n =
     \<lparr>eventId = oe_randomUUID env n, event_type = ''order.created'', occurredAt = oe_toISOString env n,
      event_correlationId = correlationId,
      event_data = \<lparr>data_orderId = ord_id order, data_userId = ord_userId order, data_amount = ord_amount order,
        data_description = ord_description order\<rparr>\<rparr>"

definition publishCreated :: "order_env \<Rightarrow> order_row \<Rightarrow> string \<Rightarrow> ('z order_world_scheme, unit) io" where
  "publishCreated env order correlationId =
     catch_io
       (bind_io (gets_io (\<lambda>w. length (publishes w))) (\<lambda>n.
          events_publish env ''order.created'' (created_event env order correlationId n)))
       (\<lambda>err. seq_io (count_io ''order.events.publish.failures'' [])
          (log_io Error (''order.publish_failed orderId='' @ ord_id order @ '' correlationId='' @ correlationId
             @ '' cause='' @ message_of err)))"

text \<open>\<open>if (idempotencyKey)\<close> of the source holds for a key that is present and not empty: \<open>keyed\<close>.\<close>

definition replay_by_key ::
  "db_env \<Rightarrow> create_order_dto \<Rightarrow> string option \<Rightarrow> ('z order_world_scheme, order_row \<times> bool) io
   \<Rightarrow> ('z order_world_scheme, order_row \<times> bool) io" where
  "replay_by_key db dto key otherwise =
     bind_io (findByKey db (the key)) (\<lambda>existing.
       case existing of Some o1 \<Rightarrow> lift_io (replay o1 dto) | None \<Rightarrow> otherwise)"

definition announce :: "order_env \<Rightarrow> order_row \<Rightarrow> string \<Rightarrow> ('z order_world_scheme, order_row \<times> bool) io" where
  "announce env order correlationId =
     seq_io (count_io ''orders.created'' [])
     (seq_io (publishCreated env order correlationId) (return_io (order, True)))"

definition create_fresh ::
  "order_env \<Rightarrow> create_order_dto \<Rightarrow> string option \<Rightarrow> string \<Rightarrow> string option
   \<Rightarrow> ('z order_world_scheme, order_row \<times> bool) io" where
  "create_fresh env dto key correlationId auth =
     bind_io (user_exists (oe_redis env) (oe_net env) (oe_cfg env) (dto_userId dto) correlationId auth) (\<lambda>known.
       if \<not> known then throw_io (http_exception 422 ''User does not exist'')
       else attempt_io (transaction (oe_db env) dto key)
         (\<lambda>order. announce env order correlationId)
         (\<lambda>err.
            if keyed key \<and> isUniqueViolation err then replay_by_key (oe_db env) dto key (throw_io err)
            else throw_io err))"

definition orders_create ::
  "order_env \<Rightarrow> create_order_dto \<Rightarrow> string option \<Rightarrow> string \<Rightarrow> string option
   \<Rightarrow> ('z order_world_scheme, order_row \<times> bool) io" where
  "orders_create env dto key correlationId auth =
     (if keyed key then replay_by_key (oe_db env) dto key (create_fresh env dto key correlationId auth)
      else create_fresh env dto key correlationId auth)"

definition orders_findOne :: "order_env \<Rightarrow> string \<Rightarrow> ('z order_world_scheme, order_row) io" where
  "orders_findOne env i =
     bind_io (orders_findOneBy (oe_db env) i) (\<lambda>found.
       case found of Some o1 \<Rightarrow> return_io o1 | None \<Rightarrow> throw_io (http_exception 404 ''Order not found''))"

section \<open>OrdersController\<close>

text \<open>The response of a handler: its status and body.\<close>

definition orders_post ::
  "order_env \<Rightarrow> create_order_dto \<Rightarrow> string option \<Rightarrow> string option \<Rightarrow> principal \<Rightarrow> string
   \<Rightarrow> ('z order_world_scheme, nat \<times> order_row) io" where
  "orders_post env dto idempotencyKey auth p requestId =
     seq_io (assertSelfOrAdmin p (dto_userId dto))
       (if idempotencyKey \<noteq> None \<and> (the idempotencyKey = [] \<or> 200 < js_length (the idempotencyKey))
        then throw_io (http_exception 400 ''Idempotency-Key must be 1-200 characters'')
        else bind_io (orders_create env dto idempotencyKey requestId auth) (\<lambda>(order, created).
          return_io (if created then 201 else 200, order)))"

text \<open>The framework's \<open>ParseUUIDPipe\<close> is the parameter \<open>pipe\<close>.\<close>

definition orders_get ::
  "order_env \<Rightarrow> (string \<Rightarrow> thrown + string) \<Rightarrow> string \<Rightarrow> principal \<Rightarrow> ('z order_world_scheme, order_row) io" where
  "orders_get env pipe rawId p =
     bind_io (lift_io (pipe rawId)) (\<lambda>i.
       bind_io (orders_findOne env i) (\<lambda>order.
         seq_io (ownerOrNotFound p (ord_userId order) ''Order not found'') (return_io order)))"

text \<open>The decorators of \<open>OrdersController\<close>.\<close>

definition orders_controller_roles :: decorators where
  "orders_controller_roles = Roles [''customer'', ''admin''] undecorated"

section \<open>Frames\<close>

text \<open>A user lookup touches neither the tables nor the publisher.\<close>

definition store_only :: "('z order_world_scheme \<Rightarrow> bool) \<Rightarrow> bool" where
  "store_only I \<longleftrightarrow> (\<forall>w w'. tables w' = tables w \<longrightarrow> stmts w' = stmts w \<longrightarrow> publishes w' = publishes w \<longrightarrow> I w \<longrightarrow> I w')"

lemma store_onlyD:
  "store_only I \<Longrightarrow> tables w' = tables w \<Longrightarrow> stmts w' = stmts w \<Longrightarrow> publishes w' = publishes w \<Longrightarrow> I w \<Longrightarrow> I w'"
  unfolding store_only_def by blast

lemma store_only_frame:
  fixes I :: "'z order_world_scheme \<Rightarrow> bool"
  assumes "store_only I"
  shows "preserves I (log_io l m)" "preserves I (count_io n a)" "preserves I (redis_call redis c)"
    "preserves I (fetch_call net req)"
  by (auto simp: preserves_def log_io_def count_io_def modify_io_def redis_call_def fetch_call_def
      intro: store_onlyD [OF assms])

lemma fetch_loop_preserves:
  assumes "\<And>req. preserves I (fetch_call net req)"
  shows "preserves I (fetch_loop net req n cause)"
  by (induction n arbitrary: cause) (auto intro!: assms preserves_rules split: sum.split)

lemma user_exists_preserves:
  "store_only I \<Longrightarrow> preserves I (user_exists redis net cfg u i a)"
  unfolding user_exists_def cache_get_def cache_set_def count_cache_def count_lookup_def fetchExists_def
  by (auto intro!: store_only_frame fetch_loop_preserves preserves_rules split: sum.split)

lemma user_exists_frame:
  fixes w :: "'z order_world_scheme"
  shows "tables (snd (user_exists redis net cfg u i a w)) = tables w
       \<and> stmts (snd (user_exists redis net cfg u i a w)) = stmts w
       \<and> publishes (snd (user_exists redis net cfg u i a w)) = publishes w"
proof -
  have "preserves (\<lambda>w'. tables w' = tables w \<and> stmts w' = stmts w \<and> publishes w' = publishes w)
          (user_exists redis net cfg u i a)"
    by (rule user_exists_preserves) (simp add: store_only_def)
  then show ?thesis unfolding preserves_def by blast
qed

section \<open>What a create does\<close>

text \<open>The abstract specification of \<open>OrdersService.create\<close>, over the tables before and after, the outcome and
  the orders announced. \<open>known\<close> says that the user lookup answered yes; \<open>ids\<close> are the ids the server may generate.\<close>

definition bound_order :: "string \<Rightarrow> order_tables \<Rightarrow> order_row \<Rightarrow> bool" where
  "bound_order k t r \<longleftrightarrow> (\<exists>kr. find_key k t = Some kr \<and> find_order (idem_orderId kr) t = Inr (Some r))"

inductive create_spec ::
  "bool \<Rightarrow> string set \<Rightarrow> create_order_dto \<Rightarrow> string option \<Rightarrow> order_tables \<Rightarrow> thrown + order_row \<times> bool
   \<Rightarrow> order_tables \<Rightarrow> order_row list \<Rightarrow> bool" for known ids dto key t where
  refused: "create_spec known ids dto key t (Inl e) t []"
| replayed: "keyed key \<Longrightarrow> bound_order (the key) t r \<Longrightarrow> ord_userId r = dto_userId dto \<Longrightarrow>
    create_spec known ids dto key t (Inr (r, False)) t []"
| created: "known \<Longrightarrow> i \<in> ids \<Longrightarrow> order_tx i now dto key t = Inr (saved, t') \<Longrightarrow>
    create_spec known ids dto key t (Inr (saved, True)) t' [saved]"
| lost: "known \<Longrightarrow> i \<in> ids \<Longrightarrow> order_tx i now dto key t = Inr (saved, t') \<Longrightarrow>
    create_spec known ids dto key t (Inl e) t' []"

inductive_cases create_specE: "create_spec known ids dto key t res t' evs"

definition same_store :: "'z order_world_scheme \<Rightarrow> 'z order_world_scheme \<Rightarrow> bool" where
  "same_store w w' \<longleftrightarrow> tables w' = tables w \<and> publishes w' = publishes w"

definition same_calls :: "'z order_world_scheme \<Rightarrow> 'z order_world_scheme \<Rightarrow> bool" where
  "same_calls w w' \<longleftrightarrow> cache_calls w' = cache_calls w \<and> fetches w' = fetches w"

lemma findByKey_cases:
  obtains (fails) e w' where "findByKey db k w = (Inl e, w')" "same_store w w'"
  | (missing) w' where "findByKey db k w = (Inr None, w')" "same_store w w'" "same_calls w w'"
  | (found) r w' where "findByKey db k w = (Inr (Some r), w')" "same_store w w'" "bound_order k (tables w) r"
proof -
  obtain r w' where run: "findByKey db k w = (r, w')" by fastforce
  then have same: "same_store w w'" "same_calls w w'"
    by (auto simp: findByKey_def keys_findOneBy_def orders_findOneBy_def db_query_def io_defs same_store_def same_calls_def
        split: option.splits)
  have bound: "bound_order k (tables w) x" if "r = Inr (Some x)" for x
    using run that
    by (auto simp: findByKey_def keys_findOneBy_def orders_findOneBy_def db_query_def io_defs bound_order_def
        split: option.splits)
  show thesis
  proof (cases r)
    case (Inl e)
    with run same show thesis by (intro fails) auto
  next
    case (Inr v)
    with run same bound missing found show thesis by (cases v) auto
  qed
qed

lemma publishCreated_run:
  "\<exists>w'. publishCreated env order c w = (Inr (), w') \<and> tables w' = tables w \<and> stmts w' = stmts w
     \<and> publishes w' = publishes w @ [(''order.created'', created_event env order c (length (publishes w)))]"
  by (simp add: publishCreated_def events_publish_def obs_defs io_defs split: sum.split)

lemma announce_run:
  "\<exists>w'. announce env order c w = (Inr (order, True), w') \<and> tables w' = tables w \<and> stmts w' = stmts w
     \<and> publishes w' = publishes w @ [(''order.created'', created_event env order c (length (publishes w)))]"
  using publishCreated_run [of env order c "w\<lparr>counters := counters w @ [(''orders.created'', [])]\<rparr>"]
  by (auto simp: announce_def seq_io_def bind_io_def return_io_def count_io_def modify_io_def)

lemma transaction_cases:
  obtains (fails) e w' where "transaction db dto key w = (Inl e, w')" "same_store w w'"
  | (lost) i now saved t m w' where "transaction db dto key w = (Inl (connection_lost m), w')"
      "order_tx i now dto key (tables w) = Inr (saved, t)" "tables w' = t" "publishes w' = publishes w"
      "i \<in> range (db_uuid db)"
  | (committed) i now saved t w' where "transaction db dto key w = (Inr saved, w')"
      "order_tx i now dto key (tables w) = Inr (saved, t)" "tables w' = t" "publishes w' = publishes w"
      "i \<in> range (db_uuid db)"
proof -
  show thesis
    using that
    by (cases "order_tx (db_uuid db (stmts w)) (db_now db (stmts w)) dto key (tables w)")
      (force simp: transaction_def Let_def same_store_def split: option.splits)+
qed

lemma not_unique_connection_lost [simp]: "\<not> isUniqueViolation (connection_lost m)"
  by (simp add: connection_lost_def error_of_def)

text \<open>The orders announced, as publish calls.\<close>

definition announcements ::
  "order_env \<Rightarrow> string \<Rightarrow> nat \<Rightarrow> order_row list \<Rightarrow> publish_call list" where
  "announcements env c n os = map (\<lambda>ord. (''order.created'', created_event env ord c n)) os"

definition create_outcome ::
  "bool \<Rightarrow> order_env \<Rightarrow> create_order_dto \<Rightarrow> string option \<Rightarrow> string \<Rightarrow> 'z order_world_scheme
   \<Rightarrow> (thrown + order_row \<times> bool) \<times> 'z order_world_scheme \<Rightarrow> bool" where
  "create_outcome known env dto key c w out \<longleftrightarrow>
     (\<exists>evs. create_spec known (range (db_uuid (oe_db env))) dto key (tables w) (fst out) (tables (snd out)) evs
        \<and> publishes (snd out) = publishes w @ announcements env c (length (publishes w)) evs)"

lemma outcome_refused: "same_store w w' \<Longrightarrow> create_outcome known env dto key c w (Inl e, w')"
  by (auto simp: create_outcome_def same_store_def announcements_def intro!: exI [of _ "[]"] create_spec.refused)

lemma outcome_replay:
  assumes "keyed key" "bound_order (the key) (tables w) r" "same_store w w'"
  shows "create_outcome known env dto key c w (lift_io (replay r dto) w')"
proof (cases "ord_userId r = dto_userId dto")
  case True
  with assms have "create_spec known (range (db_uuid (oe_db env))) dto key (tables w) (Inr (r, False)) (tables w') []"
    by (auto simp: same_store_def intro: create_spec.replayed)
  with True assms(3) show ?thesis
    by (auto simp: create_outcome_def same_store_def announcements_def lift_io_def replay_def
        intro!: exI [of _ "[]"])
qed (use assms in \<open>simp add: replay_def lift_io_def outcome_refused\<close>)

lemma outcome_replay_by_key:
  assumes "keyed key"
    and other: "\<And>w'. same_store w w' \<Longrightarrow> same_calls w w' \<Longrightarrow> create_outcome known env dto key c w (m w')"
  shows "create_outcome known env dto key c w (replay_by_key db dto key m w)"
proof (cases rule: findByKey_cases [of db "the key" w])
  case (fails e w')
  then show ?thesis by (simp add: replay_by_key_def bind_io_def outcome_refused)
next
  case (missing w')
  then show ?thesis by (simp add: replay_by_key_def bind_io_def other)
next
  case (found r w')
  then show ?thesis using outcome_replay [OF assms(1)] by (simp add: replay_by_key_def bind_io_def)
qed

lemma outcome_transaction:
  assumes known and same: "same_store w0 w"
  shows "create_outcome known env dto key c w0
     (attempt_io (transaction (oe_db env) dto key)
         (\<lambda>order. announce env order c)
         (\<lambda>err.
            if keyed key \<and> isUniqueViolation err then replay_by_key (oe_db env) dto key (throw_io err)
            else throw_io err) w)"
proof (cases rule: transaction_cases [of "oe_db env" dto key w])
  case (fails e w')
  then have st: "same_store w0 w'" using same by (simp add: same_store_def)
  show ?thesis
  proof (cases "keyed key \<and> isUniqueViolation e")
    case True
    have "create_outcome known env dto key c w' (replay_by_key (oe_db env) dto key (throw_io e) w')"
      using True by (intro outcome_replay_by_key) (auto simp: throw_io_def outcome_refused)
    then have "create_outcome known env dto key c w0 (replay_by_key (oe_db env) dto key (throw_io e) w')"
      using st by (simp add: create_outcome_def same_store_def)
    with fails True show ?thesis by (simp add: attempt_io_def)
  qed (use fails st in \<open>auto simp: attempt_io_def throw_io_def outcome_refused\<close>)
next
  case (lost i now saved t m w')
  have "create_spec known (range (db_uuid (oe_db env))) dto key (tables w0) (Inl (connection_lost m)) t []"
    using lost(2,5) assms by (auto simp: same_store_def intro: create_spec.lost)
  with lost same show ?thesis
    by (auto simp: attempt_io_def throw_io_def create_outcome_def same_store_def announcements_def
        intro!: exI [of _ "[]"])
next
  case (committed i now saved t w')
  obtain w3 where w3: "announce env saved c w' = (Inr (saved, True), w3)" "tables w3 = t"
    "publishes w3 = publishes w0 @ announcements env c (length (publishes w0)) [saved]"
    using announce_run [of env saved c w'] committed same by (auto simp: same_store_def announcements_def)
  have "create_spec known (range (db_uuid (oe_db env))) dto key (tables w0) (Inr (saved, True)) t [saved]"
    using committed(2,5) assms by (auto simp: same_store_def intro: create_spec.created)
  with committed w3 show ?thesis
    by (auto simp: attempt_io_def create_outcome_def intro!: exI [of _ "[saved]"])
qed

lemma create_refines:
  "create_outcome (fst (user_exists (oe_redis env) (oe_net env) (oe_cfg env) (dto_userId dto) c a w) = Inr True)
     env dto key c w (orders_create env dto key c a w)"
proof -
  let ?lookup = "user_exists (oe_redis env) (oe_net env) (oe_cfg env) (dto_userId dto) c a"
  let ?known = "fst (?lookup w) = Inr True"
  have fresh: "create_outcome ?known env dto key c w (create_fresh env dto key c a w1)"
    if same: "same_store w w1" "same_calls w w1" for w1
  proof -
    have eq: "fst (?lookup w1) = fst (?lookup w)"
      using same by (auto simp: user_exists_answer cached_def same_calls_def)
    have st: "same_store w (snd (?lookup w1))"
      using same(1) user_exists_frame [of "oe_redis env" "oe_net env" "oe_cfg env" "dto_userId dto" c a w1]
      by (simp add: same_store_def)
    show ?thesis
    proof (cases "?lookup w1")
      case (Pair r w2)
      then consider e where "r = Inl e" | "r = Inr False" | "r = Inr True" by (cases r) auto
      then show ?thesis
      proof cases
        case 3
        with Pair eq have ?known by simp
        from outcome_transaction [OF this] 3 Pair st show ?thesis
          by (simp add: create_fresh_def bind_io_def)
      qed (use Pair st in \<open>simp_all add: create_fresh_def bind_io_def throw_io_def outcome_refused\<close>)
    qed
  qed
  show ?thesis
  proof (cases "keyed key")
    case True
    then show ?thesis
      using outcome_replay_by_key [OF True fresh, where db = "oe_db env"]
      by (simp add: orders_create_def)
  next
    case False
    then show ?thesis
      using fresh [of w]
      by (simp add: orders_create_def same_store_def same_calls_def)
  qed
qed

text \<open>C7: \<open>OrdersService.create\<close> meets its specification, whatever the user lookup, the database and the
  publisher do. It refuses and changes nothing; or it replays the order the key is bound to, which is
  the requester's; or it stores one order (with its key) for a user the lookup knows and announces
  exactly that order once; or the order is stored and the answer of the commit is lost, and then
  nothing is announced.\<close>

theorem create_meets_spec:
  "\<exists>evs. create_spec
       (fst (user_exists (oe_redis env) (oe_net env) (oe_cfg env) (dto_userId dto) c a w) = Inr True)
       (range (db_uuid (oe_db env))) dto key
       (tables w) (fst (orders_create env dto key c a w)) (tables (snd (orders_create env dto key c a w))) evs
     \<and> publishes (snd (orders_create env dto key c a w)) =
         publishes w @ map (\<lambda>ord. (''order.created'', created_event env ord c (length (publishes w)))) evs"
  using create_refines [of env dto c a w key] by (simp add: create_outcome_def announcements_def)

section \<open>Invariants and idempotency\<close>

text \<open>Tables only grow: what a lookup found it finds again.\<close>

definition extends :: "order_tables \<Rightarrow> order_tables \<Rightarrow> bool" where
  "extends t t' \<longleftrightarrow>
     (\<forall>k kr. find_key k t = Some kr \<longrightarrow> find_key k t' = Some kr)
     \<and> (\<forall>j r. find_order j t = Inr (Some r) \<longrightarrow> find_order j t' = Inr (Some r))"

lemma extends_refl [simp]: "extends t t"
  by (simp add: extends_def)

lemma extends_trans [trans]: "extends t t' \<Longrightarrow> extends t' t'' \<Longrightarrow> extends t t''"
  by (simp add: extends_def)

definition canonical_ids :: "db_env \<Rightarrow> bool" where
  "canonical_ids db \<longleftrightarrow> (\<forall>n. canonical_uuid (db_uuid db n))"

lemma order_tx_extends:
  assumes "db_ok t" "canonical_uuid i" "order_tx i now dto key t = Inr (saved, t')"
  shows "db_ok t' \<and> extends t t'"
  using pg_orders.tx_inv [OF assms] pg_orders.tx_keeps_keys [OF assms(3)] pg_orders.tx_keeps_orders [OF assms(1,3)]
  by (simp add: extends_def)

lemma create_spec_tables:
  assumes "create_spec known ids dto key t res t' evs" "db_ok t" "\<forall>i\<in>ids. canonical_uuid i"
  shows "db_ok t' \<and> extends t t'"
  using assms by (cases rule: create_spec.cases) (auto dest: order_tx_extends)

lemma create_tables:
  assumes "db_ok (tables w)" "canonical_ids (oe_db env)"
  shows "db_ok (tables (snd (orders_create env dto key c a w)))
       \<and> extends (tables w) (tables (snd (orders_create env dto key c a w)))"
  using create_refines [of env dto c a w key] create_spec_tables assms
  unfolding create_outcome_def canonical_ids_def by blast

lemma create_bound:
  assumes "keyed key" "find_key (the key) (tables w) = Some kr"
    and "find_order (idem_orderId kr) (tables w) = Inr (Some r)"
    and "db_fail (oe_db env) (stmts w) = None" "db_fail (oe_db env) (Suc (stmts w)) = None"
  shows "orders_create env dto key c a w = (replay r dto, w\<lparr>stmts := Suc (Suc (stmts w))\<rparr>)"
  using assms
  by (simp add: orders_create_def replay_by_key_def findByKey_def keys_findOneBy_def orders_findOneBy_def
      db_query_def io_defs)

lemma pg_numeric_exact:
  assumes "x * 100 \<in> \<int>" "0 < x"
  shows "pg_numeric_12_2 x = x"
proof -
  from assms(1) obtain n where n: "x * 100 = of_int n" by (auto elim: Ints_cases)
  have "\<lfloor>\<bar>x\<bar> * 100 + 1 / 2\<rfloor> = n" using n assms(2) by (simp add: floor_eq_iff)
  moreover have "of_int n / 100 = x" using n by simp
  ultimately show ?thesis using assms(2) by (simp add: pg_numeric_12_2_def)
qed

text \<open>The row a transaction leaves, as a lookup returns it: the saved order, with the two columns the database spells its own way.\<close>

definition as_stored :: "create_order_dto \<Rightarrow> order_row \<Rightarrow> order_row" where
  "as_stored dto saved = saved\<lparr>ord_userId := toLowerCase (dto_userId dto), ord_amount := pg_numeric_12_2 (dto_amount dto)\<rparr>"

lemma order_tx_row:
  assumes "order_tx i now dto key t = Inr (saved, t')" "canonical_uuid i"
  shows "find_order i t' = Inr (Some (as_stored dto saved)) \<and> ord_amount saved = dto_amount dto"
proof -
  from assms(1) obtain t1 where ins: "insert_order i now dto t = Inr (saved, t1)" and t1: "orders_tbl t' = orders_tbl t1"
    by (auto simp: order_tx_def insert_key_def split: sum.splits if_splits)
  have "orders_tbl t' = orders_tbl t @ [as_stored dto saved]" "ord_id (as_stored dto saved) = i" "i \<notin> ord_id ` set (orders_tbl t)"
    "ord_amount saved = dto_amount dto"
    using ins by (auto simp: t1 insert_order_def pg_uuid_def as_stored_def Let_def split: if_splits)
  moreover from this have "find (\<lambda>r. ord_id r = i) (orders_tbl t) = None" by (auto simp: find_None_iff image_iff)
  ultimately show ?thesis using assms(2) by (simp add: find_order_canonical find_append_None)
qed

text \<open>After a keyed create that answered, the key leads to the answered order, under the user it was
  created for.\<close>

lemma create_spec_binds:
  assumes "create_spec known ids dto key t (Inr (ord, b)) t' evs" "db_ok t" "\<forall>i\<in>ids. canonical_uuid i" "keyed key"
  obtains kr r where "find_key (the key) t' = Some kr" "find_order (idem_orderId kr) t' = Inr (Some r)"
    "r = (if b then as_stored dto ord else ord)" "ord_userId r = toLowerCase (dto_userId dto)" "ord_userId ord = dto_userId dto"
    "b \<Longrightarrow> ord_amount ord = dto_amount dto"
  using assms(1)
proof (cases rule: create_spec.cases)
  case replayed
  then show thesis
    using that assms pg_orders.order_user unfolding bound_order_def canonical_uuid_def by metis
next
  case (created i now)
  have i: "canonical_uuid i" using created assms by blast
  note tx = created(5)
  from pg_orders.tx_key [OF tx assms(4)] obtain kr
    where kr: "find_key (the key) t' = Some kr" "idem_orderId kr = i" by blast
  with order_tx_row [OF tx i] pg_orders.tx_saved [OF tx] show thesis
    by (intro that [of kr "as_stored dto ord"]) (simp_all add: created(1,2) as_stored_def)
qed

text \<open>C18: a retry is idempotent. Take a request with an idempotency key and a user id in the lower-case spelling the database returns, that
  has been answered with an order. A later request with that key for the same user, through any instance and after any number of other requests
  (the tables only grow), whose two lookups by key succeed, is answered with that order and \<open>created: false\<close>, stores nothing and announces
  nothing. The order is the one answered first in every column, with the amount as the database stored it, so the very same when the amount was
  positive and had at most two decimals.\<close>

theorem create_idempotent:
  assumes "db_ok (tables w)" "canonical_ids (oe_db env)" "keyed key"
    and "fst (orders_create env dto key c a w) = Inr (ord, b)"
    and "extends (tables (snd (orders_create env dto key c a w))) (tables w2)"
    and "dto_userId dto2 = dto_userId dto" "toLowerCase (dto_userId dto) = dto_userId dto"
    and "db_fail (oe_db env2) (stmts w2) = None" "db_fail (oe_db env2) (Suc (stmts w2)) = None"
  shows "\<exists>again. fst (orders_create env2 dto2 key c2 a2 w2) = Inr (again, False)
      \<and> ord_id again = ord_id ord \<and> ord_userId again = ord_userId ord
      \<and> again = (if b then ord\<lparr>ord_amount := pg_numeric_12_2 (ord_amount ord)\<rparr> else ord)
      \<and> (0 < dto_amount dto \<and> dto_amount dto * 100 \<in> \<int> \<longrightarrow> again = ord)
      \<and> tables (snd (orders_create env2 dto2 key c2 a2 w2)) = tables w2
      \<and> publishes (snd (orders_create env2 dto2 key c2 a2 w2)) = publishes w2"
proof -
  have ids: "\<forall>i\<in>range (db_uuid (oe_db env)). canonical_uuid i" using assms(2) by (auto simp: canonical_ids_def)
  from create_refines [of env dto c a w key] assms(4) obtain known evs
    where "create_spec known (range (db_uuid (oe_db env))) dto key (tables w) (Inr (ord, b))
      (tables (snd (orders_create env dto key c a w))) evs"
    unfolding create_outcome_def by auto
  from create_spec_binds [OF this assms(1) ids assms(3)] obtain kr r
    where found: "find_key (the key) (tables w2) = Some kr" "find_order (idem_orderId kr) (tables w2) = Inr (Some r)"
      and r: "r = (if b then as_stored dto ord else ord)" "ord_userId r = dto_userId dto" "ord_userId ord = dto_userId dto"
        "b \<Longrightarrow> ord_amount ord = dto_amount dto"
    using assms(5,7) unfolding extends_def by metis
  have "r = (if b then ord\<lparr>ord_amount := pg_numeric_12_2 (ord_amount ord)\<rparr> else ord)"
    using r assms(7) by (auto simp: as_stored_def)
  moreover from this have "r = ord" if "0 < dto_amount dto" "dto_amount dto * 100 \<in> \<int>"
    using that r(4) pg_numeric_exact [OF that(2,1)] by (cases b) simp_all
  ultimately show ?thesis using create_bound [OF assms(3) found assms(8,9)] r assms(6) by (simp add: replay_def)
qed

text \<open>A first order in an empty database, with the cache empty, user-service answering 200 and the broker
  down.\<close>

definition demo_user_id :: string where
  "demo_user_id = ''1b4e28ba-2fa1-41d2-883f-0016d3cca427''"

definition demo_order_id :: string where
  "demo_order_id = ''6fa459ea-ee8a-4ca4-894e-db77e160355e''"

definition demo_db :: db_env where
  "demo_db = \<lparr>db_fail = (\<lambda>_. None), db_commit_lost = (\<lambda>_. None), db_uuid = (\<lambda>_. demo_order_id),
     db_now = (\<lambda>_. ''2024-01-01 00:00:00'')\<rparr>"

definition demo_env :: order_env where
  "demo_env = \<lparr>oe_db = demo_db, oe_redis = (\<lambda>_. Inr None), oe_net = (\<lambda>_. Inr 200),
     oe_cfg = \<lparr>USER_SERVICE_URL = ''http://user-service:3001'', USER_LOOKUP_TIMEOUT_MS = 2000,
       USER_CACHE_TTL_SECONDS = 60\<rparr>,
     oe_publish = (\<lambda>_. Inl (error_of PlainError ''connect ECONNREFUSED'')),
     oe_randomUUID = (\<lambda>_. ''5c146b14-3c52-4afd-938a-375d0df1fbf6''), oe_toISOString = (\<lambda>_. ''2024-01-01T00:00:00.000Z'')\<rparr>"

definition demo_dto :: create_order_dto where
  "demo_dto = \<lparr>dto_userId = demo_user_id, dto_amount = 1999 / 100, dto_description = ''book''\<rparr>"

definition demo_world :: order_world where
  "demo_world = \<lparr>logs = [], counters = [], healthy = True, cache_calls = [], fetches = [],
     tables = no_orders, stmts = 0, publishes = []\<rparr>"

definition demo_order :: order_row where
  "demo_order = \<lparr>ord_id = demo_order_id, ord_userId = demo_user_id, ord_amount = 1999 / 100,
     ord_description = ''book'', ord_status = ''CREATED'', ord_createdAt = ''2024-01-01 00:00:00''\<rparr>"

lemma canonical_demo [simp]: "canonical_uuid demo_order_id" "canonical_uuid demo_user_id"
  by code_simp+

lemma canonical_ids_demo [simp]: "canonical_ids (oe_db demo_env)"
  by (simp add: canonical_ids_def demo_env_def demo_db_def)

lemma demo_create: "fst (orders_create demo_env demo_dto (Some ''k1'') ''r1'' None demo_world) = Inr (demo_order, True)"
  by code_simp

lemma demo_no_fail [simp]: "db_fail (oe_db demo_env) n = None"
  by (simp add: demo_env_def demo_db_def)

lemma demo_world_ok [simp]: "db_ok (tables demo_world)"
  by (simp add: demo_world_def)

theorem create_idempotent_witness:
  "\<exists>again. fst (orders_create demo_env demo_dto (Some ''k1'') ''r2'' None
       (snd (orders_create demo_env demo_dto (Some ''k1'') ''r1'' None demo_world))) = Inr (again, False)
     \<and> ord_id again = ord_id demo_order"
proof -
  have "toLowerCase (dto_userId demo_dto) = dto_userId demo_dto"
    using canonical_demo(2) by (simp add: demo_dto_def canonical_uuid_def)
  from create_idempotent [OF demo_world_ok canonical_ids_demo _ demo_create extends_refl refl this demo_no_fail demo_no_fail]
  show ?thesis by (auto simp: keyed_def)
qed

text \<open>The answer to a create does not depend on the broker: whatever the publisher does, the outcome
  and the stored tables are the same.\<close>

lemma publish_failure_is_invisible:
  "fst (orders_create (env\<lparr>oe_publish := p\<rparr>) dto key c a w) = fst (orders_create env dto key c a w)
   \<and> tables (snd (orders_create (env\<lparr>oe_publish := p\<rparr>) dto key c a w)) = tables (snd (orders_create env dto key c a w))"
proof -
  have run: "fst (announce e ord c w1) = Inr (ord, True) \<and> tables (snd (announce e ord c w1)) = tables w1"
    for e ord and w1 :: "'a order_world_scheme"
    using announce_run [of e ord c w1] by auto
  have fresh: "fst (create_fresh (env\<lparr>oe_publish := p\<rparr>) dto key c a w1) = fst (create_fresh env dto key c a w1)
    \<and> tables (snd (create_fresh (env\<lparr>oe_publish := p\<rparr>) dto key c a w1)) = tables (snd (create_fresh env dto key c a w1))"
    for w1 :: "'a order_world_scheme"
    by (auto simp: create_fresh_def run bind_io_def attempt_io_def
        split: prod.split sum.split)
  show ?thesis
    by (auto simp: orders_create_def fresh replay_by_key_def bind_io_def split: prod.split sum.split option.split)
qed

section \<open>The controller\<close>

lemma owner_check_frame:
  fixes w :: "'z order_world_scheme"
  shows "same_store w (snd (assertSelfOrAdmin p u w))" "same_store w (snd (ownerOrNotFound p u m w))"
  by (simp_all add: assertSelfOrAdmin_def ownerOrNotFound_def refuse_owner_def recordAuthRejection_def obs_defs
      io_defs same_store_def)

text \<open>Who gets what from \<open>POST /v1/orders\<close>. A 200 or 201 carries an order of the user named in the
  request, and that user is the caller unless the caller is an admin, also for a replayed idempotency
  key. 201 means that the order was stored and announced by this request, 200 that nothing was stored
  or announced. A caller who is neither the user nor an admin gets 403 and nothing is stored; a key
  that is empty or longer than 200 is a 400.\<close>

lemma orders_post_outcome:
  "case orders_post env dto key auth p rid w of
     (Inr (status, ord), w') \<Rightarrow>
       ord_userId ord = dto_userId dto
       \<and> (isAdmin p \<or> sub p = toLowerCase (dto_userId dto))
       \<and> (case key of None \<Rightarrow> True | Some k \<Rightarrow> k \<noteq> [] \<and> js_length k \<le> 200)
       \<and> (status = 201 \<and> tables w' \<noteq> tables w
            \<and> publishes w' = publishes w @ [(''order.created'', created_event env ord rid (length (publishes w)))]
          \<or> status = 200 \<and> tables w' = tables w \<and> publishes w' = publishes w)
   | (Inl e, w') \<Rightarrow>
       publishes w' = publishes w
       \<and> (isAdmin p \<or> sub p = toLowerCase (dto_userId dto)
            \<or> e = http_exception 403 ''Forbidden'' \<and> tables w' = tables w)"
proof (cases "isAdmin p \<or> sub p = toLowerCase (dto_userId dto)")
  case False
  then show ?thesis
    using assertSelfOrAdmin_outcome [of p "dto_userId dto" w] owner_check_frame(1) [of w p "dto_userId dto"]
    by (cases "assertSelfOrAdmin p (dto_userId dto) w") (auto simp: orders_post_def seq_io_def bind_io_def same_store_def)
next
  case self: True
  show ?thesis
  proof (cases "key \<noteq> None \<and> (the key = [] \<or> 200 < js_length (the key))")
    case True
    then show ?thesis
      using self by (simp add: orders_post_def owner_checks_pass seq_io_def throw_io_def)
  next
    case False
    then have key: "case key of None \<Rightarrow> True | Some k \<Rightarrow> k \<noteq> [] \<and> js_length k \<le> 200"
      by (cases key) auto
    obtain r w' where run: "orders_create env dto key rid auth w = (r, w')" by fastforce
    obtain known evs where spec: "create_spec known (range (db_uuid (oe_db env))) dto key (tables w) r (tables w') evs"
      and pub: "publishes w' = publishes w @ announcements env rid (length (publishes w)) evs"
      using create_refines [of env dto rid auth w key] run unfolding create_outcome_def by auto
    have post: "orders_post env dto key auth p rid w =
      (case r of Inl e \<Rightarrow> (Inl e, w') | Inr (ord, created) \<Rightarrow> (Inr (if created then 201 else 200, ord), w'))"
      using False self run
      by (auto simp: orders_post_def owner_checks_pass seq_io_def bind_io_def return_io_def split: sum.split)
    from spec show ?thesis
    proof (cases rule: create_spec.cases)
      case (created i now saved)
      then have "tables w' \<noteq> tables w" "ord_userId saved = dto_userId dto"
        by (auto dest!: order_tx_effect simp: tx_effect_def)
      with created post key self pub show ?thesis by (simp add: announcements_def)
    qed (use post key self pub in \<open>auto simp: announcements_def\<close>)
  qed
qed

text \<open>What \<open>GET /v1/orders/:id\<close> answers, on every branch.\<close>

lemma orders_get_answer:
  "fst (orders_get env pipe raw p w) =
     (case pipe raw of
        Inl e \<Rightarrow> Inl e
      | Inr i \<Rightarrow>
          (case db_fail (oe_db env) (stmts w) of
             Some e \<Rightarrow> Inl e
           | None \<Rightarrow>
               (case find_order i (tables w) of
                  Inl e \<Rightarrow> Inl e
                | Inr None \<Rightarrow> Inl (http_exception 404 ''Order not found'')
                | Inr (Some ord) \<Rightarrow>
                    if isAdmin p \<or> sub p = toLowerCase (ord_userId ord) then Inr ord
                    else Inl (http_exception 404 ''Order not found''))))"
proof -
  have chk: "fst (seq_io (ownerOrNotFound p u m) (return_io ord) w1) =
      (if isAdmin p \<or> sub p = toLowerCase u then Inr ord else Inl (http_exception 404 m))"
    for u m and ord :: order_row and w1 :: "'a order_world_scheme"
    using ownerOrNotFound_outcome [of p u m w1]
    by (cases "ownerOrNotFound p u m w1") (auto simp: seq_io_def bind_io_def return_io_def split: if_splits sum.splits)
  show ?thesis
    by (auto simp: orders_get_def orders_findOne_def orders_findOneBy_def db_query_def lift_io_def bind_io_def
        return_io_def throw_io_def chk [unfolded return_io_def] split: sum.split option.split)
qed

text \<open>C31: \<open>GET /v1/orders/:id\<close> tells a customer nothing about other users' orders: if no order with that id
  is the caller's own, the answer is the one an empty database gives.\<close>

theorem get_hides_foreign_orders:
  assumes "\<not> isAdmin p"
    and "\<forall>i. \<forall>r\<in>set (orders_tbl (tables w)).
      pipe raw = Inr i \<longrightarrow> ord_id r = toLowerCase i \<longrightarrow> toLowerCase (ord_userId r) \<noteq> sub p"
  shows "fst (orders_get env pipe raw p w) = fst (orders_get env pipe raw p (w\<lparr>tables := no_orders\<rparr>))"
proof -
  have "sub p \<noteq> toLowerCase (ord_userId ord)" if "pipe raw = Inr i" "find_order i (tables w) = Inr (Some ord)" for i ord
    using find_order_SomeD [OF that(2)] that(1) assms(2) by metis
  then show ?thesis
    using assms(1)
    by (auto simp: orders_get_answer no_orders_def find_order_def pg_uuid_def split: sum.splits option.splits if_splits)
qed

definition demo_stranger :: principal where
  "demo_stranger = \<lparr>sub = ''7d444840-9dc0-11d1-b245-5ffdce74fad2'', roles = [''customer'']\<rparr>"

theorem get_hides_foreign_orders_witness:
  "fst (orders_get demo_env Inr demo_order_id demo_stranger
     (snd (orders_create demo_env demo_dto None ''r1'' None demo_world))) = Inl (http_exception 404 ''Order not found'')"
proof -
  let ?w = "snd (orders_create demo_env demo_dto None ''r1'' None demo_world)"
  have own: "\<forall>r\<in>set (orders_tbl (tables ?w)). toLowerCase (ord_userId r) \<noteq> sub demo_stranger"
    by code_simp
  have adm: "\<not> isAdmin demo_stranger" by code_simp
  have "fst (orders_get demo_env Inr demo_order_id demo_stranger (?w\<lparr>tables := no_orders\<rparr>))
      = Inl (http_exception 404 ''Order not found'')"
    by code_simp
  then show ?thesis
    using get_hides_foreign_orders [OF adm, of ?w Inr demo_order_id demo_env] own by simp
qed

section \<open>Validation and the schema\<close>

text \<open>The validators behind the decorators of \<open>CreateOrderDto\<close> are a library's; \<open>validators\<close> has the ones
  used and \<open>validators_ok\<close> what their documentation says, as far as it matters here.\<close>

record validators =
  isUUID :: "string \<Rightarrow> bool"
  isNumberMaxDecimals :: "nat \<Rightarrow> rat \<Rightarrow> bool"
  isPositive :: "rat \<Rightarrow> bool"
  isMax :: "rat \<Rightarrow> rat \<Rightarrow> bool"
  isNotEmpty :: "string \<Rightarrow> bool"
  isMaxLength :: "nat \<Rightarrow> string \<Rightarrow> bool"

definition validators_ok :: "validators \<Rightarrow> bool" where
  "validators_ok v \<longleftrightarrow>
     (\<forall>s. isUUID v s \<longrightarrow> uuid_test s)
     \<and> (\<forall>d x. isNumberMaxDecimals v d x \<longrightarrow> x * 10 ^ d \<in> \<int>)
     \<and> (\<forall>x. isPositive v x \<longrightarrow> 0 < x) \<and> (\<forall>m x. isMax v m x \<longrightarrow> x \<le> m)"

definition CreateOrderDto_valid :: "validators \<Rightarrow> create_order_dto \<Rightarrow> bool" where
  "CreateOrderDto_valid v dto \<longleftrightarrow>
     isUUID v (dto_userId dto)
     \<and> isNumberMaxDecimals v 2 (dto_amount dto) \<and> isPositive v (dto_amount dto) \<and> isMax v 1000000 (dto_amount dto)
     \<and> isNotEmpty v (dto_description dto) \<and> isMaxLength v 500 (dto_description dto)"

lemma characters_le_js_length: "characters s \<le> js_length s"
  by (induction s) (auto simp: characters_def js_length_def units_of_byte_def)

text \<open>What the DTO accepts the schema accepts. A validated request whose description has no zero byte,
  with a key the controller lets through and no one used, is stored under the generated id, and the
  amount is stored exactly, without rounding.\<close>

lemma validated_orders_are_storable:
  assumes "validators_ok v" "CreateOrderDto_valid v dto" "CHR 0x00 \<notin> set (dto_description dto)"
    and "i \<notin> ord_id ` set (orders_tbl t)"
    and "case key of None \<Rightarrow> True | Some k \<Rightarrow> js_length k \<le> 200 \<and> find_key k t = None"
  shows "\<exists>saved t'. order_tx i now dto key t = Inr (saved, t')
      \<and> (\<exists>row. orders_tbl t' = orders_tbl t @ [row] \<and> ord_id row = i \<and> ord_amount row = dto_amount dto)"
proof -
  have amt: "pg_numeric_12_2 (dto_amount dto) = dto_amount dto" "0 < dto_amount dto" "dto_amount dto \<le> 1000000"
    and u: "uuid_test (dto_userId dto)"
    using assms(1,2) pg_numeric_exact [of "dto_amount dto"]
    by (force simp: validators_ok_def CreateOrderDto_valid_def)+
  have chars: "characters k \<le> 200" if "key = Some k" for k
    using assms(5) that characters_le_js_length [of k] by simp
  show ?thesis
    using amt u assms(3,4,5) chars
    by (cases key) (auto simp: order_tx_def insert_order_def insert_key_def pg_uuid_def Let_def find_key_None)
qed

definition demo_validators :: validators where
  "demo_validators = \<lparr>isUUID = uuid_test, isNumberMaxDecimals = (\<lambda>d x. snd (quotient_of (x * 10 ^ d)) = 1),
     isPositive = (\<lambda>x. 0 < x), isMax = (\<lambda>m x. x \<le> m), isNotEmpty = (\<lambda>s. s \<noteq> []),
     isMaxLength = (\<lambda>n s. characters s \<le> n)\<rparr>"

lemma denominator_one: "snd (quotient_of x) = 1 \<Longrightarrow> x \<in> \<int>"
  by (metis Ints_of_int div_by_1 of_int_1 prod.collapse quotient_of_div)

lemma demo_validators_ok: "validators_ok demo_validators"
  by (auto simp: validators_ok_def demo_validators_def intro: denominator_one)

lemma validated_orders_are_storable_demo:
  "\<exists>saved t'. order_tx demo_order_id ''now'' demo_dto (Some ''k1'') no_orders = Inr (saved, t')"
proof -
  have dto: "CreateOrderDto_valid demo_validators demo_dto" "CHR 0x00 \<notin> set (dto_description demo_dto)"
    by code_simp+
  have key: "case Some ''k1'' of None \<Rightarrow> True | Some k \<Rightarrow> js_length k \<le> 200 \<and> find_key k no_orders = None"
    by code_simp
  show ?thesis
    using validated_orders_are_storable [OF demo_validators_ok dto _ key, of demo_order_id "''now''"]
    by (auto simp: no_orders_def)
qed

section \<open>Spellings of a user id\<close>

text \<open>The idempotent retry depends on the spelling of the user id. A create whose user id is not all
  lower case is stored and answered, but the identical request again is refused as a conflict: the
  stored order reads back with the id in lower case and \<open>replay\<close> compares the spellings.\<close>

lemma uppercase_retry_conflicts:
  assumes "db_ok (tables w)" "canonical_ids (oe_db env)" "keyed key"
    and "fst (orders_create env dto key c a w) = Inr (ord, True)"
    and "toLowerCase (dto_userId dto) \<noteq> dto_userId dto"
    and "extends (tables (snd (orders_create env dto key c a w))) (tables w2)"
    and "db_fail (oe_db env2) (stmts w2) = None" "db_fail (oe_db env2) (Suc (stmts w2)) = None"
  shows "fst (orders_create env2 dto key c2 a2 w2) = Inl (http_exception 409 ''Idempotency-Key was already used'')"
proof -
  have ids: "\<forall>i\<in>range (db_uuid (oe_db env)). canonical_uuid i" using assms(2) by (auto simp: canonical_ids_def)
  from create_refines [of env dto c a w key] assms(4) obtain known evs
    where "create_spec known (range (db_uuid (oe_db env))) dto key (tables w) (Inr (ord, True))
      (tables (snd (orders_create env dto key c a w))) evs"
    unfolding create_outcome_def by auto
  from create_spec_binds [OF this assms(1) ids assms(3)] obtain kr r
    where "find_key (the key) (tables w2) = Some kr" "find_order (idem_orderId kr) (tables w2) = Inr (Some r)"
      and r: "ord_userId r = toLowerCase (dto_userId dto)"
    using assms(6) unfolding extends_def by metis
  from create_bound [OF assms(3) this(1,2) assms(7,8)] r assms(5) show ?thesis by (simp add: replay_def)
qed

definition demo_upper_dto :: create_order_dto where
  "demo_upper_dto = demo_dto\<lparr>dto_userId := ''1B4E28BA-2FA1-41D2-883F-0016D3CCA427''\<rparr>"

lemma uppercase_retry_conflicts_demo:
  "fst (orders_create demo_env demo_upper_dto (Some ''k1'') ''r2'' None
     (snd (orders_create demo_env demo_upper_dto (Some ''k1'') ''r1'' None demo_world)))
   = Inl (http_exception 409 ''Idempotency-Key was already used'')"
proof -
  have run: "fst (orders_create demo_env demo_upper_dto (Some ''k1'') ''r1'' None demo_world)
      = Inr (demo_order\<lparr>ord_userId := dto_userId demo_upper_dto\<rparr>, True)"
    by code_simp
  have spelling: "toLowerCase (dto_userId demo_upper_dto) \<noteq> dto_userId demo_upper_dto"
    by code_simp
  show ?thesis
    by (rule uppercase_retry_conflicts [OF demo_world_ok canonical_ids_demo _ run spelling extends_refl
          demo_no_fail demo_no_fail]) (simp add: keyed_def)
qed

end
