(* ===== verification/Orders_Concurrency.thy ===== *)
theory Orders_Concurrency
  imports Orders_Service
begin

text \<open>
  \<open>OrdersService.create\<close> under concurrency. Requests interleave where the source awaits: a request is a
  little machine (\<open>pc\<close>, \<open>resume\<close>) that stops at every call of the database, the user directory and the
  publisher and goes on with the answer. \<open>drive_equals_create\<close> shows that one machine run to its end is
  \<open>orders_create\<close>. \<open>sys_step\<close> lets any number of machines (of one or several instances of the service)
  run over one store, one answer at a time in any order, with any call failing. The lemmas on the system
  hold for every store with the laws of \<open>order_store\<close>, and the properties are their instances for the
  tables.
\<close>

section \<open>One request\<close>

datatype call =
    AskKey
  | AskOrder string
  | AskUser
  | AskTx
  | AskPublish order_row

datatype answer =
    Failed thrown
  | KeyRow "key_row option"
  | OrderRow "order_row option"
  | UserKnown bool
  | Committed order_row
  | PublishOk

text \<open>Where a request waits: in the first \<open>findByKey\<close>, the user lookup, the transaction, the \<open>findByKey\<close> of
  the catch block (with the error caught), or the publisher; or it has ended.\<close>

datatype pc =
    AtKey
  | AtOrder string
  | AtUser
  | AtTx
  | AtKey2 thrown
  | AtOrder2 thrown string
  | AtPublish order_row
  | Finished "thrown + order_row \<times> bool"

definition start :: "string option \<Rightarrow> pc" where
  "start key = (if keyed key then AtKey else AtUser)"

fun asks :: "pc \<Rightarrow> call option" where
  "asks AtKey = Some AskKey"
| "asks (AtOrder i) = Some (AskOrder i)"
| "asks AtUser = Some AskUser"
| "asks AtTx = Some AskTx"
| "asks (AtKey2 _) = Some AskKey"
| "asks (AtOrder2 _ i) = Some (AskOrder i)"
| "asks (AtPublish ord) = Some (AskPublish ord)"
| "asks (Finished _) = None"

fun resume :: "create_order_dto \<Rightarrow> string option \<Rightarrow> pc \<Rightarrow> answer \<Rightarrow> pc" where
  "resume dto key AtTx (Failed e) =
     (if keyed key \<and> isUniqueViolation e then AtKey2 e else Finished (Inl e))"
| "resume dto key (AtPublish ord) _ = Finished (Inr (ord, True))"
| "resume dto key _ (Failed e) = Finished (Inl e)"
| "resume dto key AtKey (KeyRow None) = AtUser"
| "resume dto key AtKey (KeyRow (Some kr)) = AtOrder (idem_orderId kr)"
| "resume dto key (AtOrder _) (OrderRow None) = AtUser"
| "resume dto key (AtOrder _) (OrderRow (Some r)) = Finished (replay r dto)"
| "resume dto key AtUser (UserKnown known) =
     (if known then AtTx else Finished (Inl (http_exception 422 ''User does not exist'')))"
| "resume dto key AtTx (Committed saved) = AtPublish saved"
| "resume dto key (AtKey2 e) (KeyRow None) = Finished (Inl e)"
| "resume dto key (AtKey2 e) (KeyRow (Some kr)) = AtOrder2 e (idem_orderId kr)"
| "resume dto key (AtOrder2 e _) (OrderRow None) = Finished (Inl e)"
| "resume dto key (AtOrder2 e _) (OrderRow (Some r)) = Finished (replay r dto)"
| "resume dto key p _ = p"

section \<open>A request alone\<close>

text \<open>The answer the environment of \<open>Orders_Service\<close> gives to a call.\<close>

definition answer_with :: "('a \<Rightarrow> answer) \<Rightarrow> ('w, 'a) io \<Rightarrow> 'w \<Rightarrow> answer \<times> 'w" where
  "answer_with f m = (\<lambda>w. case m w of (Inl e, w') \<Rightarrow> (Failed e, w') | (Inr a, w') \<Rightarrow> (f a, w'))"

fun perform ::
  "order_env \<Rightarrow> create_order_dto \<Rightarrow> string option \<Rightarrow> string \<Rightarrow> string option \<Rightarrow> call
   \<Rightarrow> 'z order_world_scheme \<Rightarrow> answer \<times> 'z order_world_scheme" where
  "perform env dto key c a AskKey = answer_with KeyRow (keys_findOneBy (oe_db env) (the key))"
| "perform env dto key c a (AskOrder i) = answer_with OrderRow (orders_findOneBy (oe_db env) i)"
| "perform env dto key c a AskUser =
     answer_with UserKnown (user_exists (oe_redis env) (oe_net env) (oe_cfg env) (dto_userId dto) c a)"
| "perform env dto key c a AskTx = answer_with Committed (transaction (oe_db env) dto key)"
| "perform env dto key c a (AskPublish ord) = answer_with (\<lambda>_. PublishOk) (announce env ord c)"

text \<open>Six calls are the longest way through: key, order, user, transaction, key, order.\<close>

fun drive ::
  "order_env \<Rightarrow> create_order_dto \<Rightarrow> string option \<Rightarrow> string \<Rightarrow> string option \<Rightarrow> nat \<Rightarrow> pc
   \<Rightarrow> 'z order_world_scheme \<Rightarrow> pc \<times> 'z order_world_scheme" where
  "drive env dto key c a 0 p w = (p, w)"
| "drive env dto key c a (Suc n) p w =
     (case asks p of
        None \<Rightarrow> (p, w)
      | Some call \<Rightarrow> (case perform env dto key c a call w of (ans, w') \<Rightarrow> drive env dto key c a n (resume dto key p ans) w'))"

lemma drive_finished [simp]: "drive env dto key c a n (Finished r) w = (Finished r, w)"
  by (cases n) simp_all

lemma drive_publish:
  "drive env dto key c a (Suc n) (AtPublish ord) w = (case announce env ord c w of (r, w') \<Rightarrow> (Finished r, w'))"
  using announce_run [of env ord c w] by (auto simp: answer_with_def)

lemma drive_replay:
  "drive env dto key c a (Suc (Suc n)) (AtKey2 e) w =
     (case replay_by_key (oe_db env) dto key (throw_io e) w of (r, w') \<Rightarrow> (Finished r, w'))"
  by (auto simp: replay_by_key_def findByKey_def answer_with_def bind_io_def throw_io_def lift_io_def return_io_def
      split: prod.splits sum.splits option.splits)

declare drive.simps(2) [simp del]

lemma drive_step:
  "asks p = Some call \<Longrightarrow> drive env dto key c a (Suc n) p w =
     (case perform env dto key c a call w of (ans, w') \<Rightarrow> drive env dto key c a n (resume dto key p ans) w')"
  by (simp add: drive.simps(2))

lemma drive_tx:
  "drive env dto key c a (Suc (Suc (Suc n))) AtTx w =
     (case attempt_io (transaction (oe_db env) dto key)
         (\<lambda>order. announce env order c)
         (\<lambda>err.
            if keyed key \<and> isUniqueViolation err then replay_by_key (oe_db env) dto key (throw_io err)
            else throw_io err) w of (r, w') \<Rightarrow> (Finished r, w'))"
  by (auto simp: drive_step [of AtTx] answer_with_def attempt_io_def drive_publish drive_replay throw_io_def
      split: prod.splits sum.splits)

lemma drive_fresh:
  "drive env dto key c a (Suc (Suc (Suc (Suc n)))) AtUser w =
     (case create_fresh env dto key c a w of (r, w') \<Rightarrow> (Finished r, w'))"
  by (auto simp: drive_step [of AtUser] create_fresh_def answer_with_def bind_io_def drive_tx throw_io_def
      split: prod.splits sum.splits)

lemma drive_first:
  "drive env dto key c a (Suc (Suc (Suc (Suc (Suc (Suc n)))))) AtKey w =
     (case replay_by_key (oe_db env) dto key (create_fresh env dto key c a) w of (r, w') \<Rightarrow> (Finished r, w'))"
  by (auto simp: drive_step [of AtKey] drive_step [of "AtOrder _"] drive_fresh replay_by_key_def findByKey_def
      answer_with_def bind_io_def return_io_def lift_io_def split: prod.splits sum.splits option.splits)

text \<open>A request run alone is \<open>OrdersService.create\<close>: the machine ends after at most six calls, with the
  outcome of \<open>orders_create\<close> and the state it leaves.\<close>

lemma drive_equals_create:
  "drive env dto key c a 6 (start key) w =
     (case orders_create env dto key c a w of (r, w') \<Rightarrow> (Finished r, w'))"
  using drive_fresh [of env dto key c a 2 w] drive_first [of env dto key c a 0 w]
  by (simp add: start_def orders_create_def numeral_eq_Suc split: prod.split)

section \<open>Requests together\<close>

record req_thread =
  th_dto :: create_order_dto
  th_key :: "string option"
  th_pc :: pc

text \<open>The shared store, the requests in flight or ended, and the ids of the orders for which a publish was
  attempted, in order.\<close>

record 's sys =
  sys_store :: 's
  sys_threads :: "req_thread list"
  sys_announced :: "string list"

text \<open>The answers a store gives to a call, with its state afterwards. A statement may fail for reasons of
  its own, and a commit may take effect although its answer is lost; such an error is no unique
  violation. The server generates an id that is not in use.\<close>

inductive answers ::
  "(string \<Rightarrow> 's \<Rightarrow> key_row option) \<Rightarrow> (string \<Rightarrow> 's \<Rightarrow> thrown + order_row option)
   \<Rightarrow> (string \<Rightarrow> string \<Rightarrow> create_order_dto \<Rightarrow> string option \<Rightarrow> 's \<Rightarrow> thrown + order_row \<times> 's)
   \<Rightarrow> create_order_dto \<Rightarrow> string option \<Rightarrow> 's \<Rightarrow> call \<Rightarrow> answer \<Rightarrow> 's \<Rightarrow> string list \<Rightarrow> bool"
  for findKey findOrder tx dto key s where
  fails: "\<not> isUniqueViolation e \<Longrightarrow> \<forall>ord. call \<noteq> AskPublish ord \<Longrightarrow>
    answers findKey findOrder tx dto key s call (Failed e) s []"
| key_row: "answers findKey findOrder tx dto key s AskKey (KeyRow (findKey (the key) s)) s []"
| order_row: "findOrder i s = Inr r \<Longrightarrow> answers findKey findOrder tx dto key s (AskOrder i) (OrderRow r) s []"
| user_known: "answers findKey findOrder tx dto key s AskUser (UserKnown known) s []"
| committed: "canonical_uuid i \<Longrightarrow> tx i now dto key s = Inr (saved, s') \<Longrightarrow>
    answers findKey findOrder tx dto key s AskTx (Committed saved) s' []"
| aborted: "canonical_uuid i \<Longrightarrow> findOrder i s = Inr None \<Longrightarrow> tx i now dto key s = Inl e \<Longrightarrow>
    answers findKey findOrder tx dto key s AskTx (Failed e) s []"
| commit_lost: "canonical_uuid i \<Longrightarrow> tx i now dto key s = Inr (saved, s') \<Longrightarrow>
    answers findKey findOrder tx dto key s AskTx (Failed (connection_lost m)) s' []"
| published: "ans = PublishOk \<or> ans = Failed e \<Longrightarrow>
    answers findKey findOrder tx dto key s (AskPublish ord) ans s [ord_id ord]"

inductive_cases answersE: "answers findKey findOrder tx dto key s call ans s' evs"
inductive_cases answers_keyE: "answers findKey findOrder tx dto key s AskKey ans s' evs"
inductive_cases answers_orderE: "answers findKey findOrder tx dto key s (AskOrder i) ans s' evs"
inductive_cases answers_userE: "answers findKey findOrder tx dto key s AskUser ans s' evs"
inductive_cases answers_txE: "answers findKey findOrder tx dto key s AskTx ans s' evs"
inductive_cases answers_publishE: "answers findKey findOrder tx dto key s (AskPublish ord) ans s' evs"

text \<open>A request arrives, or one of the requests gets the answer it waits for.\<close>

inductive sys_step ::
  "(string \<Rightarrow> 's \<Rightarrow> key_row option) \<Rightarrow> (string \<Rightarrow> 's \<Rightarrow> thrown + order_row option)
   \<Rightarrow> (string \<Rightarrow> string \<Rightarrow> create_order_dto \<Rightarrow> string option \<Rightarrow> 's \<Rightarrow> thrown + order_row \<times> 's)
   \<Rightarrow> 's sys \<Rightarrow> 's sys \<Rightarrow> bool"
  for findKey findOrder tx where
  arrives: "sys_step findKey findOrder tx \<sigma>
    (\<sigma>\<lparr>sys_threads := sys_threads \<sigma> @ [\<lparr>th_dto = dto, th_key = key, th_pc = start key\<rparr>]\<rparr>)"
| resumes: "n < length (sys_threads \<sigma>) \<Longrightarrow> th = sys_threads \<sigma> ! n \<Longrightarrow> asks (th_pc th) = Some call \<Longrightarrow>
    answers findKey findOrder tx (th_dto th) (th_key th) (sys_store \<sigma>) call ans s' evs \<Longrightarrow>
    sys_step findKey findOrder tx \<sigma>
      (\<sigma>\<lparr>sys_store := s',
         sys_threads := (sys_threads \<sigma>)[n := th\<lparr>th_pc := resume (th_dto th) (th_key th) (th_pc th) ans\<rparr>],
         sys_announced := sys_announced \<sigma> @ evs\<rparr>)"

text \<open>The order a request has stored itself.\<close>

fun stored_by :: "pc \<Rightarrow> order_row option" where
  "stored_by (AtPublish ord) = Some ord"
| "stored_by (Finished (Inr (ord, True))) = Some ord"
| "stored_by _ = None"

fun announced_by :: "pc \<Rightarrow> string option" where
  "announced_by (Finished (Inr (ord, True))) = Some (ord_id ord)"
| "announced_by _ = None"

text \<open>What holds of a request at each point, for a store.\<close>

fun thread_ok :: "(string \<Rightarrow> 's \<Rightarrow> key_row option) \<Rightarrow> (string \<Rightarrow> 's \<Rightarrow> thrown + order_row option) \<Rightarrow> 's
    \<Rightarrow> create_order_dto \<Rightarrow> string option \<Rightarrow> pc \<Rightarrow> bool" where
  "thread_ok fk fo s dto key AtKey = keyed key"
| "thread_ok fk fo s dto key (AtOrder i) =
     (keyed key \<and> (\<exists>kr. fk (the key) s = Some kr \<and> idem_orderId kr = i))"
| "thread_ok fk fo s dto key (AtKey2 e) = (keyed key \<and> (\<exists>kr. fk (the key) s = Some kr))"
| "thread_ok fk fo s dto key (AtOrder2 e i) =
     (keyed key \<and> (\<exists>kr. fk (the key) s = Some kr \<and> idem_orderId kr = i))"
| "thread_ok fk fo s dto key (AtPublish ord) =
     (ord_userId ord = dto_userId dto \<and> (\<exists>r. fo (ord_id ord) s = Inr (Some r))
      \<and> (keyed key \<longrightarrow> (\<exists>kr. fk (the key) s = Some kr \<and> idem_orderId kr = ord_id ord)))"
| "thread_ok fk fo s dto key (Finished (Inr (ord, b))) =
     (ord_userId ord = dto_userId dto \<and> (\<exists>r. fo (ord_id ord) s = Inr (Some r)) \<and> (b \<or> keyed key)
      \<and> (keyed key \<longrightarrow> (\<exists>kr. fk (the key) s = Some kr \<and> idem_orderId kr = ord_id ord)))"
| "thread_ok fk fo s dto key (Finished (Inl e)) = (\<not> isUniqueViolation e)"
| "thread_ok fk fo s dto key _ = True"

definition threads_ok ::
  "(string \<Rightarrow> 's \<Rightarrow> key_row option) \<Rightarrow> (string \<Rightarrow> 's \<Rightarrow> thrown + order_row option) \<Rightarrow> 's sys \<Rightarrow> bool" where
  "threads_ok fk fo \<sigma> \<longleftrightarrow>
     (\<forall>th\<in>set (sys_threads \<sigma>). thread_ok fk fo (sys_store \<sigma>) (th_dto th) (th_key th) (th_pc th))"

text \<open>The invariant of the system: the store keeps its own, every request is where it should be, no two
  requests stored the same order, and the announced ids are those of the finished creates, each once.\<close>

definition distinct_stores :: "req_thread list \<Rightarrow> bool" where
  "distinct_stores ths \<longleftrightarrow>
     (\<forall>n m ord ord'. n < length ths \<longrightarrow> m < length ths \<longrightarrow> stored_by (th_pc (ths ! n)) = Some ord \<longrightarrow>
        stored_by (th_pc (ths ! m)) = Some ord' \<longrightarrow> ord_id ord = ord_id ord' \<longrightarrow> n = m)"

definition announced_once :: "req_thread list \<Rightarrow> string list \<Rightarrow> bool" where
  "announced_once ths ids \<longleftrightarrow>
     distinct ids \<and> (\<forall>i. i \<in> set ids \<longleftrightarrow> (\<exists>th\<in>set ths. announced_by (th_pc th) = Some i))"

definition sys_ok ::
  "(string \<Rightarrow> 's \<Rightarrow> key_row option) \<Rightarrow> (string \<Rightarrow> 's \<Rightarrow> thrown + order_row option) \<Rightarrow> ('s \<Rightarrow> bool) \<Rightarrow> 's sys \<Rightarrow> bool" where
  "sys_ok fk fo I \<sigma> \<longleftrightarrow>
     I (sys_store \<sigma>) \<and> threads_ok fk fo \<sigma> \<and> distinct_stores (sys_threads \<sigma>)
     \<and> announced_once (sys_threads \<sigma>) (sys_announced \<sigma>)"

definition sys_init :: "'s \<Rightarrow> 's sys" where
  "sys_init s = \<lparr>sys_store = s, sys_threads = [], sys_announced = []\<rparr>"

lemma start_thread_ok [simp]: "thread_ok fk fo s dto key (start key)"
  by (simp add: start_def)

lemma start_not_stored [simp]: "stored_by (start key) = None" "announced_by (start key) = None"
  by (simp_all add: start_def)

lemma stored_if_announced: "announced_by p = Some i \<Longrightarrow> \<exists>ord. stored_by p = Some ord \<and> ord_id ord = i"
  by (cases p rule: announced_by.cases) auto

lemma asks_not_announced: "asks p = Some call \<Longrightarrow> announced_by p = None"
  by (cases p) auto

lemma replay_Inr: "replay r dto = Inr (ord, b) \<longleftrightarrow> ord_userId r = dto_userId dto \<and> ord = r \<and> \<not> b"
  by (auto simp: replay_def)

lemma not_unique_http [simp]: "\<not> isUniqueViolation (http_exception st m)"
  by (simp add: http_exception_def error_of_def)

lemma replay_stored [simp]: "stored_by (Finished (replay r dto)) = None" "announced_by (Finished (replay r dto)) = None"
  by (simp_all add: replay_def)

lemma distinct_stores_update:
  assumes "distinct_stores ths" "n < length ths"
    and "stored_by p' = stored_by (th_pc (ths ! n))
      \<or> (\<exists>ord. stored_by p' = Some ord
           \<and> (\<forall>th\<in>set ths. \<forall>old. stored_by (th_pc th) = Some old \<longrightarrow> ord_id old \<noteq> ord_id ord))"
  shows "distinct_stores (ths[n := (ths ! n)\<lparr>th_pc := p'\<rparr>])"
  using assms(3)
proof
  assume "stored_by p' = stored_by (th_pc (ths ! n))"
  then have "stored_by (th_pc (ths[n := (ths ! n)\<lparr>th_pc := p'\<rparr>] ! m)) = stored_by (th_pc (ths ! m))" if "m < length ths" for m
    using that assms(2) by (simp add: nth_list_update)
  with assms(1) show ?thesis by (simp add: distinct_stores_def)
next
  assume "\<exists>ord. stored_by p' = Some ord
    \<and> (\<forall>th\<in>set ths. \<forall>old. stored_by (th_pc th) = Some old \<longrightarrow> ord_id old \<noteq> ord_id ord)"
  then obtain ord where ord: "stored_by p' = Some ord"
    and new: "\<And>m old. m < length ths \<Longrightarrow> stored_by (th_pc (ths ! m)) = Some old \<Longrightarrow> ord_id old \<noteq> ord_id ord"
    by (auto dest: nth_mem)
  show ?thesis
    unfolding distinct_stores_def
  proof (intro allI impI)
    fix a b x y
    let ?u = "ths[n := (ths ! n)\<lparr>th_pc := p'\<rparr>]"
    assume "a < length ?u" "b < length ?u" "stored_by (th_pc (?u ! a)) = Some x" "stored_by (th_pc (?u ! b)) = Some y"
      "ord_id x = ord_id y"
    then show "a = b"
      using ord new [of a x] new [of b y] assms(1) unfolding distinct_stores_def
      by (cases "a = n"; cases "b = n") (auto simp: nth_list_update)
  qed
qed

lemma bex_set_nth: "(\<exists>x\<in>set xs. P x) \<longleftrightarrow> (\<exists>m<length xs. P (xs ! m))"
  by (metis in_set_conv_nth)

lemma bex_update:
  "n < length xs \<Longrightarrow> (\<exists>x\<in>set (xs[n := v]). P x) \<longleftrightarrow> P v \<or> (\<exists>m<length xs. m \<noteq> n \<and> P (xs ! m))"
  by (auto simp: bex_set_nth nth_list_update)

lemma announced_quiet:
  assumes "announced_once ths ids" "n < length ths" "announced_by p' = None" "announced_by (th_pc (ths ! n)) = None"
  shows "announced_once (ths[n := (ths ! n)\<lparr>th_pc := p'\<rparr>]) ids"
proof -
  have "(\<exists>th\<in>set (ths[n := (ths ! n)\<lparr>th_pc := p'\<rparr>]). announced_by (th_pc th) = Some i)
      \<longleftrightarrow> (\<exists>th\<in>set ths. announced_by (th_pc th) = Some i)" for i
    unfolding bex_update [OF assms(2)] bex_set_nth [of ths] using assms(3,4) by auto
  with assms(1) show ?thesis by (simp add: announced_once_def)
qed

lemma announced_now:
  assumes "announced_once ths ids" "distinct_stores ths" "n < length ths" "th_pc (ths ! n) = AtPublish ord"
    and "announced_by p' = Some (ord_id ord)"
  shows "announced_once (ths[n := (ths ! n)\<lparr>th_pc := p'\<rparr>]) (ids @ [ord_id ord])"
proof -
  have "ord_id ord \<notin> set ids"
  proof
    assume "ord_id ord \<in> set ids"
    then obtain m where m: "m < length ths" "announced_by (th_pc (ths ! m)) = Some (ord_id ord)"
      using assms(1) by (auto simp: announced_once_def in_set_conv_nth)
    then obtain o2 where "stored_by (th_pc (ths ! m)) = Some o2" "ord_id o2 = ord_id ord"
      using stored_if_announced by blast
    with m assms(2-4) have "m = n" unfolding distinct_stores_def by (metis stored_by.simps(1))
    with m assms(4) show False by simp
  qed
  moreover have "(\<exists>th\<in>set (ths[n := (ths ! n)\<lparr>th_pc := p'\<rparr>]). announced_by (th_pc th) = Some i)
      \<longleftrightarrow> i = ord_id ord \<or> (\<exists>th\<in>set ths. announced_by (th_pc th) = Some i)" for i
    unfolding bex_update [OF assms(3)] bex_set_nth [of ths] using assms(4,5) by auto
  ultimately show ?thesis using assms(1) by (auto simp: announced_once_def)
qed

context order_store
begin

lemma answers_store:
  assumes "answers findKey findOrder tx dto key s call ans s' evs" "inv s"
  shows "inv s'" "findKey k s = Some kr \<Longrightarrow> findKey k s' = Some kr"
    "findOrder j s = Inr (Some r) \<Longrightarrow> findOrder j s' = Inr (Some r)"
  using assms by (auto elim!: answersE dest: tx_inv tx_keeps_keys tx_keeps_orders)

lemma thread_ok_mono:
  assumes "thread_ok findKey findOrder s dto key p"
    and "\<And>k kr. findKey k s = Some kr \<Longrightarrow> findKey k s' = Some kr"
    and "\<And>j r. findOrder j s = Inr (Some r) \<Longrightarrow> findOrder j s' = Inr (Some r)"
  shows "thread_ok findKey findOrder s' dto key p"
  using assms by (cases "(findKey, findOrder, s, dto, key, p)" rule: thread_ok.cases) (simp_all, blast+)

lemma replay_ok:
  assumes "inv s" "keyed key" "findKey (the key) s = Some kr" "findOrder (idem_orderId kr) s = Inr (Some r)"
  shows "thread_ok findKey findOrder s dto key (Finished (replay r dto))"
proof -
  have "ord_id r = idem_orderId kr"
    using key_leads_to_order [OF assms(1,3)] assms(4) by (metis Inr_inject option.inject)
  with assms show ?thesis by (auto simp: replay_def)
qed

lemma tx_answer_ok:
  assumes "inv s" "answers findKey findOrder tx dto key s AskTx ans s' evs"
  shows "thread_ok findKey findOrder s' dto key (resume dto key AtTx ans)"
  using assms(2)
proof (cases rule: answers.cases)
  case (committed i now saved)
  note tx = committed(4)
  show ?thesis
    using committed tx_saved [OF tx] tx_order [OF assms(1) committed(3) tx] tx_key [OF tx] by auto
next
  case (aborted i now e)
  have "keyed key \<and> (\<exists>kr. findKey (the key) s = Some kr)" if "isUniqueViolation e"
    using tx_conflict [OF assms(1) aborted(4,6) that] aborted(5) by auto
  with aborted show ?thesis by auto
qed auto

lemma resume_ok:
  assumes "inv s" "thread_ok findKey findOrder s dto key p" "asks p = Some call"
    and ans: "answers findKey findOrder tx dto key s call ans s' evs"
  shows "thread_ok findKey findOrder s' dto key (resume dto key p ans)"
proof (cases p)
  case AtKey
  with assms(2,3) ans show ?thesis
    by (cases "findKey (the key) s") (auto elim!: answers_keyE)
next
  case (AtOrder i)
  then obtain kr where kr: "keyed key" "findKey (the key) s = Some kr" "idem_orderId kr = i"
    using assms(2) by auto
  from key_order [OF assms(1) kr(2)] kr(3) obtain r where "findOrder i s = Inr (Some r)" by blast
  with AtOrder assms(1,3) kr ans show ?thesis by (auto elim!: answers_orderE intro: replay_ok)
next
  case AtUser
  with assms(3) ans show ?thesis by (auto elim!: answers_userE)
next
  case AtTx
  with assms(1,3) ans show ?thesis by (auto intro: tx_answer_ok)
next
  case (AtKey2 e)
  with assms(2,3) ans show ?thesis by (auto elim!: answers_keyE)
next
  case (AtOrder2 e i)
  then obtain kr where kr: "keyed key" "findKey (the key) s = Some kr" "idem_orderId kr = i"
    using assms(2) by auto
  from key_order [OF assms(1) kr(2)] kr(3) obtain r where "findOrder i s = Inr (Some r)" by blast
  with AtOrder2 assms(1,3) kr ans show ?thesis by (auto elim!: answers_orderE intro: replay_ok)
next
  case (AtPublish ord)
  with assms(2,3) ans show ?thesis by (auto elim!: answers_publishE)
qed (use assms in simp)

lemma resume_stores:
  assumes "inv s" "asks p = Some call" "answers findKey findOrder tx dto key s call ans s' evs"
  shows "stored_by (resume dto key p ans) = stored_by p
    \<or> (\<exists>ord. stored_by p = None \<and> stored_by (resume dto key p ans) = Some ord \<and> findOrder (ord_id ord) s = Inr None)"
  using assms
  by (cases "(dto, key, p, ans)" rule: resume.cases)
    (auto elim!: answersE dest: tx_order tx_saved split: if_splits)

lemma resume_announces:
  assumes "asks p = Some call" "answers findKey findOrder tx dto key s call ans s' evs"
  shows "(evs = [] \<and> announced_by (resume dto key p ans) = None)
    \<or> (\<exists>ord. p = AtPublish ord \<and> evs = [ord_id ord] \<and> announced_by (resume dto key p ans) = Some (ord_id ord))"
  using assms
  by (cases "(dto, key, p, ans)" rule: resume.cases)
    (auto elim!: answersE split: if_splits)

lemma arrives_ok:
  assumes "sys_ok findKey findOrder inv \<sigma>"
  shows "sys_ok findKey findOrder inv
    (\<sigma>\<lparr>sys_threads := sys_threads \<sigma> @ [\<lparr>th_dto = dto, th_key = key, th_pc = start key\<rparr>]\<rparr>)"
  using assms
  by (auto simp: sys_ok_def threads_ok_def distinct_stores_def announced_once_def nth_append less_Suc_eq split: if_splits)

lemma stored_order_exists:
  "thread_ok findKey findOrder s dto key p \<Longrightarrow> stored_by p = Some ord \<Longrightarrow> \<exists>r. findOrder (ord_id ord) s = Inr (Some r)"
  by (cases p rule: stored_by.cases) auto

lemma resumes_ok:
  assumes ok: "sys_ok findKey findOrder inv \<sigma>"
    and n: "n < length (sys_threads \<sigma>)" "th = sys_threads \<sigma> ! n" "asks (th_pc th) = Some call"
    and ans: "answers findKey findOrder tx (th_dto th) (th_key th) (sys_store \<sigma>) call ans s' evs"
  defines "p' \<equiv> resume (th_dto th) (th_key th) (th_pc th) ans"
  defines "\<sigma>' \<equiv> \<sigma>\<lparr>sys_store := s', sys_threads := (sys_threads \<sigma>)[n := th\<lparr>th_pc := p'\<rparr>],
      sys_announced := sys_announced \<sigma> @ evs\<rparr>"
  shows "sys_ok findKey findOrder inv \<sigma>'"
proof -
  let ?ths = "sys_threads \<sigma>" and ?ths' = "sys_threads \<sigma>'"
  have inv: "inv (sys_store \<sigma>)" and oks: "\<And>th. th \<in> set ?ths \<Longrightarrow>
      thread_ok findKey findOrder (sys_store \<sigma>) (th_dto th) (th_key th) (th_pc th)"
    using ok by (auto simp: sys_ok_def threads_ok_def)
  have in_ths: "th \<in> set ?ths" using n by simp
  note store = answers_store [OF ans inv]
  have inv': "inv (sys_store \<sigma>')" using store(1) by (simp add: \<sigma>'_def)
  have threads': "threads_ok findKey findOrder \<sigma>'"
    unfolding threads_ok_def
  proof
    fix th' assume "th' \<in> set ?ths'"
    then consider "th' = th\<lparr>th_pc := p'\<rparr>" | "th' \<in> set ?ths"
      using set_update_subset_insert [of ?ths n] by (auto simp: \<sigma>'_def)
    then show "thread_ok findKey findOrder (sys_store \<sigma>') (th_dto th') (th_key th') (th_pc th')"
    proof cases
      case 1
      with resume_ok [OF inv oks [OF in_ths] n(3) ans] show ?thesis by (simp add: \<sigma>'_def p'_def)
    next
      case 2
      from thread_ok_mono [OF oks [OF this] store(2,3)] show ?thesis by (simp add: \<sigma>'_def)
    qed
  qed
  have fresh: "ord_id old \<noteq> ord_id ord"
    if "th' \<in> set ?ths" "stored_by (th_pc th') = Some old" "findOrder (ord_id ord) (sys_store \<sigma>) = Inr None" for th' old ord
    using stored_order_exists [OF oks [OF that(1)] that(2)] that(3) by auto
  have stores': "distinct_stores (?ths[n := th\<lparr>th_pc := p'\<rparr>])"
    using distinct_stores_update [OF _ n(1), of p'] ok resume_stores [OF inv n(3) ans] fresh
    unfolding n(2) sys_ok_def p'_def by blast
  have announced': "announced_once (?ths[n := th\<lparr>th_pc := p'\<rparr>]) (sys_announced \<sigma> @ evs)"
    using resume_announces [OF n(3) ans] announced_quiet [OF _ n(1)] announced_now [OF _ _ n(1)] ok
      asks_not_announced [OF n(3)]
    unfolding sys_ok_def p'_def n(2) by auto
  from inv' threads' stores' announced' show ?thesis by (simp add: sys_ok_def \<sigma>'_def)
qed

lemma sys_step_ok:
  "sys_step findKey findOrder tx \<sigma> \<sigma>' \<Longrightarrow> sys_ok findKey findOrder inv \<sigma> \<Longrightarrow> sys_ok findKey findOrder inv \<sigma>'"
  by (induction rule: sys_step.induct) (auto intro: arrives_ok resumes_ok)

lemma sys_reach_ok:
  assumes "(sys_step findKey findOrder tx)\<^sup>*\<^sup>* (sys_init s) \<sigma>" "inv s"
  shows "sys_ok findKey findOrder inv \<sigma>"
  using assms
proof (induction rule: rtranclp_induct)
  case base
  then show ?case
    by (simp add: sys_ok_def sys_init_def threads_ok_def distinct_stores_def announced_once_def)
next
  case (step \<sigma> \<sigma>')
  then show ?case using sys_step_ok by blast
qed

lemma same_key_same_id:
  assumes "sys_ok findKey findOrder inv \<sigma>"
    and "n < length (sys_threads \<sigma>)" "th_pc (sys_threads \<sigma> ! n) = Finished (Inr (ord, b))"
    and "m < length (sys_threads \<sigma>)" "th_pc (sys_threads \<sigma> ! m) = Finished (Inr (ord', b'))"
    and "th_key (sys_threads \<sigma> ! n) = th_key (sys_threads \<sigma> ! m)" "keyed (th_key (sys_threads \<sigma> ! n))"
  shows "ord_id ord = ord_id ord' \<and> (n = m \<or> \<not> b \<or> \<not> b')"
proof -
  have ok: "thread_ok findKey findOrder (sys_store \<sigma>) (th_dto (sys_threads \<sigma> ! k)) (th_key (sys_threads \<sigma> ! k))
      (th_pc (sys_threads \<sigma> ! k))" if "k < length (sys_threads \<sigma>)" for k
    using assms(1) that by (simp add: sys_ok_def threads_ok_def)
  have same: "ord_id ord = ord_id ord'"
    using ok [OF assms(2)] ok [OF assms(4)] assms(3,5,6,7) by auto
  moreover have "n = m" if "b" "b'"
  proof -
    have "stored_by (th_pc (sys_threads \<sigma> ! n)) = Some ord" "stored_by (th_pc (sys_threads \<sigma> ! m)) = Some ord'"
      using assms(3,5) that by simp_all
    with assms(1,2,4) same show ?thesis unfolding sys_ok_def distinct_stores_def by blast
  qed
  ultimately show ?thesis by blast
qed

lemma announced_are_stored:
  assumes "sys_ok findKey findOrder inv \<sigma>" "i \<in> set (sys_announced \<sigma>)"
  shows "\<exists>r. findOrder i (sys_store \<sigma>) = Inr (Some r)"
proof -
  from assms obtain th where th: "th \<in> set (sys_threads \<sigma>)" "announced_by (th_pc th) = Some i"
    by (auto simp: sys_ok_def announced_once_def)
  then obtain ord where "stored_by (th_pc th) = Some ord" "ord_id ord = i" using stored_if_announced by blast
  with th assms(1) show ?thesis unfolding sys_ok_def threads_ok_def using stored_order_exists by metis
qed

lemma finished_without_violation:
  "sys_ok findKey findOrder inv \<sigma> \<Longrightarrow> th \<in> set (sys_threads \<sigma>) \<Longrightarrow> th_pc th = Finished (Inl e) \<Longrightarrow> \<not> isUniqueViolation e"
  unfolding sys_ok_def threads_ok_def by (metis thread_ok.simps(7))

end

section \<open>The service over its tables\<close>

definition orders_step :: "order_tables sys \<Rightarrow> order_tables sys \<Rightarrow> bool" where
  "orders_step = sys_step find_key find_order order_tx"

definition orders_reachable :: "order_tables \<Rightarrow> order_tables sys \<Rightarrow> bool" where
  "orders_reachable t \<sigma> \<longleftrightarrow> orders_step\<^sup>*\<^sup>* (sys_init t) \<sigma>"

lemma orders_reachable_ok: "orders_reachable t \<sigma> \<Longrightarrow> db_ok t \<Longrightarrow> sys_ok find_key find_order db_ok \<sigma>"
  unfolding orders_reachable_def orders_step_def by (rule pg_orders.sys_reach_ok)

text \<open>Schedules to run: each entry lets one request go on, with the id the server would generate next.\<close>

fun sched_answer ::
  "string \<Rightarrow> create_order_dto \<Rightarrow> string option \<Rightarrow> order_tables \<Rightarrow> call \<Rightarrow> answer \<times> order_tables \<times> string list" where
  "sched_answer i dto key s AskKey = (KeyRow (find_key (the key) s), s, [])"
| "sched_answer i dto key s (AskOrder j) =
     (case find_order j s of Inr r \<Rightarrow> (OrderRow r, s, []) | Inl e \<Rightarrow> (Failed e, s, []))"
| "sched_answer i dto key s AskUser = (UserKnown True, s, [])"
| "sched_answer i dto key s AskTx =
     (case order_tx i ''2024-01-01 00:00:00'' dto key s of
        Inr (saved, s') \<Rightarrow> (Committed saved, s', [])
      | Inl e \<Rightarrow> (Failed e, s, []))"
| "sched_answer i dto key s (AskPublish ord) = (PublishOk, s, [ord_id ord])"

fun run_sched :: "(string \<times> nat) list \<Rightarrow> order_tables sys \<Rightarrow> order_tables sys option" where
  "run_sched [] \<sigma> = Some \<sigma>"
| "run_sched ((i, n) # rest) \<sigma> =
     (if canonical_uuid i \<and> find_order i (sys_store \<sigma>) = Inr None \<and> n < length (sys_threads \<sigma>)
      then (let th = sys_threads \<sigma> ! n in
        case asks (th_pc th) of
          None \<Rightarrow> None
        | Some call \<Rightarrow>
            (case sched_answer i (th_dto th) (th_key th) (sys_store \<sigma>) call of
               (ans, s', evs) \<Rightarrow>
                 run_sched rest (\<sigma>\<lparr>sys_store := s',
                   sys_threads := (sys_threads \<sigma>)[n := th\<lparr>th_pc := resume (th_dto th) (th_key th) (th_pc th) ans\<rparr>],
                   sys_announced := sys_announced \<sigma> @ evs\<rparr>)))
      else None)"

lemma sched_answers:
  assumes "canonical_uuid i" "find_order i s = Inr None" "sched_answer i dto key s call = (ans, s', evs)"
  shows "answers find_key find_order order_tx dto key s call ans s' evs"
proof (cases call)
  case (AskOrder j)
  with assms(3) show ?thesis
    by (auto simp: find_order_def pg_uuid_def intro: answers.fails answers.order_row split: if_splits sum.splits)
qed (use assms in \<open>auto intro: answers.intros split: sum.splits\<close>)

lemma run_sched_reach:
  "run_sched xs \<sigma> = Some \<sigma>' \<Longrightarrow> orders_step\<^sup>*\<^sup>* \<sigma> \<sigma>'"
proof (induction xs \<sigma> rule: run_sched.induct)
  case (2 i n rest \<sigma>)
  let ?th = "sys_threads \<sigma> ! n"
  from 2(2) obtain call ans s' evs
    where g: "canonical_uuid i" "find_order i (sys_store \<sigma>) = Inr None" "n < length (sys_threads \<sigma>)"
      and c: "asks (th_pc ?th) = Some call"
      and a: "sched_answer i (th_dto ?th) (th_key ?th) (sys_store \<sigma>) call = (ans, s', evs)"
    by (auto simp: Let_def split: if_splits option.splits prod.splits)
  from sys_step.resumes [OF g(3) refl c sched_answers [OF g(1,2) a]]
  have "orders_step \<sigma> (\<sigma>\<lparr>sys_store := s',
      sys_threads := (sys_threads \<sigma>)[n := ?th\<lparr>th_pc := resume (th_dto ?th) (th_key ?th) (th_pc ?th) ans\<rparr>],
      sys_announced := sys_announced \<sigma> @ evs\<rparr>)"
    unfolding orders_step_def .
  moreover have "orders_step\<^sup>*\<^sup>* \<dots> \<sigma>'"
    using 2 g c a by (simp add: Let_def)
  ultimately show ?case by (rule converse_rtranclp_into_rtranclp)
qed simp

text \<open>Two requests race with one key: both find no key, both ask for the user, the first commits, the second
  fails on the key and replays.\<close>

definition demo_start :: "order_tables sys" where
  "demo_start = (sys_init no_orders)\<lparr>sys_threads :=
     [\<lparr>th_dto = demo_dto, th_key = Some ''k1'', th_pc = start (Some ''k1'')\<rparr>,
      \<lparr>th_dto = demo_dto, th_key = Some ''k1'', th_pc = start (Some ''k1'')\<rparr>]\<rparr>"

definition demo_other_id :: string where
  "demo_other_id = ''886313e1-3b8a-4372-9b90-0c9aee199e5d''"

definition demo_schedule :: "(string \<times> nat) list" where
  "demo_schedule =
     [(demo_order_id, 0), (demo_order_id, 1), (demo_order_id, 1), (demo_order_id, 0), (demo_order_id, 0),
      (demo_other_id, 1), (demo_other_id, 1), (demo_other_id, 0), (demo_other_id, 1)]"

definition demo_race :: "order_tables sys" where
  "demo_race =
     \<lparr>sys_store = \<lparr>orders_tbl = [demo_order],
        keys_tbl = [\<lparr>idem_key = ''k1'', idem_orderId = demo_order_id, idem_createdAt = ''2024-01-01 00:00:00''\<rparr>]\<rparr>,
      sys_threads =
        [\<lparr>th_dto = demo_dto, th_key = Some ''k1'', th_pc = Finished (Inr (demo_order, True))\<rparr>,
         \<lparr>th_dto = demo_dto, th_key = Some ''k1'', th_pc = Finished (Inr (demo_order, False))\<rparr>],
      sys_announced = [demo_order_id]\<rparr>"

lemma demo_start_reachable: "orders_reachable no_orders demo_start"
proof -
  let ?th = "\<lparr>th_dto = demo_dto, th_key = Some ''k1'', th_pc = start (Some ''k1'')\<rparr>"
  let ?one = "(sys_init no_orders)\<lparr>sys_threads := [?th]\<rparr>"
  have "orders_step (sys_init no_orders) ?one"
    using sys_step.arrives [of find_key find_order order_tx "sys_init no_orders" demo_dto "Some ''k1''"]
    by (simp add: orders_step_def sys_init_def)
  moreover have "orders_step ?one demo_start"
    using sys_step.arrives [of find_key find_order order_tx ?one demo_dto "Some ''k1''"]
    by (simp add: orders_step_def demo_start_def)
  ultimately show ?thesis unfolding orders_reachable_def by (meson rtranclp.simps)
qed

lemma demo_tx:
  "order_tx demo_order_id ''2024-01-01 00:00:00'' demo_dto (Some ''k1'') no_orders = Inr (demo_order, sys_store demo_race)"
  by code_simp

lemma demo_tx_again:
  "order_tx demo_other_id ''2024-01-01 00:00:00'' demo_dto (Some ''k1'') (sys_store demo_race) =
     Inl (pg_error ''23505'' (Some ''idempotency_keys_pkey'') ''duplicate key value'')"
  by code_simp

lemma demo_lookups:
  "find_key ''k1'' no_orders = None" "find_order demo_order_id no_orders = Inr None"
  "find_key ''k1'' (sys_store demo_race) =
     Some \<lparr>idem_key = ''k1'', idem_orderId = demo_order_id, idem_createdAt = ''2024-01-01 00:00:00''\<rparr>"
  "find_order demo_order_id (sys_store demo_race) = Inr (Some demo_order)"
  "find_order demo_other_id (sys_store demo_race) = Inr None" "canonical_uuid demo_other_id"
  "replay demo_order demo_dto = Inr (demo_order, False)"
  by code_simp+

lemma demo_race_run: "run_sched demo_schedule demo_start = Some demo_race"
proof -
  have "ord_id demo_order = demo_order_id" by (simp add: demo_order_def)
  then have "run_sched demo_schedule demo_start = Some
     \<lparr>sys_store = sys_store demo_race, sys_threads = sys_threads demo_race, sys_announced = sys_announced demo_race\<rparr>"
    using demo_tx demo_tx_again demo_lookups
    by (simp add: demo_schedule_def demo_start_def sys_init_def start_def keyed_def Let_def)
      (simp add: demo_race_def)
  then show ?thesis by simp
qed

lemma demo_race_reachable: "orders_reachable no_orders demo_race"
  using demo_start_reachable run_sched_reach [OF demo_race_run] unfolding orders_reachable_def
  by (rule rtranclp_trans)

text \<open>C5: an idempotency key stands for one order, however requests interleave and whatever fails. Two requests
  with the same key that are both answered with an order are answered with the same order, and at most
  one of them reports to have created it.\<close>

theorem same_key_same_order:
  assumes "db_ok t" "orders_reachable t \<sigma>"
    and "n < length (sys_threads \<sigma>)" "th_pc (sys_threads \<sigma> ! n) = Finished (Inr (ord, b))"
    and "m < length (sys_threads \<sigma>)" "th_pc (sys_threads \<sigma> ! m) = Finished (Inr (ord', b'))"
    and "th_key (sys_threads \<sigma> ! n) = th_key (sys_threads \<sigma> ! m)" "keyed (th_key (sys_threads \<sigma> ! n))"
  shows "ord_id ord = ord_id ord' \<and> (n = m \<or> \<not> b \<or> \<not> b')"
  using pg_orders.same_key_same_id orders_reachable_ok assms by blast

theorem same_key_same_order_witness:
  "\<exists>ord ord'. th_pc (sys_threads demo_race ! 0) = Finished (Inr (ord, True))
     \<and> th_pc (sys_threads demo_race ! 1) = Finished (Inr (ord', False)) \<and> ord_id ord = ord_id ord'"
  using same_key_same_order [OF db_ok_empty demo_race_reachable, of 0 demo_order True 1 demo_order False]
  by (simp add: demo_race_def keyed_def)

text \<open>C27: every created order is announced once. In every reachable state the ids a publish was attempted
  for are pairwise different, are those of the requests that ended with \<open>created: true\<close>, and belong to
  stored orders.\<close>

theorem creates_announced_once:
  assumes "db_ok t" "orders_reachable t \<sigma>"
  shows "distinct (sys_announced \<sigma>)
    \<and> (\<forall>i. i \<in> set (sys_announced \<sigma>) \<longleftrightarrow>
         (\<exists>th\<in>set (sys_threads \<sigma>). \<exists>ord. th_pc th = Finished (Inr (ord, True)) \<and> ord_id ord = i))
    \<and> (\<forall>i\<in>set (sys_announced \<sigma>). \<exists>r. find_order i (sys_store \<sigma>) = Inr (Some r))"
proof -
  have ok: "sys_ok find_key find_order db_ok \<sigma>" using orders_reachable_ok assms by blast
  have "announced_by p = Some i \<longleftrightarrow> (\<exists>ord. p = Finished (Inr (ord, True)) \<and> ord_id ord = i)" for p i
    by (cases p rule: announced_by.cases) auto
  with ok show ?thesis
    using pg_orders.announced_are_stored [OF ok] by (auto simp: sys_ok_def announced_once_def)
qed

theorem creates_announced_once_witness:
  "demo_order_id \<in> set (sys_announced demo_race) \<and> distinct (sys_announced demo_race)"
  using creates_announced_once [OF db_ok_empty demo_race_reachable] by (simp add: demo_race_def)

text \<open>C29: the loser of a race never sees the database's unique violation: it is answered with the winner's
  order, a 409, or an error of another kind.\<close>

theorem race_losers_never_see_the_violation:
  assumes "db_ok t" "orders_reachable t \<sigma>" "th \<in> set (sys_threads \<sigma>)" "th_pc th = Finished (Inl e)"
  shows "\<not> isUniqueViolation e"
  using pg_orders.finished_without_violation orders_reachable_ok assms by blast

definition demo_refused :: "order_tables sys" where
  "demo_refused = (sys_init no_orders)\<lparr>sys_threads :=
     [\<lparr>th_dto = demo_dto, th_key = None, th_pc = Finished (Inl (http_exception 422 ''User does not exist''))\<rparr>]\<rparr>"

lemma demo_refused_reachable: "orders_reachable no_orders demo_refused"
proof -
  let ?one = "(sys_init no_orders)\<lparr>sys_threads := [\<lparr>th_dto = demo_dto, th_key = None, th_pc = AtUser\<rparr>]\<rparr>"
  have "orders_step (sys_init no_orders) ?one"
    using sys_step.arrives [of find_key find_order order_tx "sys_init no_orders" demo_dto None]
    by (simp add: orders_step_def sys_init_def start_def keyed_def)
  moreover have "orders_step ?one demo_refused"
    using sys_step.resumes [of 0 ?one _ AskUser find_key find_order order_tx "UserKnown False" no_orders "[]"]
      answers.user_known [of find_key find_order order_tx demo_dto None no_orders False]
    by (simp add: orders_step_def demo_refused_def sys_init_def)
  ultimately show ?thesis unfolding orders_reachable_def by (meson rtranclp.simps)
qed

theorem race_losers_never_see_the_violation_witness:
  "\<exists>th\<in>set (sys_threads demo_refused). \<exists>e. th_pc th = Finished (Inl e) \<and> \<not> isUniqueViolation e"
  using race_losers_never_see_the_violation [OF db_ok_empty demo_refused_reachable]
  by (simp add: demo_refused_def)

end
