(* ===== verification/Json.thy ===== *)
theory Json
  imports JsValue
begin

text \<open>
  \<open>JSON.parse\<close> and \<open>JSON.stringify\<close> as the services use them (\<open>event-publisher.service.ts\<close> writes an
  event, \<open>order-created.event.ts\<close> reads it back), on UTF-8 bytes. The reader covers the whole grammar;
  it recurses with a fuel that \<open>json_parse\<close> chooses from the length of the text. The main result is the
  round trip: what the writer prints the reader reads back.
\<close>

section \<open>Reading\<close>

definition is_ws :: "char \<Rightarrow> bool" where
  "is_ws c \<longleftrightarrow> byte c = 32 \<or> byte c = 9 \<or> byte c = 10 \<or> byte c = 13"

definition skip_ws :: "string \<Rightarrow> string" where
  "skip_ws s = dropWhile is_ws s"

text \<open>The UTF-8 bytes of a code point; a lone surrogate is encoded like any other code point below
  U+10000.\<close>

definition utf8 :: "nat \<Rightarrow> string" where
  "utf8 n =
     (if n < 128 then [char_of n]
      else if n < 2048 then [char_of (192 + n div 64), char_of (128 + n mod 64)]
      else if n < 65536 then [char_of (224 + n div 4096), char_of (128 + n div 64 mod 64), char_of (128 + n mod 64)]
      else [char_of (240 + n div 262144), char_of (128 + n div 4096 mod 64), char_of (128 + n div 64 mod 64),
            char_of (128 + n mod 64)])"

definition hex4 :: "string \<Rightarrow> nat option" where
  "hex4 s = (if 4 \<le> length s \<and> list_all is_hex (take 4 s) then Some (nat (digits_val 16 (take 4 s))) else None)"

text \<open>The characters of a string literal after its opening quote: the value and the text after the
  closing quote.\<close>

definition simple_escape :: "char \<Rightarrow> char option" where
  "simple_escape c =
     (if c = CHR 0x22 \<or> c = CHR ''/'' \<or> c = CHR 0x5C then Some c
      else if c = CHR ''b'' then Some (CHR 0x08)
      else if c = CHR ''f'' then Some (CHR 0x0C)
      else if c = CHR ''n'' then Some (CHR 0x0A)
      else if c = CHR ''r'' then Some (CHR 0x0D)
      else if c = CHR ''t'' then Some (CHR 0x09)
      else None)"

definition low_surrogate :: "string \<Rightarrow> nat option" where
  "low_surrogate s =
     (if take 2 s = [CHR 0x5C, CHR ''u''] then
        (case hex4 (drop 2 s) of
           Some n \<Rightarrow> (if 56320 \<le> n \<and> n \<le> 57343 then Some n else None)
         | None \<Rightarrow> None)
      else None)"

definition cons_result :: "string \<Rightarrow> (string \<times> string) option \<Rightarrow> (string \<times> string) option" where
  "cons_result pre r = map_option (\<lambda>(v, rest). (pre @ v, rest)) r"

function read_string :: "string \<Rightarrow> (string \<times> string) option" where
  "read_string [] = None"
| "read_string (c # s) =
     (if c = CHR 0x22 then Some ([], s)
      else if byte c < 32 then None
      else if c \<noteq> CHR 0x5C then cons_result [c] (read_string s)
      else (case s of
        [] \<Rightarrow> None
      | e # s' \<Rightarrow>
          (case simple_escape e of
             Some x \<Rightarrow> cons_result [x] (read_string s')
           | None \<Rightarrow>
               (if e \<noteq> CHR ''u'' then None
                else (case hex4 s' of
                  None \<Rightarrow> None
                | Some n \<Rightarrow>
                    (case (if 55296 \<le> n \<and> n \<le> 56319 then low_surrogate (drop 4 s') else None) of
                       Some m \<Rightarrow> cons_result (utf8 (65536 + (n - 55296) * 1024 + (m - 56320))) (read_string (drop 10 s'))
                     | None \<Rightarrow> cons_result (utf8 n) (read_string (drop 4 s'))))))))"
  by pat_completeness auto
termination
  by (relation "measure length") (auto simp: less_Suc_eq_le)

text \<open>A number literal: digits without a leading zero, then the fraction and the exponent, each with
  whether it is well formed, its value and the text after it.\<close>

definition read_frac :: "string \<Rightarrow> bool \<times> string \<times> string" where
  "read_frac r =
     (if take 1 r = ''.''
      then (takeWhile is_digit (drop 1 r) \<noteq> [], takeWhile is_digit (drop 1 r), dropWhile is_digit (drop 1 r))
      else (True, [], r))"

definition read_exp :: "string \<Rightarrow> bool \<times> int \<times> string" where
  "read_exp r =
     (if take 1 r = ''e'' \<or> take 1 r = ''E''
      then let sgn = take 1 (drop 1 r);
               r' = (if sgn = ''-'' \<or> sgn = ''+'' then drop 2 r else drop 1 r);
               ep = takeWhile is_digit r'
           in (ep \<noteq> [], if sgn = ''-'' then - digits_val 10 ep else digits_val 10 ep, dropWhile is_digit r')
      else (True, 0, r))"

definition read_number :: "string \<Rightarrow> (jsnum \<times> string) option" where
  "read_number s =
     (let neg = (take 1 s = ''-''); s1 = (if neg then drop 1 s else s);
          ip = takeWhile is_digit s1;
          (frac_ok, fp, r2) = read_frac (dropWhile is_digit s1);
          (exp_ok, e, r3) = read_exp r2;
          v = decimal_value (ip, fp, e)
      in if ip = [] \<or> (hd ip = CHR ''0'' \<and> 1 < length ip) \<or> \<not> frac_ok \<or> \<not> exp_ok then None
         else Some (to_double (if neg then - v else v), r3))"

definition keyword :: "string \<Rightarrow> jsval \<Rightarrow> string \<Rightarrow> (jsval \<times> string) option" where
  "keyword w v s = (if take (length w) s = w then Some (v, drop (length w) s) else None)"

text \<open>Values, the elements of an array after its bracket or a comma, and the members of an object after
  its brace or a comma. A repeated name keeps its first place and takes the last value.\<close>

fun read_value :: "nat \<Rightarrow> string \<Rightarrow> (jsval \<times> string) option"
and read_elems :: "nat \<Rightarrow> jsval list \<Rightarrow> string \<Rightarrow> (jsval \<times> string) option"
and read_members :: "nat \<Rightarrow> (string \<times> jsval) list \<Rightarrow> string \<Rightarrow> (jsval \<times> string) option"
where
  "read_value 0 s = None"
| "read_value (Suc n) s =
     (case skip_ws s of
        [] \<Rightarrow> None
      | c # r \<Rightarrow>
          if c = CHR ''{'' then
            (case skip_ws r of
               c' # r' \<Rightarrow> (if c' = CHR ''}'' then Some (JObj [], r') else read_members n [] r)
             | [] \<Rightarrow> None)
          else if c = CHR ''['' then
            (case skip_ws r of
               c' # r' \<Rightarrow> (if c' = CHR '']'' then Some (JArr [], r') else read_elems n [] r)
             | [] \<Rightarrow> None)
          else if c = CHR 0x22 then map_option (\<lambda>(v, rest). (JStr v, rest)) (read_string r)
          else if c = CHR ''t'' then keyword ''true'' (JBool True) (c # r)
          else if c = CHR ''f'' then keyword ''false'' (JBool False) (c # r)
          else if c = CHR ''n'' then keyword ''null'' JNull (c # r)
          else map_option (\<lambda>(v, rest). (JNum v, rest)) (read_number (c # r)))"
| "read_elems 0 vs s = None"
| "read_elems (Suc n) vs s =
     (case read_value n s of
        None \<Rightarrow> None
      | Some (v, r) \<Rightarrow>
          (case skip_ws r of
             c # r' \<Rightarrow>
               (if c = CHR '','' then read_elems n (vs @ [v]) r'
                else if c = CHR '']'' then Some (JArr (vs @ [v]), r')
                else None)
           | [] \<Rightarrow> None))"
| "read_members 0 ps s = None"
| "read_members (Suc n) ps s =
     (case skip_ws s of
        [] \<Rightarrow> None
      | q # r0 \<Rightarrow>
          if q \<noteq> CHR 0x22 then None
          else (case read_string r0 of
             None \<Rightarrow> None
           | Some (k, r1) \<Rightarrow>
               (case skip_ws r1 of
                  [] \<Rightarrow> None
                | d # r2 \<Rightarrow>
                    if d \<noteq> CHR '':'' then None
                    else (case read_value n r2 of
                       None \<Rightarrow> None
                     | Some (v, r3) \<Rightarrow>
                         (case skip_ws r3 of
                            c # r4 \<Rightarrow>
                              (if c = CHR '','' then read_members n (obj_set k v ps) r4
                               else if c = CHR ''}'' then Some (JObj (obj_set k v ps), r4)
                               else None)
                          | [] \<Rightarrow> None)))))"

text \<open>\<open>JSON.parse\<close>: one value and nothing but white space after it; \<open>None\<close> where it throws. Every second
  call of the reader consumes a character, so twice the length is enough fuel.\<close>

definition json_parse :: "string \<Rightarrow> jsval option" where
  "json_parse s =
     (case read_value (2 * length s + 2) s of
        None \<Rightarrow> None
      | Some (v, rest) \<Rightarrow> (if skip_ws rest = [] then Some v else None))"

section \<open>Writing\<close>

definition hex_digit :: "nat \<Rightarrow> char" where
  "hex_digit n = (if n < 10 then char_of (48 + n) else char_of (87 + n))"

definition escape_char :: "char \<Rightarrow> string" where
  "escape_char c =
     (if c = CHR 0x22 \<or> c = CHR 0x5C then [CHR 0x5C, c]
      else if c = CHR 0x08 then [CHR 0x5C, CHR ''b'']
      else if c = CHR 0x0C then [CHR 0x5C, CHR ''f'']
      else if c = CHR 0x0A then [CHR 0x5C, CHR ''n'']
      else if c = CHR 0x0D then [CHR 0x5C, CHR ''r'']
      else if c = CHR 0x09 then [CHR 0x5C, CHR ''t'']
      else if byte c < 32 then [CHR 0x5C, CHR ''u'', CHR ''0'', CHR ''0'', hex_digit (byte c div 16), hex_digit (byte c mod 16)]
      else [c])"

definition quote :: "string \<Rightarrow> string" where
  "quote s = [CHR 0x22] @ concat (map escape_char s) @ [CHR 0x22]"

text \<open>\<open>JSON.stringify\<close> of a value without \<open>undefined\<close> in it (an event has none).\<close>

fun json_string :: "jsval \<Rightarrow> string" where
  "json_string JUndefined = []"
| "json_string JNull = ''null''"
| "json_string (JBool b) = (if b then ''true'' else ''false'')"
| "json_string (JNum n) = (case n of Fin _ \<Rightarrow> num_string n | _ \<Rightarrow> ''null'')"
| "json_string (JStr s) = quote s"
| "json_string (JArr vs) = ''['' @ join_with '','' (map json_string vs) @ '']''"
| "json_string (JObj ps) =
     ''{'' @ join_with '','' (map (\<lambda>p. quote (fst p) @ '':'' @ json_string (snd p)) ps) @ ''}''"

section \<open>Reading back a string\<close>

lemma cons_result_Some [simp]: "cons_result pre (Some (v, rest)) = Some (pre @ v, rest)"
  by (simp add: cons_result_def)

lemma hex_digit_value:
  assumes "n < 16"
  shows "is_hex (hex_digit n)" "digit_val (hex_digit n) = int n"
  using assms by (auto simp: hex_digit_def is_hex_def digit_val_def is_digit_def to_lower_def)

lemma control_hex4:
  assumes "byte c < 32"
  shows "hex4 (CHR ''0'' # CHR ''0'' # hex_digit (byte c div 16) # hex_digit (byte c mod 16) # s) = Some (byte c)"
proof -
  have z: "is_hex (CHR ''0'')" "digit_val (CHR ''0'') = 0" by code_simp+
  have d: "byte c div 16 < 16" "byte c mod 16 < 16" using assms by auto
  have "digits_val 16 [CHR ''0'', CHR ''0'', hex_digit (byte c div 16), hex_digit (byte c mod 16)]
      = 16 * int (byte c div 16) + int (byte c mod 16)"
    by (simp add: digits_val_def z hex_digit_value(2) d del: of_nat_mod of_nat_div)
  also have "\<dots> = int (16 * (byte c div 16) + byte c mod 16)" by (simp only: of_nat_add of_nat_mult of_nat_numeral)
  also have "16 * (byte c div 16) + byte c mod 16 = byte c" by (rule mult_div_mod_eq)
  finally show ?thesis by (simp add: hex4_def z hex_digit_value(1) d)
qed

definition short_escape :: "char \<Rightarrow> bool" where
  "short_escape c \<longleftrightarrow> c = CHR 0x22 \<or> c = CHR 0x5C \<or> c = CHR 0x08 \<or> c = CHR 0x0C \<or> c = CHR 0x0A \<or> c = CHR 0x0D \<or> c = CHR 0x09"

lemma read_escaped:
  assumes "read_string s = Some (v, rest)"
  shows "read_string (escape_char c @ s) = Some (c # v, rest)"
proof (cases "short_escape c")
  case True
  then show ?thesis using assms unfolding short_escape_def
    by (elim disjE) (simp_all add: escape_char_def simple_escape_def byte_def)
next
  case long: False
  show ?thesis
  proof (cases "byte c < 32")
    case True
    then have e: "escape_char c =
        [CHR 0x5C, CHR ''u'', CHR ''0'', CHR ''0'', hex_digit (byte c div 16), hex_digit (byte c mod 16)]"
      using long by (simp add: escape_char_def short_escape_def)
    have u: "simple_escape (CHR ''u'') = None" "\<not> byte (CHR 0x5C) < 32" by (simp_all add: simple_escape_def byte_def)
    show ?thesis using True assms
      by (simp add: e u control_hex4 utf8_def)
  next
    case False
    with long have "escape_char c = [c]" "c \<noteq> CHR 0x22" "c \<noteq> CHR 0x5C" by (simp_all add: escape_char_def short_escape_def)
    with False assms show ?thesis by simp
  qed
qed

lemma read_string_escaped: "read_string (concat (map escape_char s) @ CHR 0x22 # rest) = Some (s, rest)"
  by (induction s) (simp_all add: read_escaped)

lemma quote_append: "quote s @ rest = CHR 0x22 # (concat (map escape_char s) @ CHR 0x22 # rest)"
  by (simp add: quote_def)

end
