(* ===== verification/JsConvert.thy ===== *)
theory JsConvert
  imports JsValue Async
begin

text \<open>
  The partial operations on JavaScript values: conversions that throw, iteration, truth values and
  the string methods of the sources. An operation that throws a \<open>TypeError\<close> is \<open>Inl\<close>.
\<close>

section \<open>Sequencing\<close>

definition and_then :: "thrown + 'a \<Rightarrow> ('a \<Rightarrow> thrown + 'b) \<Rightarrow> thrown + 'b" where
  "and_then r f = (case r of Inl e \<Rightarrow> Inl e | Inr a \<Rightarrow> f a)"

lemma and_then_Inr: "and_then r f = Inr b \<longleftrightarrow> (\<exists>a. r = Inr a \<and> f a = Inr b)"
  by (cases r) (auto simp: and_then_def)

lemma and_then_simps [simp]: "and_then (Inr a) f = f a" "and_then (Inl e) f = Inl e"
  by (simp_all add: and_then_def)

lemma and_then_iff: "(\<exists>b. and_then r f = Inr b) \<longleftrightarrow> (\<exists>a. r = Inr a \<and> (\<exists>b. f a = Inr b))"
  by (auto simp: and_then_Inr)

text \<open>A loop whose body may throw.\<close>

fun fold_then :: "('a \<Rightarrow> 's \<Rightarrow> thrown + 's) \<Rightarrow> 'a list \<Rightarrow> 's \<Rightarrow> thrown + 's" where
  "fold_then f [] s = Inr s"
| "fold_then f (x # xs) s = and_then (f x s) (fold_then f xs)"

definition type_error :: "string \<Rightarrow> thrown" where
  "type_error m = error_of PlainError m"

section \<open>Conversions\<close>

text \<open>\<open>String(v)\<close> for a value read from JSON. An object whose own member \<open>toString\<close> hides the inherited
  method cannot be converted: the conversion throws a \<open>TypeError\<close>.\<close>

fun unconvertible :: "jsval \<Rightarrow> bool" where
  "unconvertible (JObj ps) = (''toString'' \<in> fst ` set ps)"
| "unconvertible (JArr vs) = list_ex unconvertible vs"
| "unconvertible _ = False"

definition string_of :: "jsval \<Rightarrow> thrown + string" where
  "string_of v =
     (if unconvertible v then Inl (error_of PlainError ''Cannot convert object to primitive value'')
      else Inr (js_String v))"

definition number_of :: "jsval \<Rightarrow> thrown + jsnum" where
  "number_of v =
     (if unconvertible v then Inl (error_of PlainError ''Cannot convert object to primitive value'')
      else Inr (js_Number v))"

text \<open>\<open>typeof v === 'object' && v !== null\<close>.\<close>

fun is_object :: "jsval \<Rightarrow> bool" where
  "is_object (JObj _) = True"
| "is_object (JArr _) = True"
| "is_object _ = False"

fun truthy :: "jsval \<Rightarrow> bool" where
  "truthy JUndefined = False"
| "truthy JNull = False"
| "truthy (JBool b) = b"
| "truthy (JNum n) = (n \<noteq> Fin 0 \<and> n \<noteq> NaN)"
| "truthy (JStr s) = (s \<noteq> [])"
| "truthy _ = True"

text \<open>\<open>v.name\<close>, which throws on \<open>undefined\<close> and \<open>null\<close>.\<close>

definition member_of :: "jsval \<Rightarrow> string \<Rightarrow> thrown + jsval" where
  "member_of v name =
     (if nullish v then Inl (type_error ''Cannot read properties of undefined or null'') else Inr (js_get v name))"

text \<open>\<open>for (const x of v ?? [])\<close>. Iterating a string gives one-character strings.\<close>

fun iterate :: "jsval \<Rightarrow> thrown + jsval list" where
  "iterate (JArr vs) = Inr vs"
| "iterate (JStr s) = Inr (map (\<lambda>c. JStr [c]) s)"
| "iterate JUndefined = Inr []"
| "iterate JNull = Inr []"
| "iterate _ = Inl (type_error ''not iterable'')"

text \<open>What iterating a value gives, and whether it can be iterated at all.\<close>

definition elems :: "jsval \<Rightarrow> jsval list" where
  "elems v = (case iterate v of Inr vs \<Rightarrow> vs | Inl _ \<Rightarrow> [])"

definition iterable :: "jsval \<Rightarrow> bool" where
  "iterable v \<longleftrightarrow> (\<exists>vs. iterate v = Inr vs)"

lemma iterate_elems: "iterate v = Inr vs \<longleftrightarrow> iterable v \<and> vs = elems v"
  by (auto simp: iterable_def elems_def)

section \<open>Strings\<close>

definition js_trim :: "string \<Rightarrow> string" where
  "js_trim s = trim_right (trim_left s)"

text \<open>\<open>s.split(c)\<close> for a one-character separator.\<close>

fun split_on :: "char \<Rightarrow> string \<Rightarrow> string list" where
  "split_on c [] = [[]]"
| "split_on c (x # xs) =
     (if x = c then [] # split_on c xs
      else (case split_on c xs of [] \<Rightarrow> [[x]] | l # ls \<Rightarrow> (x # l) # ls))"

lemma split_on_not_Nil [simp]: "split_on c s \<noteq> []"
  by (induction s) (auto split: list.splits)

lemma split_on_join: "join_with [c] (split_on c s) = s"
proof (induction s)
  case (Cons x xs)
  obtain l ls where "split_on c xs = l # ls" by (cases "split_on c xs") auto
  with Cons show ?case by (cases ls) auto
qed simp

end
