(* ===== verification/Notifications.thy ===== *)
theory Notifications
  imports Json JsConvert Orders_Store Auth_Guard
begin

text \<open>
  The reading and recording half of notification-worker: \<open>messaging/order-created.event.ts\<close> (what a message
  must contain), \<open>notifications/notifications.service.ts\<close> with its table, and
  \<open>notifications/notifications.controller.ts\<close>.
\<close>

section \<open>The event\<close>

record order_created_event =
  oc_eventId :: string
  oc_correlationId :: string
  oc_orderId :: string
  oc_userId :: string

definition permanent :: "string \<Rightarrow> thrown" where
  "permanent msg = error_of PermanentError msg"

fun uuid_field :: "jsval \<Rightarrow> string \<Rightarrow> thrown + string" where
  "uuid_field (JStr s) name = (if uuid_test s then Inr s else Inl (permanent (name @ '' must be a UUID'')))"
| "uuid_field _ name = Inl (permanent (name @ '' must be a UUID''))"

definition parseOrderCreated :: "string \<Rightarrow> thrown + order_created_event" where
  "parseOrderCreated content =
     (case json_parse content of
        None \<Rightarrow> Inl (permanent ''message body is not valid JSON'')
      | Some body \<Rightarrow>
          if \<not> is_object body then Inl (permanent ''message body must be an object'')
          else if js_get body ''type'' \<noteq> JStr ''order.created''
          then (case string_of (js_get body ''type'') of
                  Inl e \<Rightarrow> Inl e
                | Inr t \<Rightarrow> Inl (permanent (''unexpected event type: '' @ t)))
          else (case uuid_field (js_get body ''eventId'') ''eventId'' of
            Inl e \<Rightarrow> Inl e
          | Inr eid \<Rightarrow>
              (case uuid_field (js_get (js_get body ''data'') ''orderId'') ''data.orderId'' of
                 Inl e \<Rightarrow> Inl e
               | Inr oid \<Rightarrow>
                   (case uuid_field (js_get (js_get body ''data'') ''userId'') ''data.userId'' of
                      Inl e \<Rightarrow> Inl e
                    | Inr uid \<Rightarrow>
                        Inr \<lparr>oc_eventId = eid,
                             oc_correlationId = (case js_get body ''correlationId'' of JStr c \<Rightarrow> c | _ \<Rightarrow> ''unknown''),
                             oc_orderId = oid, oc_userId = uid\<rparr>))))"

definition event_wf :: "order_created_event \<Rightarrow> bool" where
  "event_wf ev \<longleftrightarrow> uuid_test (oc_eventId ev) \<and> uuid_test (oc_orderId ev) \<and> uuid_test (oc_userId ev)"

lemma uuid_field_Inr: "uuid_field v name = Inr s \<longleftrightarrow> v = JStr s \<and> uuid_test s"
  by (cases v) auto

lemma uuid_field_Inl: "uuid_field v name = Inl e \<Longrightarrow> e = permanent (name @ '' must be a UUID'')"
  by (cases v) (auto split: if_splits)

lemma parseOrderCreated_wf: "parseOrderCreated content = Inr ev \<Longrightarrow> event_wf ev"
  by (auto simp: parseOrderCreated_def event_wf_def uuid_field_Inr split: option.splits if_splits sum.splits)

section \<open>The table\<close>

record notification =
  note_id :: string
  note_eventId :: string
  note_orderId :: string
  note_userId :: string
  note_createdAt :: nat

text \<open>A statement may fail, and one that takes effect may still lose its answer.\<close>

record notif_env =
  ne_fail :: "nat \<Rightarrow> thrown option"
  ne_lost :: "nat \<Rightarrow> thrown option"
  ne_uuid :: "nat \<Rightarrow> string"
  ne_now :: "nat \<Rightarrow> nat"

record notif_world = obs +
  note_rows :: "notification list"
  note_stmts :: nat

text \<open>\<open>INSERT ... ON CONFLICT (event_id) DO NOTHING RETURNING id\<close>: the ids returned and the table after. The
  conflict clause names \<open>event_id\<close> only, so a taken primary key is still an error.\<close>

definition insert_notification ::
  "string \<Rightarrow> nat \<Rightarrow> order_created_event \<Rightarrow> notification list \<Rightarrow> thrown + string list \<times> notification list" where
  "insert_notification i now ev ns =
     (case (pg_uuid (oc_eventId ev), pg_uuid (oc_orderId ev), pg_uuid (oc_userId ev)) of
        (Inr eid, Inr oid, Inr uid) \<Rightarrow>
          if eid \<in> note_eventId ` set ns then Inr ([], ns)
          else if i \<in> note_id ` set ns then Inl (pg_error ''23505'' (Some ''notifications_pkey'') ''duplicate key value'')
          else Inr ([i], ns @ [\<lparr>note_id = i, note_eventId = eid, note_orderId = oid, note_userId = uid,
                                 note_createdAt = now\<rparr>])
      | _ \<Rightarrow> Inl (pg_error ''22P02'' None ''invalid input syntax for type uuid''))"

definition note_query ::
  "notif_env \<Rightarrow> (nat \<Rightarrow> notification list \<Rightarrow> thrown + 'a \<times> notification list) \<Rightarrow> ('z notif_world_scheme, 'a) io" where
  "note_query env q = (\<lambda>w.
     let n = note_stmts w; w' = w\<lparr>note_stmts := Suc n\<rparr> in
     case ne_fail env n of
       Some e \<Rightarrow> (Inl e, w')
     | None \<Rightarrow> (case q n (note_rows w) of Inl e \<Rightarrow> (Inl e, w') | Inr (a, ns) \<Rightarrow>
         (case ne_lost env n of Some e \<Rightarrow> Inl e | None \<Rightarrow> Inr a, w'\<lparr>note_rows := ns\<rparr>)))"

definition event_ctx :: "order_created_event \<Rightarrow> string" where
  "event_ctx ev = ''eventId='' @ oc_eventId ev @ '' orderId='' @ oc_orderId ev @ '' userId='' @ oc_userId ev
     @ '' correlationId='' @ oc_correlationId ev"

definition notifications_record :: "notif_env \<Rightarrow> order_created_event \<Rightarrow> ('z notif_world_scheme, bool) io" where
  "notifications_record env ev =
     bind_io (note_query env (\<lambda>n. insert_notification (ne_uuid env n) (ne_now env n) ev)) (\<lambda>rows.
       if rows = [] then seq_io (log_io Info (''notification.duplicate_ignored '' @ event_ctx ev)) (return_io False)
       else seq_io (log_io Info (''notification.sent '' @ event_ctx ev)) (return_io True))"

text \<open>\<open>findByOrder\<close>: the rows of the order, of one user where one is given, oldest first.\<close>

definition select_notifications ::
  "string \<Rightarrow> string option \<Rightarrow> notification list \<Rightarrow> thrown + notification list" where
  "select_notifications orderId userId ns =
     (case (pg_uuid orderId, case userId of None \<Rightarrow> Inr None | Some u \<Rightarrow> map_sum id Some (pg_uuid u)) of
        (Inr oid, Inr uid) \<Rightarrow>
          Inr (sort_key note_createdAt
            (filter (\<lambda>r. note_orderId r = oid \<and> (uid = None \<or> Some (note_userId r) = uid)) ns))
      | (Inl e, _) \<Rightarrow> Inl e
      | (_, Inl e) \<Rightarrow> Inl e)"

definition findByOrder ::
  "notif_env \<Rightarrow> string \<Rightarrow> string option \<Rightarrow> ('z notif_world_scheme, notification list) io" where
  "findByOrder env orderId userId =
     note_query env (\<lambda>_ ns. map_sum id (\<lambda>rs. (rs, ns)) (select_notifications orderId userId ns))"

text \<open>\<open>NotificationsController.byOrder\<close>; the framework's \<open>ParseUUIDPipe\<close> is the parameter \<open>pipe\<close>.\<close>

definition byOrder ::
  "notif_env \<Rightarrow> (string \<Rightarrow> thrown + string) \<Rightarrow> string \<Rightarrow> principal \<Rightarrow> ('z notif_world_scheme, notification list) io" where
  "byOrder env pipe rawId p =
     bind_io (lift_io (pipe rawId)) (\<lambda>orderId. findByOrder env orderId (if isAdmin p then None else Some (sub p)))"

section \<open>Recording is idempotent\<close>

definition notes_ok :: "notification list \<Rightarrow> bool" where
  "notes_ok ns \<longleftrightarrow> distinct (map note_id ns) \<and> distinct (map note_eventId ns)
     \<and> (\<forall>r\<in>set ns. canonical_uuid (note_eventId r) \<and> canonical_uuid (note_orderId r) \<and> canonical_uuid (note_userId r))"

lemma insert_notification_ok:
  "notes_ok ns \<Longrightarrow> insert_notification i now ev ns = Inr (rows, ns') \<Longrightarrow> notes_ok ns'"
  by (auto simp: insert_notification_def pg_uuid_def notes_ok_def split: if_splits)

text \<open>The row an event leaves, up to the generated columns.\<close>

definition row_of :: "order_created_event \<Rightarrow> notification \<Rightarrow> bool" where
  "row_of ev r \<longleftrightarrow> note_eventId r = toLowerCase (oc_eventId ev) \<and> note_orderId r = toLowerCase (oc_orderId ev)
     \<and> note_userId r = toLowerCase (oc_userId ev)"

definition recorded :: "order_created_event \<Rightarrow> notification list \<Rightarrow> bool" where
  "recorded ev ns \<longleftrightarrow> toLowerCase (oc_eventId ev) \<in> note_eventId ` set ns"

lemma record_run:
  fixes w :: "'z notif_world_scheme"
  assumes "event_wf ev" "notifications_record env ev w = (r, w')"
  shows "(note_rows w' = note_rows w \<or> \<not> recorded ev (note_rows w) \<and> (\<exists>x. row_of ev x \<and> note_rows w' = note_rows w @ [x]))
    \<and> (r = Inr True \<longrightarrow> \<not> recorded ev (note_rows w) \<and> recorded ev (note_rows w'))
    \<and> (r = Inr False \<longrightarrow> recorded ev (note_rows w))"
  using assms
  by (auto simp: notifications_record_def note_query_def insert_notification_def pg_uuid_def event_wf_def
      obs_defs io_defs Let_def recorded_def row_of_def split: option.splits if_splits)

lemma note_query_ok:
  assumes "\<And>n ns a ns'. notes_ok ns \<Longrightarrow> q n ns = Inr (a, ns') \<Longrightarrow> notes_ok ns'"
  shows "preserves (\<lambda>w. notes_ok (note_rows w)) (note_query env q)"
  using assms by (auto simp: preserves_def note_query_def Let_def split: option.split sum.split)

lemma record_ok: "preserves (\<lambda>w. notes_ok (note_rows w)) (notifications_record env ev)"
proof -
  have log: "preserves (\<lambda>w. notes_ok (note_rows w)) (log_io l m)" for l m
    by (simp add: preserves_def log_io_def modify_io_def)
  have ins: "preserves (\<lambda>w. notes_ok (note_rows w))
      (note_query env (\<lambda>n. insert_notification (ne_uuid env n) (ne_now env n) ev))"
    by (rule note_query_ok) (rule insert_notification_ok)
  show ?thesis
    unfolding notifications_record_def by (rule preserves_bind [OF ins]) (auto intro!: preserves_seq log)
qed

section \<open>Reading\<close>

lemma visible_rows:
  assumes "pipe raw = Inr i" "fst (byOrder env pipe raw p w) = Inr rs"
  shows "set rs = {r \<in> set (note_rows w). note_orderId r = toLowerCase i
                    \<and> (isAdmin p \<or> note_userId r = toLowerCase (sub p))}"
  using assms
  by (auto simp: byOrder_def findByOrder_def note_query_def select_notifications_def pg_uuid_def io_defs Let_def
      split: option.splits if_splits)

text \<open>\<open>GET /v1/notifications\<close> gives a caller exactly the stored notifications of the order that the caller
  may see, oldest first: all of them to an admin, and to a customer only the customer's own.\<close>

lemma notifications_visible:
  assumes "pipe raw = Inr i" "fst (byOrder env pipe raw p w) = Inr rs"
  shows "set rs = {r \<in> set (note_rows w). note_orderId r = toLowerCase i
                    \<and> (isAdmin p \<or> note_userId r = toLowerCase (sub p))}
       \<and> sorted (map note_createdAt rs) \<and> note_rows (snd (byOrder env pipe raw p w)) = note_rows w"
  using assms visible_rows [OF assms]
  by (auto simp: byOrder_def findByOrder_def note_query_def select_notifications_def pg_uuid_def io_defs Let_def
      split: option.splits if_splits)

definition demo_note :: notification where
  "demo_note = \<lparr>note_id = ''0e37df36-f698-11e6-8dd4-cb9ced3df976'',
     note_eventId = ''5c146b14-3c52-4afd-938a-375d0df1fbf6'',
     note_orderId = ''6fa459ea-ee8a-4ca4-894e-db77e160355e'',
     note_userId = ''1b4e28ba-2fa1-41d2-883f-0016d3cca427'', note_createdAt = 7\<rparr>"

definition demo_notif_env :: notif_env where
  "demo_notif_env = \<lparr>ne_fail = (\<lambda>_. None), ne_lost = (\<lambda>_. None),
     ne_uuid = (\<lambda>_. ''0e37df36-f698-11e6-8dd4-cb9ced3df976''), ne_now = (\<lambda>_. 7)\<rparr>"

definition demo_notif_world :: notif_world where
  "demo_notif_world = \<lparr>logs = [], counters = [], note_rows = [demo_note], note_stmts = 0\<rparr>"

definition demo_customer :: principal where
  "demo_customer = \<lparr>sub = ''1b4e28ba-2fa1-41d2-883f-0016d3cca427'', roles = [''customer'']\<rparr>"

lemma notifications_visible_demo:
  "{r \<in> set (note_rows demo_notif_world). note_orderId r = toLowerCase ''6FA459EA-EE8A-4CA4-894E-DB77E160355E''
      \<and> (isAdmin demo_customer \<or> note_userId r = toLowerCase (sub demo_customer))} = {demo_note}"
proof -
  have run: "fst (byOrder demo_notif_env Inr ''6FA459EA-EE8A-4CA4-894E-DB77E160355E'' demo_customer demo_notif_world)
      = Inr [demo_note]"
    by code_simp
  show ?thesis
    using notifications_visible [where pipe = Inr, OF refl run] by simp
qed

end
