(* ===== verification/Consumer.thy ===== *)
theory Consumer
  imports Notifications
begin

text \<open>
  \<open>messaging/consumer.service.ts\<close> of notification-worker: what becomes of a delivered message
  (\<open>failedAttempts\<close>, \<open>handleMessage\<close>, \<open>handleFailure\<close>, \<open>deadLetter\<close>), against a channel whose every operation
  may fail, and the retry cycle through the broker: the locale \<open>retry_broker\<close> states what the worker
  relies on, and it is interpreted on the header the broker documents.
\<close>

section \<open>Messages and the channel\<close>

definition MAIN_QUEUE :: string where
  "MAIN_QUEUE = ''notification.order-created''"

definition DLQ :: string where
  "DLQ = ''notification.order-created.dlq''"

record message =
  msg_content :: string
  msg_contentType :: "string option"
  msg_messageId :: "string option"
  msg_correlationId :: "string option"
  msg_headers :: "(string \<times> jsval) list"

record dlq_props =
  dlq_contentType :: "string option"
  dlq_messageId :: "string option"
  dlq_correlationId :: "string option"
  dlq_headers :: "(string \<times> jsval) list"

datatype chan_op =
    Ack message
  | Nack message
  | Publish string string string dlq_props

text \<open>A channel answers an operation by the operations before it. For a publish it is the broker's
  confirm (or its timeout), for \<open>ack\<close> and \<open>nack\<close> an error is the one a closed channel throws. \<open>Nack\<close> is
  \<open>ch.nack(msg, false, false)\<close>: this message only, not back to its queue.\<close>

type_synonym channel = "chan_op list \<Rightarrow> thrown option"

record consumer_world = notif_world +
  chan_ops :: "chan_op list"

definition chan_call :: "channel \<Rightarrow> chan_op \<Rightarrow> ('z consumer_world_scheme, unit) io" where
  "chan_call ch c = (\<lambda>w.
     (case ch (chan_ops w @ [c]) of Some e \<Rightarrow> Inl e | None \<Rightarrow> Inr (), w\<lparr>chan_ops := chan_ops w @ [c]\<rparr>))"

record consumer_env =
  ce_notif :: notif_env
  ce_channel :: channel
  ce_maxAttempts :: nat

section \<open>Attempts so far\<close>

text \<open>One entry of the \<open>x-death\<close> header counts if it is a rejection from the main queue. Reading a property of
  a missing entry throws.\<close>

fun counts :: "jsval \<Rightarrow> thrown + bool" where
  "counts JUndefined = Inl (error_of PlainError ''Cannot read properties of undefined (reading 'queue')'')"
| "counts JNull = Inl (error_of PlainError ''Cannot read properties of null (reading 'queue')'')"
| "counts d = Inr (js_get d ''queue'' = JStr MAIN_QUEUE \<and> js_get d ''reason'' = JStr ''rejected'')"

fun filter_deaths :: "jsval list \<Rightarrow> thrown + jsval list" where
  "filter_deaths [] = Inr []"
| "filter_deaths (d # ds) =
     (case counts d of
        Inl e \<Rightarrow> Inl e
      | Inr b \<Rightarrow> map_sum id (\<lambda>rest. if b then d # rest else rest) (filter_deaths ds))"

text \<open>\<open>Number(d.count ?? 0)\<close>, which throws for an object whose own \<open>toString\<close> hides the inherited one, and the sum of the reduction.\<close>

definition death_count :: "jsval \<Rightarrow> thrown + jsnum" where
  "death_count d = number_of (js_or (js_get d ''count'') (JNum (Fin 0)))"

fun sum_deaths :: "jsnum \<Rightarrow> jsval list \<Rightarrow> thrown + jsnum" where
  "sum_deaths acc [] = Inr acc"
| "sum_deaths acc (d # ds) = and_then (death_count d) (\<lambda>n. sum_deaths (js_add acc n) ds)"

definition failedAttempts :: "message \<Rightarrow> thrown + jsnum" where
  "failedAttempts msg =
     (case map_of (msg_headers msg) ''x-death'' of
        Some (JArr deaths) \<Rightarrow> and_then (filter_deaths deaths) (sum_deaths (Fin 0))
      | _ \<Rightarrow> Inr (Fin 0))"

section \<open>Handling a message\<close>

definition or_unknown :: "string option \<Rightarrow> string" where
  "or_unknown v = (case v of Some s \<Rightarrow> s | None \<Rightarrow> ''unknown'')"

definition deadLetter :: "consumer_env \<Rightarrow> message \<Rightarrow> string \<Rightarrow> ('z consumer_world_scheme, unit) io" where
  "deadLetter env msg reason =
     (let headers = filter (\<lambda>(k, _). k \<noteq> ''x-death'') (msg_headers msg) in
      bind_io (lift_io (failedAttempts msg)) (\<lambda>failed.
        seq_io (chan_call (ce_channel env) (Publish '''' DLQ (msg_content msg)
            \<lparr>dlq_contentType = msg_contentType msg, dlq_messageId = msg_messageId msg,
             dlq_correlationId = msg_correlationId msg,
             dlq_headers = obj_set ''x-failed-attempts'' (JNum (js_add failed (Fin 1)))
               (obj_set ''x-failure-reason'' (JStr reason) headers)\<rparr>))
        (seq_io (chan_call (ce_channel env) (Ack msg))
          (log_io Error (''notification.dead_lettered messageId='' @ or_unknown (msg_messageId msg)
             @ '' correlationId='' @ or_unknown (msg_correlationId msg) @ '' reason='' @ reason)))))"

definition try_failure :: "consumer_env \<Rightarrow> message \<Rightarrow> thrown \<Rightarrow> ('z consumer_world_scheme, string) io" where
  "try_failure env msg err =
     (let cause = error_text err in
      if has_class PermanentError err
      then seq_io (deadLetter env msg (''permanent failure: '' @ cause)) (return_io ''dead_lettered'')
      else bind_io (lift_io (failedAttempts msg)) (\<lambda>failed.
        let attempts = js_add failed (Fin 1) in
        if js_ge attempts (Fin (of_nat (ce_maxAttempts env)))
        then seq_io (deadLetter env msg (''gave up after '' @ num_string attempts @ '' attempts: '' @ cause))
          (return_io ''dead_lettered'')
        else seq_io (log_io Warn (''notification.retry messageId='' @ or_unknown (msg_messageId msg) @ '' attempt=''
            @ num_string attempts @ ''/'' @ nat_string (ce_maxAttempts env) @ '' cause='' @ cause))
          (seq_io (chan_call (ce_channel env) (Nack msg)) (return_io ''retried''))))"

definition handleFailure :: "consumer_env \<Rightarrow> message \<Rightarrow> thrown \<Rightarrow> ('z consumer_world_scheme, string) io" where
  "handleFailure env msg err =
     catch_io (try_failure env msg err)
       (\<lambda>dlqErr.
          seq_io (log_io Error (''notification.dead_letter_failed messageId='' @ or_unknown (msg_messageId msg)
             @ '' cause='' @ message_of dlqErr))
          (seq_io (chan_call (ce_channel env) (Nack msg)) (return_io ''dead_letter_failed'')))"

definition record_and_ack :: "consumer_env \<Rightarrow> message \<Rightarrow> ('z consumer_world_scheme, string) io" where
  "record_and_ack env msg =
     bind_io (lift_io (parseOrderCreated (msg_content msg))) (\<lambda>ev.
       bind_io (notifications_record (ce_notif env) ev) (\<lambda>fresh.
         seq_io (chan_call (ce_channel env) (Ack msg)) (return_io (if fresh then ''processed'' else ''duplicate''))))"

definition handleMessage :: "consumer_env \<Rightarrow> message \<Rightarrow> ('z consumer_world_scheme, unit) io" where
  "handleMessage env msg =
     bind_io (catch_io (record_and_ack env msg) (handleFailure env msg)) (\<lambda>outcome.
       seq_io (count_io ''notification.messages'' [(''outcome'', outcome)])
         (count_io ''notification.processing.duration'' [(''outcome'', outcome)]))"

text \<open>The callback of the subscription with \<open>track\<close>: a cancelled consumer is told with \<open>null\<close>, and an error that escapes the
  handler is logged, never thrown into the client library.\<close>

definition track :: "('z obs_scheme, unit) io \<Rightarrow> ('z obs_scheme, unit) io" where
  "track work = catch_io work (\<lambda>err. log_io Error (''unhandled message error: '' @ message_of err))"

definition on_delivery :: "consumer_env \<Rightarrow> message option \<Rightarrow> ('z consumer_world_scheme, unit) io" where
  "on_delivery env m = (case m of None \<Rightarrow> return_io () | Some msg \<Rightarrow> track (handleMessage env msg))"

lemma on_delivery_never_throws: "\<exists>w'. on_delivery env m w = (Inr (), w')"
  by (cases m; cases "handleMessage env (the m) w"; cases "fst (handleMessage env (the m) w)")
    (auto simp: on_delivery_def track_def obs_defs io_defs)

section \<open>What becomes of a message\<close>

definition channel_works :: "consumer_env \<Rightarrow> bool" where
  "channel_works env \<longleftrightarrow> (\<forall>ops. ce_channel env ops = None)"

text \<open>What processing the message comes to before anything is said to the broker.\<close>

definition verdict :: "consumer_env \<Rightarrow> message \<Rightarrow> 'z consumer_world_scheme \<Rightarrow> thrown + bool" where
  "verdict env msg w =
     fst (bind_io (lift_io (parseOrderCreated (msg_content msg))) (notifications_record (ce_notif env)) w)"

definition gives_up :: "consumer_env \<Rightarrow> thrown \<Rightarrow> jsnum \<Rightarrow> bool" where
  "gives_up env err failed \<longleftrightarrow>
     has_class PermanentError err \<or> js_ge (js_add failed (Fin 1)) (Fin (of_nat (ce_maxAttempts env)))"

definition give_up_reason :: "thrown \<Rightarrow> jsnum \<Rightarrow> string" where
  "give_up_reason err failed =
     (if has_class PermanentError err then ''permanent failure: '' @ error_text err
      else ''gave up after '' @ num_string (js_add failed (Fin 1)) @ '' attempts: '' @ error_text err)"

definition dead_letter_op :: "message \<Rightarrow> string \<Rightarrow> jsnum \<Rightarrow> chan_op" where
  "dead_letter_op msg reason failed =
     Publish '''' DLQ (msg_content msg)
       \<lparr>dlq_contentType = msg_contentType msg, dlq_messageId = msg_messageId msg,
        dlq_correlationId = msg_correlationId msg,
        dlq_headers = obj_set ''x-failed-attempts'' (JNum (js_add failed (Fin 1)))
          (obj_set ''x-failure-reason'' (JStr reason) (filter (\<lambda>(k, _). k \<noteq> ''x-death'') (msg_headers msg)))\<rparr>"

lemma record_ops: "chan_ops (snd (notifications_record env ev w)) = chan_ops w"
  by (simp add: notifications_record_def note_query_def obs_defs io_defs Let_def split: option.split sum.split)

lemma handleFailure_works:
  assumes "channel_works env"
  shows "\<exists>out w'. handleFailure env msg err w = (Inr out, w') \<and> note_rows w' = note_rows w
    \<and> note_stmts w' = note_stmts w
    \<and> chan_ops w' = chan_ops w @ (case failedAttempts msg of
          Inl _ \<Rightarrow> [Nack msg]
        | Inr n \<Rightarrow> if gives_up env err n then [dead_letter_op msg (give_up_reason err n) n, Ack msg] else [Nack msg])"
  using assms
  by (cases "failedAttempts msg")
    (auto simp: handleFailure_def try_failure_def deadLetter_def channel_works_def chan_call_def gives_up_def
      give_up_reason_def dead_letter_op_def obs_defs io_defs Let_def)

definition settlement :: "consumer_env \<Rightarrow> message \<Rightarrow> thrown + bool \<Rightarrow> chan_op list" where
  "settlement env msg v =
     (case v of
        Inr _ \<Rightarrow> [Ack msg]
      | Inl err \<Rightarrow>
          (case failedAttempts msg of
             Inl _ \<Rightarrow> [Nack msg]
           | Inr n \<Rightarrow>
               if gives_up env err n then [dead_letter_op msg (give_up_reason err n) n, Ack msg] else [Nack msg]))"

text \<open>The rows processing leaves, whatever is then said to the broker.\<close>

definition processed_world :: "consumer_env \<Rightarrow> message \<Rightarrow> 'z consumer_world_scheme \<Rightarrow> 'z consumer_world_scheme" where
  "processed_world env msg w =
     snd (bind_io (lift_io (parseOrderCreated (msg_content msg))) (notifications_record (ce_notif env)) w)"

lemma processed_ops: "chan_ops (processed_world env msg w) = chan_ops w"
  by (simp add: processed_world_def bind_io_def lift_io_def record_ops split: sum.split)

lemma record_and_ack_eq:
  "record_and_ack env msg =
     bind_io (bind_io (lift_io (parseOrderCreated (msg_content msg))) (notifications_record (ce_notif env)))
       (\<lambda>fresh. seq_io (chan_call (ce_channel env) (Ack msg)) (return_io (if fresh then ''processed'' else ''duplicate'')))"
  by (simp add: record_and_ack_def bind_assoc)

lemma run_processing:
  "bind_io (lift_io (parseOrderCreated (msg_content msg))) (notifications_record (ce_notif env)) w =
     (verdict env msg w, processed_world env msg w)"
  by (simp add: verdict_def processed_world_def)

lemma ack_works:
  "channel_works env \<Longrightarrow>
     seq_io (chan_call (ce_channel env) (Ack msg)) (return_io x) w = (Inr x, w\<lparr>chan_ops := chan_ops w @ [Ack msg]\<rparr>)"
  by (simp add: channel_works_def chan_call_def io_defs)

lemma handleMessage_works:
  assumes "channel_works env"
  shows "fst (handleMessage env msg w) = Inr ()
    \<and> chan_ops (snd (handleMessage env msg w)) = chan_ops w @ settlement env msg (verdict env msg w)
    \<and> note_rows (snd (handleMessage env msg w)) = note_rows (processed_world env msg w)
    \<and> note_stmts (snd (handleMessage env msg w)) = note_stmts (processed_world env msg w)"
proof (cases "verdict env msg w")
  case (Inr fresh)
  then have "record_and_ack env msg w =
      (Inr (if fresh then ''processed'' else ''duplicate''),
       (processed_world env msg w)\<lparr>chan_ops := chan_ops w @ [Ack msg]\<rparr>)"
    by (simp add: record_and_ack_eq bind_io_def [of "bind_io _ _"] run_processing ack_works [OF assms] processed_ops)
  then show ?thesis
    using Inr by (simp add: handleMessage_def bind_io_def catch_io_def count_io_def modify_io_def seq_io_def settlement_def)
next
  case (Inl err)
  then have run: "record_and_ack env msg w = (Inl err, processed_world env msg w)"
    by (simp add: record_and_ack_eq bind_io_def [of "bind_io _ _"] run_processing)
  obtain out w' where "handleFailure env msg err (processed_world env msg w) = (Inr out, w')"
    "note_rows w' = note_rows (processed_world env msg w)" "note_stmts w' = note_stmts (processed_world env msg w)"
    "chan_ops w' = chan_ops w @ settlement env msg (Inl err)"
    using handleFailure_works [OF assms, of msg err "processed_world env msg w"]
    by (auto simp: settlement_def processed_ops)
  with run Inl show ?thesis
    by (simp add: handleMessage_def bind_io_def catch_io_def count_io_def modify_io_def seq_io_def)
qed

text \<open>A delivered message is settled exactly once, on every branch. On a channel that works,
  \<open>handleMessage\<close> ends and acknowledges a message it recorded (or that was recorded before); moves a
  permanently failing message, and one that failed for the last allowed time, to the dead letter queue
  with the reason and the number of attempts and acknowledges it after the confirm; and rejects every
  other one, which sends it to the retry queue.\<close>

lemma message_settled:
  assumes "channel_works env"
  shows "fst (handleMessage env msg w) = Inr ()
    \<and> chan_ops (snd (handleMessage env msg w)) = chan_ops w @
        (case verdict env msg w of
           Inr _ \<Rightarrow> [Ack msg]
         | Inl err \<Rightarrow>
             (case failedAttempts msg of
                Inl _ \<Rightarrow> [Nack msg]
              | Inr n \<Rightarrow>
                  if has_class PermanentError err \<or> js_ge (js_add n (Fin 1)) (Fin (of_nat (ce_maxAttempts env)))
                  then [dead_letter_op msg (give_up_reason err n) n, Ack msg] else [Nack msg]))"
  using handleMessage_works [OF assms, of msg w] unfolding settlement_def gives_up_def by blast

section \<open>No message is lost\<close>

lemma verdict_recorded:
  assumes "verdict env msg w = Inr fresh"
  shows "\<exists>ev. parseOrderCreated (msg_content msg) = Inr ev \<and> recorded ev (note_rows (processed_world env msg w))"
proof (cases "parseOrderCreated (msg_content msg)")
  case (Inl e)
  with assms show ?thesis by (simp add: verdict_def bind_io_def lift_io_def)
next
  case (Inr ev)
  obtain r w' where run: "notifications_record (ce_notif env) ev w = (r, w')" by fastforce
  then have "r = Inr fresh" "processed_world env msg w = w'"
    using assms Inr by (simp_all add: verdict_def processed_world_def bind_io_def lift_io_def)
  with record_run [OF parseOrderCreated_wf [OF Inr] run] Inr show ?thesis
    by (cases fresh) (auto simp: recorded_def)
qed

text \<open>The operations of \<open>handleFailure\<close>, for any channel: if there is an \<open>Ack\<close> among them, the first one was
  a publish to the dead letter queue that the broker confirmed.\<close>

lemma handleFailure_ops:
  fixes w :: "'z consumer_world_scheme"
  assumes "handleFailure env msg err w = (r, w')"
  shows "note_rows w' = note_rows w \<and> (\<exists>new. chan_ops w' = chan_ops w @ new
    \<and> (Ack msg \<in> set new \<longrightarrow>
        (\<exists>p post. new = Publish '''' DLQ (msg_content msg) p # post
           \<and> ce_channel env (chan_ops w @ [Publish '''' DLQ (msg_content msg) p]) = None)))"
  using assms
  by (cases "failedAttempts msg")
    (auto simp: handleFailure_def try_failure_def deadLetter_def chan_call_def obs_defs io_defs Let_def
      split: option.splits if_splits)

lemma record_and_ack_cases:
  fixes w :: "'z consumer_world_scheme"
  obtains (failed) err where "verdict env msg w = Inl err" "record_and_ack env msg w = (Inl err, processed_world env msg w)"
  | (recorded) fresh r2 w2 where "verdict env msg w = Inr fresh" "record_and_ack env msg w = (r2, w2)"
      "chan_ops w2 = chan_ops w @ [Ack msg]" "note_rows w2 = note_rows (processed_world env msg w)"
proof (cases "verdict env msg w")
  case (Inl err)
  then show thesis
    by (intro failed) (simp_all add: record_and_ack_eq bind_io_def [of "bind_io _ _"] run_processing)
next
  case (Inr fresh)
  let ?wp = "processed_world env msg w"
  obtain r2 w2 where ack: "seq_io (chan_call (ce_channel env) (Ack msg))
      (return_io (if fresh then ''processed'' else ''duplicate'')) ?wp = (r2, w2)" by fastforce
  then have "chan_ops w2 = chan_ops w @ [Ack msg]" "note_rows w2 = note_rows ?wp"
    by (auto simp: seq_io_def bind_io_def chan_call_def return_io_def processed_ops split: option.splits)
  moreover have "record_and_ack env msg w = (r2, w2)"
    using Inr ack by (simp add: record_and_ack_eq bind_io_def [of "bind_io _ _"] run_processing)
  ultimately show thesis using Inr recorded by blast
qed

lemma handleMessage_effect:
  fixes w :: "'z consumer_world_scheme"
  assumes "handleMessage env msg w = (r, w')"
  shows "note_rows w' = note_rows (processed_world env msg w)
    \<and> (\<exists>new. chan_ops w' = chan_ops w @ new
        \<and> (Ack msg \<notin> set new \<or> (\<exists>fresh. verdict env msg w = Inr fresh)
           \<or> (\<exists>p post. new = Publish '''' DLQ (msg_content msg) p # post
                \<and> ce_channel env (chan_ops w @ [Publish '''' DLQ (msg_content msg) p]) = None)))"
proof -
  obtain o1 w1 where inner: "catch_io (record_and_ack env msg) (handleFailure env msg) w = (o1, w1)" by fastforce
  then have w': "chan_ops w' = chan_ops w1" "note_rows w' = note_rows w1"
    using assms by (auto simp: handleMessage_def bind_io_def seq_io_def count_io_def modify_io_def split: sum.splits)
  show ?thesis
  proof (cases rule: record_and_ack_cases [of env msg w])
    case (failed err)
    with inner have "handleFailure env msg err (processed_world env msg w) = (o1, w1)" by (simp add: catch_io_def)
    from handleFailure_ops [OF this] show ?thesis unfolding processed_ops w' by blast
  next
    case (recorded fresh r2 w2)
    with inner have "note_rows w1 = note_rows (processed_world env msg w) \<and> (\<exists>new. chan_ops w1 = chan_ops w @ new)"
      using handleFailure_ops [of env msg _ w2 o1 w1] by (cases r2) (auto simp: catch_io_def)
    with recorded(1) w' show ?thesis by auto
  qed
qed

text \<open>No message is acknowledged before it is safe, whatever the database and the channel do: if
  \<open>handleMessage\<close> acknowledges a message, its event is recorded, or the broker has confirmed the copy in
  the dead letter queue.\<close>

lemma acked_is_safe:
  "\<exists>new. chan_ops (snd (handleMessage env msg w)) = chan_ops w @ new
    \<and> (Ack msg \<notin> set new
       \<or> (\<exists>ev. parseOrderCreated (msg_content msg) = Inr ev
            \<and> recorded ev (note_rows (snd (handleMessage env msg w))))
       \<or> (\<exists>p post. new = Publish '''' DLQ (msg_content msg) p # post
            \<and> ce_channel env (chan_ops w @ [Publish '''' DLQ (msg_content msg) p]) = None))"
proof -
  obtain r w' where run: "handleMessage env msg w = (r, w')" by fastforce
  from handleMessage_effect [OF run] verdict_recorded [of env msg w] show ?thesis by (auto simp: run)
qed

section \<open>At most one notification\<close>

text \<open>Any sequence of deliveries, redeliveries included.\<close>

fun deliver_all :: "consumer_env \<Rightarrow> message list \<Rightarrow> 'z consumer_world_scheme \<Rightarrow> 'z consumer_world_scheme" where
  "deliver_all env [] w = w"
| "deliver_all env (m # ms) w = deliver_all env ms (snd (handleMessage env m w))"

lemma handleMessage_rows:
  "note_rows (snd (handleMessage env msg w)) = note_rows (processed_world env msg w)"
  using handleMessage_effect by (cases "handleMessage env msg w") fastforce

lemma processed_rows:
  "note_rows (processed_world env msg w) = note_rows w
   \<or> (\<exists>ev x. parseOrderCreated (msg_content msg) = Inr ev \<and> row_of ev x \<and> \<not> recorded ev (note_rows w)
        \<and> note_rows (processed_world env msg w) = note_rows w @ [x])"
proof (cases "parseOrderCreated (msg_content msg)")
  case (Inr ev)
  then show ?thesis
    using record_run [OF parseOrderCreated_wf [OF Inr], of "ce_notif env" w]
    by (cases "notifications_record (ce_notif env) ev w") (auto simp: processed_world_def bind_io_def lift_io_def)
qed (simp add: processed_world_def bind_io_def lift_io_def)

lemma processed_ok: "notes_ok (note_rows w) \<Longrightarrow> notes_ok (note_rows (processed_world env msg w))"
  using record_ok [of "ce_notif env"]
  by (auto simp: processed_world_def bind_io_def lift_io_def preserves_def split: sum.split)

text \<open>An event gives at most one notification. After any sequence of deliveries (duplicates, redeliveries
  after a lost acknowledgement, failing statements and statements whose answer is lost), no two stored
  notifications have the same event id, the earlier ones are all still there, and every new one is the
  notification of a delivered event.\<close>

lemma at_most_one_notification:
  assumes "notes_ok (note_rows w)"
  shows "notes_ok (note_rows (deliver_all env ms w))
    \<and> (\<exists>new. note_rows (deliver_all env ms w) = note_rows w @ new
         \<and> (\<forall>x\<in>set new. \<exists>m\<in>set ms. \<exists>ev. parseOrderCreated (msg_content m) = Inr ev \<and> row_of ev x))"
  using assms
proof (induction ms arbitrary: w)
  case (Cons m ms)
  let ?w1 = "snd (handleMessage env m w)"
  have rows: "note_rows ?w1 = note_rows (processed_world env m w)" by (rule handleMessage_rows)
  have "notes_ok (note_rows ?w1)" using processed_ok [OF Cons.prems] rows by simp
  from Cons.IH [OF this] obtain new where ok: "notes_ok (note_rows (deliver_all env ms ?w1))"
    and new: "note_rows (deliver_all env ms ?w1) = note_rows ?w1 @ new"
      "\<forall>x\<in>set new. \<exists>m\<in>set ms. \<exists>ev. parseOrderCreated (msg_content m) = Inr ev \<and> row_of ev x" by blast
  from processed_rows [of env m w] obtain first where first: "note_rows ?w1 = note_rows w @ first"
    "\<forall>x\<in>set first. \<exists>ev. parseOrderCreated (msg_content m) = Inr ev \<and> row_of ev x"
    unfolding rows by force
  have "note_rows (deliver_all env (m # ms) w) = note_rows w @ (first @ new)" using new(1) first(1) by simp
  moreover have "\<forall>x\<in>set (first @ new). \<exists>m\<in>set (m # ms). \<exists>ev. parseOrderCreated (msg_content m) = Inr ev \<and> row_of ev x"
    using new(2) first(2) by auto
  ultimately show ?case using ok by auto
qed simp

section \<open>The retry cycle\<close>

text \<open>What the worker relies on: a rejected message comes back (through the retry queue) with the same
  content, and the header it arrives with counts one failed attempt more. The counts are doubles, which
  are exact below \<open>2 ^ 52\<close>.\<close>

locale retry_broker =
  fixes delivered :: "'q \<Rightarrow> message"
    and redeliver :: "'q \<Rightarrow> 'q"
    and rejections :: "'q \<Rightarrow> nat"
  assumes same_content: "msg_content (delivered (redeliver q)) = msg_content (delivered q)"
    and one_more: "rejections (redeliver q) = Suc (rejections q)"
    and counted: "rejections q < 2 ^ 52 \<Longrightarrow> failedAttempts (delivered q) = Inr (Fin (of_nat (rejections q)))"

text \<open>The life of a message: deliveries until one does not reject it. The result is the number of
  deliveries, \<open>None\<close> if the fuel ends first.\<close>

fun lifecycle :: "('q \<Rightarrow> message) \<Rightarrow> ('q \<Rightarrow> 'q) \<Rightarrow> consumer_env \<Rightarrow> nat \<Rightarrow> 'q \<Rightarrow> 'z consumer_world_scheme
    \<Rightarrow> nat option \<times> 'z consumer_world_scheme" where
  "lifecycle dlv rdl env 0 q w = (None, w)"
| "lifecycle dlv rdl env (Suc n) q w =
     (let w' = snd (handleMessage env (dlv q) w) in
      if last (chan_ops w') = Nack (dlv q)
      then (case lifecycle dlv rdl env n (rdl q) w' of (k, w'') \<Rightarrow> (map_option Suc k, w''))
      else (Some 1, w'))"

text \<open>The two good ends of a message, read off the world.\<close>

definition in_dlq :: "string \<Rightarrow> chan_op list \<Rightarrow> bool" where
  "in_dlq content ops \<longleftrightarrow> (\<exists>p. Publish '''' DLQ content p \<in> set ops)"

definition disposed :: "string \<Rightarrow> 'z consumer_world_scheme \<Rightarrow> bool" where
  "disposed content w \<longleftrightarrow>
     (\<exists>ev. parseOrderCreated content = Inr ev \<and> recorded ev (note_rows w)) \<or> in_dlq content (chan_ops w)"

lemma settlement_end:
  assumes "channel_works env"
  shows "(last (chan_ops (snd (handleMessage env msg w))) = Nack msg
           \<and> (\<exists>err. verdict env msg w = Inl err \<and> (\<forall>n. failedAttempts msg = Inr n \<longrightarrow> \<not> gives_up env err n)))
       \<or> (last (chan_ops (snd (handleMessage env msg w))) = Ack msg \<and> disposed (msg_content msg) (snd (handleMessage env msg w)))"
proof (cases "verdict env msg w")
  case (Inl err)
  then show ?thesis
    using handleMessage_works [OF assms, of msg w]
    by (cases "failedAttempts msg")
      (auto simp: settlement_def disposed_def in_dlq_def dead_letter_op_def)
next
  case (Inr fresh)
  then show ?thesis
    using handleMessage_works [OF assms, of msg w] verdict_recorded [OF Inr]
    by (auto simp: settlement_def disposed_def)
qed

context retry_broker
begin

lemma gives_up_at_max:
  assumes "rejections q < 2 ^ 51" "ce_maxAttempts env \<le> Suc (rejections q)"
  shows "\<exists>n. failedAttempts (delivered q) = Inr n \<and> gives_up env err n"
proof -
  have small: "rejections q < 2 ^ 52" "rejections q + 1 < 2 ^ 52" using assms(1) by simp_all
  have "js_add (Fin (of_nat (rejections q))) (Fin (of_nat 1)) = Fin (of_nat (rejections q + 1))"
    using small(2) by (rule js_add_of_nat)
  then have "js_ge (js_add (Fin (of_nat (rejections q))) (Fin 1)) (Fin (of_nat (ce_maxAttempts env)))"
    using assms(2) js_ge_of_nat [of "rejections q + 1" "ce_maxAttempts env"] by (simp del: js_add.simps)
  with counted [OF small(1)] show ?thesis by (auto simp: gives_up_def)
qed

lemma lifecycle_ends:
  assumes "channel_works env" "rejections q + n = ce_maxAttempts env" "0 < n" "ce_maxAttempts env < 2 ^ 51"
  shows "\<exists>k w'. lifecycle delivered redeliver env n q w = (Some k, w') \<and> 1 \<le> k \<and> k \<le> n
    \<and> disposed (msg_content (delivered q)) w'"
  using assms(2,3)
proof (induction n arbitrary: q w)
  case (Suc n)
  let ?w' = "snd (handleMessage env (delivered q) w)"
  from settlement_end [OF assms(1), of "delivered q" w] show ?case
  proof
    assume nack: "last (chan_ops ?w') = Nack (delivered q)
      \<and> (\<exists>err. verdict env (delivered q) w = Inl err
          \<and> (\<forall>n. failedAttempts (delivered q) = Inr n \<longrightarrow> \<not> gives_up env err n))"
    then have "0 < n"
      using gives_up_at_max [of q env] Suc.prems(1) assms(4) by (cases n) fastforce+
    moreover have "rejections (redeliver q) + n = ce_maxAttempts env" using Suc.prems(1) by (simp add: one_more)
    ultimately obtain k w' where "lifecycle delivered redeliver env n (redeliver q) ?w' = (Some k, w')"
      "1 \<le> k" "k \<le> n" "disposed (msg_content (delivered q)) w'"
      using Suc.IH [of "redeliver q" ?w'] by (auto simp: same_content)
    with nack show ?thesis by (simp add: Let_def)
  next
    assume "last (chan_ops ?w') = Ack (delivered q) \<and> disposed (msg_content (delivered q)) ?w'"
    then show ?thesis by (simp add: Let_def)
  qed
qed simp

end

section \<open>The header of the broker\<close>

text \<open>RabbitMQ keeps one entry per queue and reason, increments its count and moves it to the front. A
  message may come with other headers (the trace context travels there).\<close>

record death =
  death_queue :: string
  death_reason :: string
  death_times :: nat

record queued =
  q_content :: string
  q_contentType :: "string option"
  q_messageId :: "string option"
  q_correlationId :: "string option"
  q_headers :: "(string \<times> jsval) list"
  q_deaths :: "death list"

definition death_json :: "death \<Rightarrow> jsval" where
  "death_json d = JObj [(''count'', JNum (Fin (of_nat (death_times d)))), (''queue'', JStr (death_queue d)),
     (''reason'', JStr (death_reason d))]"

definition rabbit_delivered :: "queued \<Rightarrow> message" where
  "rabbit_delivered q =
     \<lparr>msg_content = q_content q, msg_contentType = q_contentType q, msg_messageId = q_messageId q,
      msg_correlationId = q_correlationId q,
      msg_headers = filter (\<lambda>(k, _). k \<noteq> ''x-death'') (q_headers q)
        @ (if q_deaths q = [] then [] else [(''x-death'', JArr (map death_json (q_deaths q)))])\<rparr>"

fun bump_death :: "string \<Rightarrow> string \<Rightarrow> death list \<Rightarrow> death \<times> death list" where
  "bump_death qn rs [] = (\<lparr>death_queue = qn, death_reason = rs, death_times = 1\<rparr>, [])"
| "bump_death qn rs (d # ds) =
     (if death_queue d = qn \<and> death_reason d = rs then (d\<lparr>death_times := Suc (death_times d)\<rparr>, ds)
      else (case bump_death qn rs ds of (e, rest) \<Rightarrow> (e, d # rest)))"

definition dead_lettered :: "string \<Rightarrow> string \<Rightarrow> death list \<Rightarrow> death list" where
  "dead_lettered qn rs ds = (case bump_death qn rs ds of (e, rest) \<Rightarrow> e # rest)"

text \<open>Rejected from the main queue to the retry queue, and back when its time there expires.\<close>

definition RETRY_QUEUE :: string where
  "RETRY_QUEUE = ''notification.order-created.retry''"

definition rabbit_redeliver :: "queued \<Rightarrow> queued" where
  "rabbit_redeliver q = q\<lparr>q_deaths :=
     dead_lettered RETRY_QUEUE ''expired'' (dead_lettered MAIN_QUEUE ''rejected'' (q_deaths q))\<rparr>"

definition own_rejections :: "death list \<Rightarrow> nat" where
  "own_rejections ds =
     sum_list (map death_times (filter (\<lambda>d. death_queue d = MAIN_QUEUE \<and> death_reason d = ''rejected'') ds))"

definition rabbit_rejections :: "queued \<Rightarrow> nat" where
  "rabbit_rejections q = own_rejections (q_deaths q)"

lemma own_rejections_simps [simp]:
  "own_rejections [] = 0"
  "own_rejections (d # ds) =
     (if death_queue d = MAIN_QUEUE \<and> death_reason d = ''rejected'' then death_times d else 0) + own_rejections ds"
  by (simp_all add: own_rejections_def)

lemma own_rejections_bump:
  "bump_death qn rs ds = (e, rest) \<Longrightarrow>
     own_rejections (e # rest) = own_rejections ds + (if qn = MAIN_QUEUE \<and> rs = ''rejected'' then 1 else 0)"
  by (induction ds arbitrary: e rest) (auto split: if_splits prod.splits)

lemma own_rejections_dead_lettered:
  "own_rejections (dead_lettered qn rs ds) = own_rejections ds + (if qn = MAIN_QUEUE \<and> rs = ''rejected'' then 1 else 0)"
  unfolding dead_lettered_def by (cases "bump_death qn rs ds") (auto dest: own_rejections_bump)

lemma filter_deaths_json:
  "filter_deaths (map death_json ds) =
     Inr (map death_json (filter (\<lambda>d. death_queue d = MAIN_QUEUE \<and> death_reason d = ''rejected'') ds))"
  by (induction ds) (auto simp: death_json_def)

lemma death_count_json: "death_count (death_json d) = Inr (Fin (of_nat (death_times d)))"
  by (simp add: death_count_def number_of_def death_json_def js_or_def)

lemma sum_deaths_json:
  "a + sum_list (map death_times ds) < 2 ^ 52 \<Longrightarrow>
     sum_deaths (Fin (of_nat a)) (map death_json ds) = Inr (Fin (of_nat (a + sum_list (map death_times ds))))"
proof (induction ds arbitrary: a)
  case (Cons d ds)
  then have "js_add (Fin (of_nat a)) (Fin (of_nat (death_times d))) = Fin (of_nat (a + death_times d))"
    by (intro js_add_of_nat) simp
  with Cons.IH [of "a + death_times d"] Cons.prems show ?case
    by (simp add: death_count_json add.assoc del: js_add.simps of_nat_add)
qed simp

lemma no_other_deaths: "map_of (filter (\<lambda>(k, _). k \<noteq> ''x-death'') hs) ''x-death'' = None"
  by (auto simp: map_of_eq_None_iff)

interpretation rabbit: retry_broker rabbit_delivered rabbit_redeliver rabbit_rejections
proof (unfold_locales, goal_cases)
  case (1 q)
  then show ?case by (simp add: rabbit_delivered_def rabbit_redeliver_def)
next
  case (2 q)
  then show ?case
    by (simp add: rabbit_rejections_def rabbit_redeliver_def own_rejections_dead_lettered RETRY_QUEUE_def MAIN_QUEUE_def)
next
  case (3 q)
  show ?case
  proof (cases "q_deaths q = []")
    case True
    then show ?thesis by (simp add: failedAttempts_def rabbit_delivered_def rabbit_rejections_def no_other_deaths)
  next
    case False
    with 3 sum_deaths_json [of 0] show ?thesis
      by (simp add: failedAttempts_def rabbit_delivered_def rabbit_rejections_def own_rejections_def filter_deaths_json
          no_other_deaths map_add_def)
  qed
qed

text \<open>Every message comes to an end within \<open>MAX_ATTEMPTS\<close> deliveries. A message that enters the queue is
  delivered at most \<open>MAX_ATTEMPTS\<close> times (through the retry queue in between), and then its event is
  recorded or it is in the dead letter queue, whatever the database does.\<close>

lemma retries_are_bounded:
  assumes "channel_works env" "1 \<le> ce_maxAttempts env" "ce_maxAttempts env \<le> 100" "q_deaths q = []"
  shows "\<exists>k w'. lifecycle rabbit_delivered rabbit_redeliver env (ce_maxAttempts env) q w = (Some k, w')
    \<and> k \<le> ce_maxAttempts env \<and> disposed (q_content q) w'"
  using rabbit.lifecycle_ends [OF assms(1), of q "ce_maxAttempts env" w] assms(2-4)
  by (auto simp: rabbit_rejections_def rabbit_delivered_def)

section \<open>Runs\<close>

text \<open>A message as order-service would publish it, on a channel that works.\<close>

definition demo_event_text :: string where
  "demo_event_text = json_string (JObj [
     (''eventId'', JStr ''5c146b14-3c52-4afd-938a-375d0df1fbf6''), (''type'', JStr ''order.created''),
     (''correlationId'', JStr ''r1''),
     (''data'', JObj [(''orderId'', JStr ''6fa459ea-ee8a-4ca4-894e-db77e160355e''),
        (''userId'', JStr ''1b4e28ba-2fa1-41d2-883f-0016d3cca427'')])])"

definition demo_queued :: queued where
  "demo_queued = \<lparr>q_content = demo_event_text, q_contentType = Some ''application/json'', q_messageId = Some ''m1'',
     q_correlationId = Some ''r1'',
     q_headers = [(''traceparent'', JStr ''00-4bf92f3577b34da6a3ce929d0e0e4736-00f067aa0ba902b7-01'')], q_deaths = []\<rparr>"

definition demo_consumer_env :: "(nat \<Rightarrow> thrown option) \<Rightarrow> consumer_env" where
  "demo_consumer_env fail = \<lparr>ce_notif = demo_notif_env\<lparr>ne_fail := fail\<rparr>, ce_channel = (\<lambda>_. None), ce_maxAttempts = 3\<rparr>"

definition demo_consumer_world :: consumer_world where
  "demo_consumer_world = \<lparr>logs = [], counters = [], note_rows = [], note_stmts = 0, chan_ops = []\<rparr>"

lemma demo_channel_works: "channel_works (demo_consumer_env fail)"
  by (simp add: channel_works_def demo_consumer_env_def)

lemma demo_max_attempts: "ce_maxAttempts (demo_consumer_env fail) = 3"
  by (simp add: demo_consumer_env_def)

lemma message_settled_demo:
  "chan_ops (snd (handleMessage (demo_consumer_env (\<lambda>_. None)) (rabbit_delivered demo_queued) demo_consumer_world))
     = [Ack (rabbit_delivered demo_queued)]"
proof -
  have "verdict (demo_consumer_env (\<lambda>_. None)) (rabbit_delivered demo_queued) demo_consumer_world = Inr True"
    by code_simp
  moreover have "chan_ops demo_consumer_world = []" by (simp add: demo_consumer_world_def)
  ultimately show ?thesis
    using message_settled [OF demo_channel_works, of "\<lambda>_. None" "rabbit_delivered demo_queued" demo_consumer_world] by simp
qed

lemma demo_message_acked:
  "chan_ops (snd (handleMessage (demo_consumer_env (\<lambda>_. None)) (rabbit_delivered demo_queued) demo_consumer_world))
     = [Ack (rabbit_delivered demo_queued)]"
  by code_simp

lemma acked_is_safe_demo:
  "\<exists>ev. parseOrderCreated (msg_content (rabbit_delivered demo_queued)) = Inr ev
     \<and> recorded ev (note_rows (snd (handleMessage (demo_consumer_env (\<lambda>_. None)) (rabbit_delivered demo_queued) demo_consumer_world)))"
  using acked_is_safe [of "demo_consumer_env (\<lambda>_. None)" "rabbit_delivered demo_queued" demo_consumer_world] demo_message_acked
  by (auto simp: demo_consumer_world_def)

lemma at_most_one_notification_demo:
  "notes_ok (note_rows (deliver_all (demo_consumer_env (\<lambda>_. None))
     [rabbit_delivered demo_queued, rabbit_delivered demo_queued] demo_consumer_world))"
  using at_most_one_notification [of demo_consumer_world "demo_consumer_env (\<lambda>_. None)"
      "[rabbit_delivered demo_queued, rabbit_delivered demo_queued]"]
  by (simp add: demo_consumer_world_def notes_ok_def)

text \<open>With the database down for good.\<close>

lemma retries_are_bounded_demo:
  "\<exists>k w'. lifecycle rabbit_delivered rabbit_redeliver (demo_consumer_env (\<lambda>_. Some (error_of PlainError ''down''))) 3
       demo_queued demo_consumer_world = (Some k, w') \<and> k \<le> 3 \<and> disposed demo_event_text w'"
proof -
  have "q_deaths demo_queued = []" "q_content demo_queued = demo_event_text" by (simp_all add: demo_queued_def)
  then show ?thesis
    using retries_are_bounded [OF demo_channel_works, of "\<lambda>_. Some (error_of PlainError ''down'')" demo_queued
        demo_consumer_world]
    by (simp add: demo_max_attempts del: lifecycle.simps)
qed

section \<open>Malformed messages\<close>

text \<open>A message that is no \<open>order.created\<close> event fails for good, with one exception: a \<open>type\<close> that cannot be
  converted to a string makes the construction of the message text throw, and that error is not
  marked as permanent. A message that parses has UUIDs in all three id fields.\<close>

lemma malformed_is_permanent:
  "case parseOrderCreated content of
     Inr ev \<Rightarrow> uuid_test (oc_eventId ev) \<and> uuid_test (oc_orderId ev) \<and> uuid_test (oc_userId ev)
   | Inl e \<Rightarrow> has_class PermanentError e
       \<or> (\<exists>body. json_parse content = Some body \<and> unconvertible (js_get body ''type''))"
  using parseOrderCreated_wf [of content]
  by (auto simp: parseOrderCreated_def permanent_def error_of_def string_of_def event_wf_def dest!: uuid_field_Inl
      split: sum.split option.split if_splits sum.splits option.splits)

definition demo_poisoned_text :: string where
  "demo_poisoned_text = json_string (JObj [(''type'', JObj [(''toString'', JNull)])])"

lemma poisoned_type_is_retried:
  fixes m :: message
  defines "m \<equiv> rabbit_delivered (demo_queued\<lparr>q_content := demo_poisoned_text\<rparr>)"
  shows "chan_ops (snd (handleMessage (demo_consumer_env (\<lambda>_. None)) m demo_consumer_world)) = [Nack m]"
proof -
  let ?env = "demo_consumer_env (\<lambda>_. None)" and ?e = "error_of PlainError ''Cannot convert object to primitive value''"
  have "parseOrderCreated demo_poisoned_text = Inl ?e"
    by code_simp
  then have v: "verdict ?env m demo_consumer_world = Inl ?e"
    by (simp add: verdict_def m_def rabbit_delivered_def bind_io_def lift_io_def)
  have "js_ge (js_add (Fin 0) (Fin 1)) (Fin (of_nat 3)) = False" by code_simp
  then have "\<not> gives_up ?env ?e (Fin 0)"
    by (simp add: gives_up_def demo_max_attempts error_of_def del: js_add.simps)
  moreover have "failedAttempts m = Inr (Fin 0)"
    by (simp add: m_def rabbit_delivered_def failedAttempts_def demo_queued_def)
  ultimately show ?thesis
    using handleMessage_works [OF demo_channel_works, of "\<lambda>_. None" m demo_consumer_world] v
    by (simp add: settlement_def demo_consumer_world_def)
qed

end
