(* ===== verification/Consumer_Session.thy ===== *)
theory Consumer_Session
  imports Async JsValue
begin

text \<open>
  The connection side of \<open>messaging/consumer.service.ts\<close>: one session with the broker
  (\<open>consumeUntilClosed\<close>), the reconnect loop with its backoff (\<open>run\<close>) and the graceful shutdown
  (\<open>onModuleDestroy\<close>) with the time it may take. What happens to a delivered message is in \<open>Consumer\<close>.
\<close>

section \<open>Promises and timeouts\<close>

text \<open>How a promise settles, with the time in milliseconds: it may never settle, resolve, or reject.\<close>

datatype settle = Never | Resolves nat | Rejects nat thrown

text \<open>A timer that fires no later than the promise settles wins the race: \<open>Promise.race\<close> takes the first to
  settle. The result is the time spent and the outcome.\<close>

fun withTimeout :: "settle \<Rightarrow> nat \<Rightarrow> nat \<times> (thrown + unit)" where
  "withTimeout Never ms = (ms, Inr ())"
| "withTimeout (Resolves t) ms = (min t ms, Inr ())"
| "withTimeout (Rejects t e) ms = (if t < ms then (t, Inl e) else (ms, Inr ()))"

lemma withTimeout_bound: "fst (withTimeout s ms) \<le> ms"
  by (cases s) auto

section \<open>State\<close>

record session_world = obs +
  ss_conn :: "nat option"
  ss_channel :: "nat option"
  ss_consumerTag :: "string option"
  ss_stopping :: bool
  ss_closed :: "nat list"

definition isConnected :: "'z session_world_scheme \<Rightarrow> bool" where
  "isConnected w \<longleftrightarrow> ss_channel w \<noteq> None \<and> \<not> ss_stopping w"

text \<open>What the broker and the client library answer in one session: the connection or the failure to get
  one within the bound, then channel, prefetch and consume, and how the closing of the old connection
  settles.\<close>

record session_env =
  se_connect :: "thrown + nat"
  se_channel :: "thrown + nat"
  se_prefetch :: "thrown + unit"
  se_consume :: "thrown + string"
  se_stop_meanwhile :: bool
  se_close :: settle
  se_banner :: string

definition CLOSE_TIMEOUT_MS :: nat where "CLOSE_TIMEOUT_MS = 1000"

text \<open>\<open>connectWithTimeout\<close>: the attempt raced against a timer of \<open>CONNECT_TIMEOUT_MS\<close>.\<close>

definition CONNECT_TIMEOUT_MS :: nat where "CONNECT_TIMEOUT_MS = 2000"

definition connectWithTimeout :: "settle \<Rightarrow> nat \<Rightarrow> nat \<times> (thrown + nat)" where
  "connectWithTimeout attempt conn =
     (case attempt of
        Resolves t \<Rightarrow> (if t < CONNECT_TIMEOUT_MS then (t, Inr conn)
          else (CONNECT_TIMEOUT_MS, Inl (error_of PlainError ''connect ETIMEDOUT (outer bound)'')))
      | Rejects t e \<Rightarrow> (if t < CONNECT_TIMEOUT_MS then (t, Inl e)
          else (CONNECT_TIMEOUT_MS, Inl (error_of PlainError ''connect ETIMEDOUT (outer bound)'')))
      | Never \<Rightarrow> (CONNECT_TIMEOUT_MS, Inl (error_of PlainError ''connect ETIMEDOUT (outer bound)'')))"

section \<open>One session\<close>

definition set_session :: "nat option \<Rightarrow> nat option \<Rightarrow> string option \<Rightarrow> ('z session_world_scheme, unit) io" where
  "set_session c ch tag = modify_io (\<lambda>w. w\<lparr>ss_conn := c, ss_channel := ch, ss_consumerTag := tag\<rparr>)"

text \<open>The \<open>try\<close> block. While it waits for \<open>closed\<close> the worker may be told to stop.\<close>

definition session_body :: "session_env \<Rightarrow> nat \<Rightarrow> ('z session_world_scheme, unit) io" where
  "session_body env conn =
     bind_io (lift_io (se_channel env)) (\<lambda>ch.
     seq_io (lift_io (se_prefetch env))
     (bind_io (lift_io (se_consume env)) (\<lambda>tag.
     seq_io (set_session (Some conn) (Some ch) (Some tag))
     (seq_io (log_io Info (se_banner env))
     (seq_io (modify_io (\<lambda>w. w\<lparr>ss_stopping := ss_stopping w \<or> se_stop_meanwhile env\<rparr>))
     (bind_io (gets_io ss_stopping) (\<lambda>stopping.
        if \<not> stopping then log_io Warn ''RabbitMQ session ended; reconnecting'' else return_io ())))))))"

definition session_cleanup :: "session_env \<Rightarrow> nat \<Rightarrow> ('z session_world_scheme, unit) io" where
  "session_cleanup env conn =
     seq_io (set_session None None None)
     (seq_io (modify_io (\<lambda>w. w\<lparr>ss_closed := ss_closed w @ [conn]\<rparr>))
       (case snd (withTimeout (se_close env) CLOSE_TIMEOUT_MS) of
          Inl err \<Rightarrow> log_io Debug (''close after session end: '' @ message_of err)
        | Inr _ \<Rightarrow> return_io ()))"

definition consumeUntilClosed :: "session_env \<Rightarrow> ('z session_world_scheme, unit) io" where
  "consumeUntilClosed env =
     bind_io (lift_io (se_connect env)) (\<lambda>conn. finally_io (session_body env conn) (session_cleanup env conn))"

section \<open>The reconnect loop\<close>

definition MAX_BACKOFF_MS :: nat where "MAX_BACKOFF_MS = 10000"

definition next_delay :: "nat \<Rightarrow> nat \<Rightarrow> nat" where
  "next_delay delay elapsed = (if 30000 < elapsed then 1000 else min (delay * 2) MAX_BACKOFF_MS)"

text \<open>\<open>run\<close>, for a given series of sessions (each with the time it lasted): the delays it waits, in order. The
  loop ends when the worker is stopping, or here when the series ends.\<close>

fun run_loop :: "nat \<Rightarrow> (session_env \<times> nat) list \<Rightarrow> 'z session_world_scheme \<Rightarrow> nat list \<times> 'z session_world_scheme" where
  "run_loop delay [] w = ([], w)"
| "run_loop delay ((env, elapsed) # rest) w =
     (if ss_stopping w then ([], w)
      else
        let w1 = snd (catch_io (consumeUntilClosed env)
          (\<lambda>err. log_io Warn (''RabbitMQ consumer error: '' @ message_of err)) w)
        in if ss_stopping w1 then ([], w1)
           else let d = next_delay delay elapsed
                in case run_loop d rest w1 of (ds, w2) \<Rightarrow> (d # ds, w2))"

definition run :: "(session_env \<times> nat) list \<Rightarrow> 'z session_world_scheme \<Rightarrow> nat list \<times> 'z session_world_scheme" where
  "run sessions w = run_loop 1000 sessions w"

section \<open>Shutdown\<close>

definition CANCEL_TIMEOUT_MS :: nat where "CANCEL_TIMEOUT_MS = 1000"
definition DRAIN_TIMEOUT_MS :: nat where "DRAIN_TIMEOUT_MS = 5000"
definition LOOP_TIMEOUT_MS :: nat where "LOOP_TIMEOUT_MS = 1000"

text \<open>How the awaited promises settle: the cancel, the messages in flight (\<open>track\<close> lets none of them
  reject), the close and the loop (absent before bootstrap). Each time is counted from the await.\<close>

record shutdown_env =
  sd_cancel :: settle
  sd_inFlight :: "nat option list"
  sd_close :: settle
  sd_loop :: "settle option"

text \<open>\<open>Promise.allSettled\<close> raced against the drain timer; \<open>None\<close> is a handler that never ends.\<close>

definition drain_time :: "nat option list \<Rightarrow> nat" where
  "drain_time ts =
     (if None \<in> set ts then DRAIN_TIMEOUT_MS else min (fold max (map the ts) 0) DRAIN_TIMEOUT_MS)"

definition logged_timeout :: "settle \<Rightarrow> nat \<Rightarrow> string \<Rightarrow> ('z session_world_scheme, nat) io" where
  "logged_timeout s ms what =
     (case withTimeout s ms of
        (t, Inr _) \<Rightarrow> return_io t
      | (t, Inl err) \<Rightarrow> seq_io (log_io Warn (what @ message_of err)) (return_io t))"

text \<open>\<open>onModuleDestroy\<close>, with the time it takes. The loop never rejects: \<open>run\<close> catches everything.\<close>

definition onModuleDestroy :: "shutdown_env \<Rightarrow> ('z session_world_scheme, nat) io" where
  "onModuleDestroy env =
     seq_io (modify_io (\<lambda>w. w\<lparr>ss_stopping := True\<rparr>))
     (bind_io (gets_io (\<lambda>w. ss_channel w \<noteq> None \<and> ss_consumerTag w \<noteq> None \<and> ss_consumerTag w \<noteq> Some [])) (\<lambda>consuming.
      bind_io (if consuming then logged_timeout (sd_cancel env) CANCEL_TIMEOUT_MS ''cancel consumer failed: ''
               else return_io 0) (\<lambda>t1.
      bind_io (gets_io (\<lambda>w. ss_conn w \<noteq> None)) (\<lambda>connected.
      bind_io (if connected then logged_timeout (sd_close env) CLOSE_TIMEOUT_MS ''RabbitMQ close failed: ''
               else return_io 0) (\<lambda>t3.
      return_io (t1 + drain_time (sd_inFlight env) + t3
        + (case sd_loop env of None \<Rightarrow> 0 | Some s \<Rightarrow> fst (withTimeout s LOOP_TIMEOUT_MS))))))))"

text \<open>\<open>shutdownTelemetry\<close> of \<open>telemetry.ts\<close> (the worker's bound), which \<open>TelemetryLifecycle\<close> awaits after
  \<open>onModuleDestroy\<close>. A rejection of the flush is swallowed.\<close>

definition SHUTDOWN_TIMEOUT_MS :: nat where "SHUTDOWN_TIMEOUT_MS = 2000"

definition shutdownTelemetry :: "settle option \<Rightarrow> nat" where
  "shutdownTelemetry flush =
     (case flush of
        None \<Rightarrow> 0
      | Some Never \<Rightarrow> SHUTDOWN_TIMEOUT_MS
      | Some (Resolves t) \<Rightarrow> min t SHUTDOWN_TIMEOUT_MS
      | Some (Rejects t _) \<Rightarrow> min t SHUTDOWN_TIMEOUT_MS)"

section \<open>Properties\<close>

lemmas session_defs = consumeUntilClosed_def session_body_def session_cleanup_def set_session_def obs_defs io_defs

lemma logged_timeout_run:
  "\<exists>t w'. logged_timeout s ms what w = (Inr t, w') \<and> t \<le> ms
     \<and> ss_conn w' = ss_conn w \<and> ss_channel w' = ss_channel w \<and> ss_stopping w' = ss_stopping w"
  using withTimeout_bound [of s ms]
  by (cases "withTimeout s ms"; cases "snd (withTimeout s ms)") (auto simp: logged_timeout_def obs_defs io_defs)

lemma drain_bound: "drain_time ts \<le> DRAIN_TIMEOUT_MS"
  by (simp add: drain_time_def)

lemma guarded_timeout_run:
  "\<exists>t w'. (if b then logged_timeout s ms what else return_io 0) w = (Inr t, w') \<and> t \<le> ms \<and> ss_stopping w' = ss_stopping w"
  using logged_timeout_run [of s ms what w] by (auto simp: return_io_def)

lemma onModuleDestroy_run:
  fixes w :: "'z session_world_scheme"
  shows "\<exists>t w'. onModuleDestroy env w = (Inr t, w') \<and> t \<le> 8000 \<and> ss_stopping w'"
proof -
  let ?w0 = "w\<lparr>ss_stopping := True\<rparr>"
  let ?b1 = "ss_channel ?w0 \<noteq> None \<and> ss_consumerTag ?w0 \<noteq> None \<and> ss_consumerTag ?w0 \<noteq> Some []"
  obtain t1 w1 where w1: "(if ?b1 then logged_timeout (sd_cancel env) CANCEL_TIMEOUT_MS ''cancel consumer failed: ''
      else return_io 0) ?w0 = (Inr t1, w1)" "t1 \<le> CANCEL_TIMEOUT_MS" "ss_stopping w1"
    using guarded_timeout_run [of ?b1 "sd_cancel env" CANCEL_TIMEOUT_MS "''cancel consumer failed: ''" ?w0] by auto
  let ?b3 = "ss_conn w1 \<noteq> None"
  obtain t3 w3 where w3: "(if ?b3 then logged_timeout (sd_close env) CLOSE_TIMEOUT_MS ''RabbitMQ close failed: ''
      else return_io 0) w1 = (Inr t3, w3)" "t3 \<le> CLOSE_TIMEOUT_MS" "ss_stopping w3"
    using guarded_timeout_run [of ?b3 "sd_close env" CLOSE_TIMEOUT_MS "''RabbitMQ close failed: ''" w1] w1(3) by auto
  let ?t4 = "case sd_loop env of None \<Rightarrow> 0 | Some s \<Rightarrow> fst (withTimeout s LOOP_TIMEOUT_MS)"
  have "?t4 \<le> LOOP_TIMEOUT_MS" using withTimeout_bound by (auto split: option.split)
  moreover have "onModuleDestroy env w = (Inr (t1 + drain_time (sd_inFlight env) + t3 + ?t4), w3)"
    using w1(1) w3(1)
    by (simp only: onModuleDestroy_def seq_io_def bind_io_def modify_io_def gets_io_def prod.case sum.case return_io_def)
  ultimately show ?thesis
    using w1 w3 drain_bound [of "sd_inFlight env"]
    by (auto simp: CANCEL_TIMEOUT_MS_def CLOSE_TIMEOUT_MS_def LOOP_TIMEOUT_MS_def DRAIN_TIMEOUT_MS_def)
qed

lemma shutdownTelemetry_bound: "shutdownTelemetry flush \<le> SHUTDOWN_TIMEOUT_MS"
  by (auto simp: shutdownTelemetry_def split: option.split settle.split)

text \<open>C33: the worker's shutdown is bounded whatever the broker, the messages in flight and the collector do: it
  stops accepting, and \<open>onModuleDestroy\<close> takes at most 8 seconds, the flush of the telemetry 2 more.\<close>

theorem shutdown_is_bounded:
  "\<exists>t w'. onModuleDestroy env w = (Inr t, w') \<and> \<not> isConnected w' \<and> t + shutdownTelemetry flush \<le> 10000"
proof -
  obtain t w' where "onModuleDestroy env w = (Inr t, w')" "t \<le> 8000" "ss_stopping w'"
    using onModuleDestroy_run [of env w] by blast
  moreover have "shutdownTelemetry flush \<le> 2000"
    using shutdownTelemetry_bound [of flush] by (simp add: SHUTDOWN_TIMEOUT_MS_def)
  ultimately show ?thesis by (auto simp: isConnected_def)
qed

text \<open>The bound is reached, so it does not stay below the ten seconds of the container's grace period.\<close>

definition stuck_shutdown :: shutdown_env where
  "stuck_shutdown = \<lparr>sd_cancel = Never, sd_inFlight = [None], sd_close = Never, sd_loop = Some Never\<rparr>"

definition consuming_world :: session_world where
  "consuming_world = \<lparr>logs = [], counters = [], ss_conn = Some 1, ss_channel = Some 1, ss_consumerTag = Some ''tag'',
     ss_stopping = False, ss_closed = []\<rparr>"

lemma shutdown_can_take_ten_seconds:
  "fst (onModuleDestroy stuck_shutdown consuming_world) = Inr 8000
   \<and> 8000 + shutdownTelemetry (Some Never) = 10000"
  by code_simp

text \<open>A session cleans up after itself, however it ends: the worker reports not connected, the connection
  it had opened is closed, exactly once, and no session is reported while the consumer is not set up.\<close>

lemma session_cleans_up:
  "ss_conn (snd (consumeUntilClosed env w)) = (case se_connect env of Inr _ \<Rightarrow> None | Inl _ \<Rightarrow> ss_conn w)
   \<and> ss_channel (snd (consumeUntilClosed env w)) = (case se_connect env of Inr _ \<Rightarrow> None | Inl _ \<Rightarrow> ss_channel w)
   \<and> ss_closed (snd (consumeUntilClosed env w)) = ss_closed w @ (case se_connect env of Inr c \<Rightarrow> [c] | Inl _ \<Rightarrow> [])
   \<and> (case (se_connect env, se_channel env, se_prefetch env, se_consume env) of
        (Inr _, Inr _, Inr _, Inr _) \<Rightarrow> fst (consumeUntilClosed env w) = Inr ()
      | (Inr _, Inr _, Inr _, Inl e) \<Rightarrow> fst (consumeUntilClosed env w) = Inl e
      | (Inr _, Inr _, Inl e, _) \<Rightarrow> fst (consumeUntilClosed env w) = Inl e
      | (Inr _, Inl e, _, _) \<Rightarrow> fst (consumeUntilClosed env w) = Inl e
      | (Inl e, _, _, _) \<Rightarrow> fst (consumeUntilClosed env w) = Inl e)"
  by (auto simp: session_defs split: sum.split)

text \<open>The reconnect delays stay between one and ten seconds: the first is two seconds, and none exceeds the
  cap, however many sessions fail.\<close>

lemma backoff_bounded:
  "list_all (\<lambda>d. 1000 \<le> d \<and> d \<le> 10000) (fst (run sessions w)) \<and> length (fst (run sessions w)) \<le> length sessions"
proof -
  have "1000 \<le> delay \<Longrightarrow> list_all (\<lambda>d. 1000 \<le> d \<and> d \<le> 10000) (fst (run_loop delay sessions w))
      \<and> length (fst (run_loop delay sessions w)) \<le> length sessions"
    for delay and w :: "'a session_world_scheme"
  proof (induction delay sessions w rule: run_loop.induct)
    case (2 delay env elapsed rest w)
    have "1000 \<le> next_delay delay elapsed" "next_delay delay elapsed \<le> 10000"
      using "2.prems" by (simp_all add: next_delay_def MAX_BACKOFF_MS_def)
    then show ?case using 2 by (auto simp: Let_def split: prod.splits if_splits)
  qed simp
  from this [of 1000 w] show ?thesis unfolding run_def by simp
qed

end
