(* ===== verification/Worker_Machine.thy ===== *)
theory Worker_Machine
  imports Consumer Consumer_Session
begin

text \<open>
  notification-worker's \<open>ConsumerService\<close> as a concurrent machine. The reconnect loop (\<open>run\<close>,
  \<open>consumeUntilClosed\<close>), the graceful shutdown (\<open>onModuleDestroy\<close>) and the handlers of the delivered
  messages (\<open>handleMessage\<close>, several at a time) share the fields of the service and suspend at every
  \<open>await\<close>; the environment decides which of them goes on, when the broker delivers and what closes. What one
  of them does between two awaits is one step. \<open>Consumer\<close> and \<open>Consumer_Session\<close> treat a handler and a session
  on their own, from beginning to end; here their steps interleave.
\<close>

section \<open>State\<close>

text \<open>Where \<open>run\<close> is: not called yet, awaiting the connection; the channel; \<open>prefetch\<close>; \<open>consume\<close>; the consumer is
  registered with the client library but the awaiting code has not gone on; awaiting \<open>closed\<close>; in the
  \<open>finally\<close> block, awaiting the bounded close, with the error the \<open>try\<close> block threw; asleep; returned.\<close>

datatype loop_phase =
    LIdle
  | LConnecting
  | LCreating nat
  | LPrefetching nat nat
  | LConsuming nat nat
  | LRegistered nat nat string
  | LAwaitingClose nat nat
  | LClosing nat "thrown option"
  | LBackoff
  | LEnded

text \<open>Where \<open>onModuleDestroy\<close> is: not called; awaiting the cancel of a channel's consumer; awaiting the handlers
  that were in flight; awaiting the close of a connection; awaiting the loop; returned.\<close>

datatype destroy_phase =
    DIdle
  | DCancelling nat
  | DDraining "nat list"
  | DClosing nat
  | DAwaitLoop
  | DDown

text \<open>Where a handler is: awaiting the insert; the statement has run and its answer is on the way; awaiting the
  confirm of the copy in the dead letter queue; settled, with the outcome it counted or \<open>None\<close> for an error
  that escaped it.\<close>

datatype job_phase =
    Inserting order_created_event
  | Inserted "thrown + bool"
  | AwaitingConfirm string
  | Handled "string option"

record job =
  job_msg :: message
  job_chan :: nat
  job_phase :: job_phase

datatype conn_state = ConnOpen | ConnClosing | ConnClosed

record wchan =
  wc_conn :: nat
  wc_open :: bool
  wc_consuming :: bool

text \<open>The service's fields and suspended calls; then, of the client library, the connections made, their
  channels, the attempts that outlived their timer, the operations the channels took (with the handler they
  came from) and the handlers whose publish was confirmed. A handler is named by its position.\<close>

record worker = notif_world +
  wk_conn :: "nat option"
  wk_channel :: "nat option"
  wk_consumerTag :: "string option"
  wk_stopping :: bool
  wk_loop :: loop_phase
  wk_delay :: nat
  wk_destroy :: destroy_phase
  wk_jobs :: "job list"
  wk_conns :: "conn_state list"
  wk_chans :: "wchan list"
  wk_late :: nat
  wk_ops :: "(nat \<times> chan_op) list"
  wk_confirmed :: "nat list"

record worker_cfg =
  cf_notif :: notif_env
  cf_prefetch :: nat
  cf_maxAttempts :: nat

definition new_worker :: "notification list \<Rightarrow> worker" where
  "new_worker rows = \<lparr>logs = [], counters = [], note_rows = rows, note_stmts = 0, wk_conn = None, wk_channel = None,
     wk_consumerTag = None, wk_stopping = False, wk_loop = LIdle, wk_delay = 1000, wk_destroy = DIdle, wk_jobs = [],
     wk_conns = [], wk_chans = [], wk_late = 0, wk_ops = [], wk_confirmed = []\<rparr>"

definition worker_isConnected :: "worker \<Rightarrow> bool" where
  "worker_isConnected w \<longleftrightarrow> wk_channel w \<noteq> None \<and> \<not> wk_stopping w"

text \<open>A channel can be used while it is open and its connection is open and not being closed.\<close>

definition usable :: "worker \<Rightarrow> nat \<Rightarrow> bool" where
  "usable w ch \<longleftrightarrow> ch < length (wk_chans w) \<and> wc_open (wk_chans w ! ch)
     \<and> wk_conns w ! wc_conn (wk_chans w ! ch) = ConnOpen"

definition handled :: "job \<Rightarrow> bool" where
  "handled j \<longleftrightarrow> (case job_phase j of Handled _ \<Rightarrow> True | _ \<Rightarrow> False)"

text \<open>The set \<open>inFlight\<close>.\<close>

definition in_flight :: "worker \<Rightarrow> nat list" where
  "in_flight w = filter (\<lambda>i. \<not> handled (wk_jobs w ! i)) [0..<length (wk_jobs w)]"

section \<open>Handlers\<close>

definition set_phase :: "nat \<Rightarrow> job_phase \<Rightarrow> worker \<Rightarrow> worker" where
  "set_phase i p w = w\<lparr>wk_jobs := (wk_jobs w)[i := (wk_jobs w ! i)\<lparr>job_phase := p\<rparr>]\<rparr>"

definition channel_closed :: thrown where
  "channel_closed = error_of PlainError ''Channel closed''"

text \<open>An operation on the handler's channel; one that cannot be used throws.\<close>

definition job_op :: "nat \<Rightarrow> chan_op \<Rightarrow> (worker, unit) io" where
  "job_op i c = (\<lambda>w. if usable w (job_chan (wk_jobs w ! i)) then (Inr (), w\<lparr>wk_ops := wk_ops w @ [(i, c)]\<rparr>)
     else (Inl channel_closed, w))"

text \<open>A part of a handler ends in an outcome (\<open>Some\<close>), which is counted, in a new await (\<open>None\<close>), or in an error,
  which \<open>track\<close> logs.\<close>

definition job_end :: "nat \<Rightarrow> (worker, string option) io \<Rightarrow> worker \<Rightarrow> worker" where
  "job_end i m w =
     snd (catch_io
       (bind_io m (\<lambda>r. case r of
          None \<Rightarrow> return_io ()
        | Some outcome \<Rightarrow>
            seq_io (count_io ''notification.messages'' [(''outcome'', outcome)])
            (seq_io (count_io ''notification.processing.duration'' [(''outcome'', outcome)])
              (modify_io (set_phase i (Handled (Some outcome)))))))
       (\<lambda>err. seq_io (log_io Error (''unhandled message error: '' @ message_of err))
          (modify_io (set_phase i (Handled None)))) w)"

text \<open>\<open>deadLetter\<close> up to the confirm, and after it.\<close>

definition begin_dead_letter :: "nat \<Rightarrow> message \<Rightarrow> string \<Rightarrow> (worker, string option) io" where
  "begin_dead_letter i msg reason =
     bind_io (lift_io (failedAttempts msg)) (\<lambda>failed.
       seq_io (job_op i (dead_letter_op msg reason failed))
         (seq_io (modify_io (set_phase i (AwaitingConfirm reason))) (return_io None)))"

definition end_dead_letter :: "nat \<Rightarrow> message \<Rightarrow> string \<Rightarrow> (worker, string option) io" where
  "end_dead_letter i msg reason =
     seq_io (job_op i (Ack msg))
       (seq_io (log_io Error (''notification.dead_lettered messageId='' @ or_unknown (msg_messageId msg)
           @ '' correlationId='' @ or_unknown (msg_correlationId msg) @ '' reason='' @ reason))
         (return_io (Some ''dead_lettered'')))"

text \<open>The \<open>catch\<close> block of \<open>handleFailure\<close>, and its \<open>try\<close> block up to the confirm.\<close>

definition dead_letter_failed :: "nat \<Rightarrow> message \<Rightarrow> thrown \<Rightarrow> (worker, string option) io" where
  "dead_letter_failed i msg dlqErr =
     seq_io (log_io Error (''notification.dead_letter_failed messageId='' @ or_unknown (msg_messageId msg)
         @ '' cause='' @ message_of dlqErr))
       (seq_io (job_op i (Nack msg)) (return_io (Some ''dead_letter_failed'')))"

definition begin_failure :: "worker_cfg \<Rightarrow> nat \<Rightarrow> message \<Rightarrow> thrown \<Rightarrow> (worker, string option) io" where
  "begin_failure cfg i msg err =
     (let cause = error_text err in
      catch_io
        (if has_class PermanentError err then begin_dead_letter i msg (''permanent failure: '' @ cause)
         else bind_io (lift_io (failedAttempts msg)) (\<lambda>failed.
           let attempts = js_add failed (Fin 1) in
           if js_ge attempts (Fin (of_nat (cf_maxAttempts cfg)))
           then begin_dead_letter i msg (''gave up after '' @ num_string attempts @ '' attempts: '' @ cause)
           else seq_io (log_io Warn (''notification.retry messageId='' @ or_unknown (msg_messageId msg) @ '' attempt=''
               @ num_string attempts @ ''/'' @ nat_string (cf_maxAttempts cfg) @ '' cause='' @ cause))
             (seq_io (job_op i (Nack msg)) (return_io (Some ''retried'')))))
        (dead_letter_failed i msg))"

text \<open>The steps of a handler: the message arrives (\<open>ch.consume\<close>'s callback, \<open>handleMessage\<close> up to its first await);
  the insert runs; its answer arrives; the confirm of a dead letter arrives, fails or times out.\<close>

definition start_job :: "worker_cfg \<Rightarrow> nat \<Rightarrow> message \<Rightarrow> worker \<Rightarrow> worker" where
  "start_job cfg ch msg w =
     (let i = length (wk_jobs w) in
      case parseOrderCreated (msg_content msg) of
        Inr ev \<Rightarrow> w\<lparr>wk_jobs := wk_jobs w @ [\<lparr>job_msg = msg, job_chan = ch, job_phase = Inserting ev\<rparr>]\<rparr>
      | Inl err \<Rightarrow> job_end i (begin_failure cfg i msg err)
          (w\<lparr>wk_jobs := wk_jobs w @ [\<lparr>job_msg = msg, job_chan = ch, job_phase = Inserted (Inl err)\<rparr>]\<rparr>))"

definition run_insert :: "worker_cfg \<Rightarrow> nat \<Rightarrow> order_created_event \<Rightarrow> worker \<Rightarrow> worker" where
  "run_insert cfg i ev w = (case notifications_record (cf_notif cfg) ev w of (r, w') \<Rightarrow> set_phase i (Inserted r) w')"

definition insert_answered :: "worker_cfg \<Rightarrow> nat \<Rightarrow> message \<Rightarrow> thrown + bool \<Rightarrow> worker \<Rightarrow> worker" where
  "insert_answered cfg i msg r =
     job_end i (catch_io
       (bind_io (lift_io r) (\<lambda>fresh.
          seq_io (job_op i (Ack msg)) (return_io (Some (if fresh then ''processed'' else ''duplicate'')))))
       (begin_failure cfg i msg))"

definition dlq_confirm_timeout :: thrown where
  "dlq_confirm_timeout = error_of PlainError ''DLQ publish confirm timed out''"

definition confirm_answered :: "nat \<Rightarrow> message \<Rightarrow> string \<Rightarrow> thrown + unit \<Rightarrow> worker \<Rightarrow> worker" where
  "confirm_answered i msg reason r w =
     (case r of
        Inr _ \<Rightarrow> job_end i (catch_io (end_dead_letter i msg reason) (dead_letter_failed i msg))
          (w\<lparr>wk_confirmed := wk_confirmed w @ [i]\<rparr>)
      | Inl e \<Rightarrow> job_end i (dead_letter_failed i msg e) w)"

datatype job_event =
    InsertRun
  | InsertAnswer
  | Confirm
  | ConfirmError thrown
  | ConfirmTimeout

fun job_step :: "worker_cfg \<Rightarrow> nat \<Rightarrow> job_event \<Rightarrow> worker \<Rightarrow> worker option" where
  "job_step cfg i e w =
     (if i < length (wk_jobs w)
      then let msg = job_msg (wk_jobs w ! i) in
        (case (e, job_phase (wk_jobs w ! i)) of
           (InsertRun, Inserting ev) \<Rightarrow> Some (run_insert cfg i ev w)
         | (InsertAnswer, Inserted r) \<Rightarrow> Some (insert_answered cfg i msg r w)
         | (Confirm, AwaitingConfirm reason) \<Rightarrow> Some (confirm_answered i msg reason (Inr ()) w)
         | (ConfirmError err, AwaitingConfirm reason) \<Rightarrow> Some (confirm_answered i msg reason (Inl err) w)
         | (ConfirmTimeout, AwaitingConfirm reason) \<Rightarrow> Some (confirm_answered i msg reason (Inl dlq_confirm_timeout) w)
         | _ \<Rightarrow> None)
      else None)"

declare job_step.simps [simp del]

section \<open>The reconnect loop\<close>

text \<open>\<open>while (!this.stopping)\<close> at the head of the loop.\<close>

definition loop_head :: "worker \<Rightarrow> worker" where
  "loop_head w = w\<lparr>wk_loop := (if wk_stopping w then LEnded else LConnecting)\<rparr>"

text \<open>\<open>consumeUntilClosed\<close> has returned or thrown after \<open>elapsed\<close> milliseconds.\<close>

definition session_over :: "thrown option \<Rightarrow> nat \<Rightarrow> worker \<Rightarrow> worker" where
  "session_over err elapsed w =
     (let w1 = (case err of
          None \<Rightarrow> w
        | Some e \<Rightarrow> w\<lparr>logs := logs w @ [(Warn, ''RabbitMQ consumer error: '' @ message_of e)]\<rparr>)
      in if wk_stopping w1 then w1\<lparr>wk_loop := LEnded\<rparr>
         else w1\<lparr>wk_delay := next_delay (wk_delay w1) elapsed, wk_loop := LBackoff\<rparr>)"

text \<open>Calling \<open>close()\<close> on a connection: from then on it takes and gives nothing.\<close>

definition close_conn :: "nat \<Rightarrow> worker \<Rightarrow> worker" where
  "close_conn c w =
     w\<lparr>wk_conns := (wk_conns w)[c := (if wk_conns w ! c = ConnOpen then ConnClosing else wk_conns w ! c)]\<rparr>"

text \<open>The \<open>finally\<close> block up to its await.\<close>

definition session_finally :: "nat \<Rightarrow> thrown option \<Rightarrow> worker \<Rightarrow> worker" where
  "session_finally c err w =
     close_conn c (w\<lparr>wk_conn := None, wk_channel := None, wk_consumerTag := None, wk_loop := LClosing c err\<rparr>)"

definition outer_bound :: thrown where
  "outer_bound = error_of PlainError ''connect ETIMEDOUT (outer bound)''"

text \<open>The session is set up: the assignments after \<open>consume\<close>.\<close>

definition session_ready :: "worker_cfg \<Rightarrow> nat \<Rightarrow> nat \<Rightarrow> string \<Rightarrow> worker \<Rightarrow> worker" where
  "session_ready cfg c ch tag w =
     w\<lparr>wk_conn := Some c, wk_channel := Some ch, wk_consumerTag := Some tag, wk_loop := LAwaitingClose c ch,
       logs := logs w @ [(Info, ''Consuming '' @ MAIN_QUEUE @ '' (prefetch='' @ nat_string (cf_prefetch cfg)
         @ '', maxAttempts='' @ nat_string (cf_maxAttempts cfg) @ '')'')]\<rparr>"

definition session_closed :: "nat \<Rightarrow> worker \<Rightarrow> worker" where
  "session_closed c w =
     session_finally c None
       (if \<not> wk_stopping w then w\<lparr>logs := logs w @ [(Warn, ''RabbitMQ session ended; reconnecting'')]\<rparr> else w)"

datatype loop_event =
    Bootstrap
  | Connect
  | ConnectError thrown nat
  | ConnectTimeout nat
  | LateConnect
  | Channel
  | Prefetched
  | Consume string
  | SetupError thrown
  | Resume
  | SessionClose
  | CloseSettled "thrown option" nat
  | Timer

fun loop_step :: "worker_cfg \<Rightarrow> loop_event \<Rightarrow> worker \<Rightarrow> worker option" where
  "loop_step cfg Bootstrap w =
     (if wk_loop w = LIdle then Some (loop_head (w\<lparr>wk_delay := 1000\<rparr>)) else None)"
| "loop_step cfg Connect w =
     (if wk_loop w = LConnecting
      then Some (w\<lparr>wk_conns := wk_conns w @ [ConnOpen], wk_loop := LCreating (length (wk_conns w))\<rparr>) else None)"
| "loop_step cfg (ConnectError e elapsed) w =
     (if wk_loop w = LConnecting then Some (session_over (Some e) elapsed w) else None)"
| "loop_step cfg (ConnectTimeout elapsed) w =
     (if wk_loop w = LConnecting then Some (session_over (Some outer_bound) elapsed (w\<lparr>wk_late := Suc (wk_late w)\<rparr>))
      else None)"
| "loop_step cfg LateConnect w =
     (if 0 < wk_late w then Some (w\<lparr>wk_late := wk_late w - 1, wk_conns := wk_conns w @ [ConnClosing]\<rparr>) else None)"
| "loop_step cfg Channel w =
     (case wk_loop w of
        LCreating c \<Rightarrow>
          if wk_conns w ! c = ConnOpen
          then Some (w\<lparr>wk_chans := wk_chans w @ [\<lparr>wc_conn = c, wc_open = True, wc_consuming = False\<rparr>],
            wk_loop := LPrefetching c (length (wk_chans w))\<rparr>)
          else None
      | _ \<Rightarrow> None)"
| "loop_step cfg Prefetched w =
     (case wk_loop w of LPrefetching c ch \<Rightarrow> Some (w\<lparr>wk_loop := LConsuming c ch\<rparr>) | _ \<Rightarrow> None)"
| "loop_step cfg (Consume tag) w =
     (case wk_loop w of
        LConsuming c ch \<Rightarrow>
          if usable w ch
          then Some (w\<lparr>wk_chans := (wk_chans w)[ch := (wk_chans w ! ch)\<lparr>wc_consuming := True\<rparr>],
            wk_loop := LRegistered c ch tag\<rparr>)
          else None
      | _ \<Rightarrow> None)"
| "loop_step cfg (SetupError e) w =
     (case wk_loop w of
        LCreating c \<Rightarrow> Some (session_finally c (Some e) w)
      | LPrefetching c ch \<Rightarrow> Some (session_finally c (Some e) w)
      | LConsuming c ch \<Rightarrow> Some (session_finally c (Some e) w)
      | _ \<Rightarrow> None)"
| "loop_step cfg Resume w =
     (case wk_loop w of LRegistered c ch tag \<Rightarrow> Some (session_ready cfg c ch tag w) | _ \<Rightarrow> None)"
| "loop_step cfg SessionClose w =
     (case wk_loop w of
        LAwaitingClose c ch \<Rightarrow>
          if \<not> wc_open (wk_chans w ! ch) \<or> wk_conns w ! c = ConnClosed then Some (session_closed c w) else None
      | _ \<Rightarrow> None)"
| "loop_step cfg (CloseSettled err elapsed) w =
     (case wk_loop w of
        LClosing c e \<Rightarrow>
          Some (session_over e elapsed
            (case err of
               None \<Rightarrow> w
             | Some x \<Rightarrow> w\<lparr>logs := logs w @ [(Debug, ''close after session end: '' @ message_of x)]\<rparr>))
      | _ \<Rightarrow> None)"
| "loop_step cfg Timer w = (if wk_loop w = LBackoff then Some (loop_head w) else None)"

section \<open>Shutdown\<close>

definition begin_drain :: "worker \<Rightarrow> worker" where
  "begin_drain w = w\<lparr>wk_destroy := DDraining (in_flight w)\<rparr>"

definition await_loop :: "worker \<Rightarrow> worker" where
  "await_loop w = w\<lparr>wk_destroy := (if wk_loop w = LIdle then DDown else DAwaitLoop)\<rparr>"

definition destroy_close :: "worker \<Rightarrow> worker" where
  "destroy_close w = (case wk_conn w of Some c \<Rightarrow> close_conn c (w\<lparr>wk_destroy := DClosing c\<rparr>) | None \<Rightarrow> await_loop w)"

text \<open>\<open>this.wake?.()\<close>: a sleeping loop goes on, any other is not affected.\<close>

definition wake :: "worker \<Rightarrow> worker" where
  "wake w = (if wk_loop w = LBackoff then loop_head w else w)"

definition destroy_begin :: "worker \<Rightarrow> worker" where
  "destroy_begin w =
     (let w1 = wake (w\<lparr>wk_stopping := True\<rparr>) in
      case (wk_channel w1, wk_consumerTag w1) of
        (Some ch, Some tag) \<Rightarrow> if tag \<noteq> [] then w1\<lparr>wk_destroy := DCancelling ch\<rparr> else begin_drain w1
      | _ \<Rightarrow> begin_drain w1)"

datatype destroy_event =
    Destroy
  | CancelOk
  | CancelError thrown
  | CancelTimeout
  | Drained
  | DrainTimeout
  | Closed "thrown option"
  | LoopSettled
  | LoopTimeout

definition end_consumer :: "nat \<Rightarrow> worker \<Rightarrow> worker" where
  "end_consumer ch w = w\<lparr>wk_chans := (wk_chans w)[ch := (wk_chans w ! ch)\<lparr>wc_consuming := False\<rparr>]\<rparr>"

fun destroy_step :: "destroy_event \<Rightarrow> worker \<Rightarrow> worker option" where
  "destroy_step Destroy w = (if wk_destroy w = DIdle then Some (destroy_begin w) else None)"
| "destroy_step CancelOk w =
     (case wk_destroy w of DCancelling ch \<Rightarrow> Some (begin_drain (end_consumer ch w)) | _ \<Rightarrow> None)"
| "destroy_step (CancelError e) w =
     (case wk_destroy w of
        DCancelling ch \<Rightarrow> Some (begin_drain (w\<lparr>logs := logs w @ [(Warn, ''cancel consumer failed: '' @ message_of e)]\<rparr>))
      | _ \<Rightarrow> None)"
| "destroy_step CancelTimeout w = (case wk_destroy w of DCancelling ch \<Rightarrow> Some (begin_drain w) | _ \<Rightarrow> None)"
| "destroy_step Drained w =
     (case wk_destroy w of
        DDraining S \<Rightarrow> if list_all (\<lambda>i. handled (wk_jobs w ! i)) S then Some (destroy_close w) else None
      | _ \<Rightarrow> None)"
| "destroy_step DrainTimeout w = (case wk_destroy w of DDraining S \<Rightarrow> Some (destroy_close w) | _ \<Rightarrow> None)"
| "destroy_step (Closed err) w =
     (case wk_destroy w of
        DClosing c \<Rightarrow>
          Some (await_loop
            (case err of
               None \<Rightarrow> w
             | Some e \<Rightarrow> w\<lparr>logs := logs w @ [(Warn, ''RabbitMQ close failed: '' @ message_of e)]\<rparr>))
      | _ \<Rightarrow> None)"
| "destroy_step LoopSettled w =
     (if wk_destroy w = DAwaitLoop \<and> wk_loop w = LEnded then Some (w\<lparr>wk_destroy := DDown\<rparr>) else None)"
| "destroy_step LoopTimeout w = (if wk_destroy w = DAwaitLoop then Some (w\<lparr>wk_destroy := DDown\<rparr>) else None)"

section \<open>The broker and the client library\<close>

text \<open>A message is delivered on a channel with a consumer, within the prefetch window; a channel or a connection
  closes; the broker ends a consumer (it then calls back with \<open>null\<close>).\<close>

datatype broker_event =
    Deliver nat message
  | CloseChannel nat
  | CloseConnection nat
  | EndConsumer nat

definition is_settlement :: "chan_op \<Rightarrow> bool" where
  "is_settlement c = (case c of Ack _ \<Rightarrow> True | Nack _ \<Rightarrow> True | Publish _ _ _ _ \<Rightarrow> False)"

definition settles :: "worker \<Rightarrow> nat \<Rightarrow> chan_op list" where
  "settles w i = map snd (filter (\<lambda>(j, c). j = i \<and> is_settlement c) (wk_ops w))"

definition unsettled_on :: "worker \<Rightarrow> nat \<Rightarrow> nat list" where
  "unsettled_on w ch = filter (\<lambda>i. job_chan (wk_jobs w ! i) = ch \<and> settles w i = []) [0..<length (wk_jobs w)]"

fun broker_step :: "worker_cfg \<Rightarrow> broker_event \<Rightarrow> worker \<Rightarrow> worker option" where
  "broker_step cfg (Deliver ch msg) w =
     (if usable w ch \<and> wc_consuming (wk_chans w ! ch) \<and> length (unsettled_on w ch) < cf_prefetch cfg
      then Some (start_job cfg ch msg w) else None)"
| "broker_step cfg (CloseChannel ch) w =
     (if ch < length (wk_chans w)
      then Some (w\<lparr>wk_chans := (wk_chans w)[ch := (wk_chans w ! ch)\<lparr>wc_open := False\<rparr>]\<rparr>) else None)"
| "broker_step cfg (CloseConnection c) w =
     (if c < length (wk_conns w) then Some (w\<lparr>wk_conns := (wk_conns w)[c := ConnClosed]\<rparr>) else None)"
| "broker_step cfg (EndConsumer ch) w = (if ch < length (wk_chans w) then Some (end_consumer ch w) else None)"

section \<open>The machine\<close>

datatype wk_event =
    Loop loop_event
  | Shutdown destroy_event
  | Handler nat job_event
  | Broker broker_event

fun wk_step :: "worker_cfg \<Rightarrow> wk_event \<Rightarrow> worker \<Rightarrow> worker option" where
  "wk_step cfg (Loop e) w = loop_step cfg e w"
| "wk_step cfg (Shutdown e) w = destroy_step e w"
| "wk_step cfg (Handler i e) w = job_step cfg i e w"
| "wk_step cfg (Broker e) w = broker_step cfg e w"

fun wk_run :: "worker_cfg \<Rightarrow> wk_event list \<Rightarrow> worker \<Rightarrow> worker option" where
  "wk_run cfg [] w = Some w"
| "wk_run cfg (e # es) w = (case wk_step cfg e w of None \<Rightarrow> None | Some w' \<Rightarrow> wk_run cfg es w')"

inductive wk_reach :: "worker_cfg \<Rightarrow> notification list \<Rightarrow> worker \<Rightarrow> bool" for cfg rows where
  start: "wk_reach cfg rows (new_worker rows)"
| step: "wk_reach cfg rows w \<Longrightarrow> wk_step cfg e w = Some w' \<Longrightarrow> wk_reach cfg rows w'"

lemma wk_run_reach: "wk_reach cfg rows w \<Longrightarrow> wk_run cfg es w = Some w' \<Longrightarrow> wk_reach cfg rows w'"
  by (induction es arbitrary: w) (auto split: option.splits intro: wk_reach.step)

lemma wk_run_snoc:
  "wk_run cfg es w = Some w1 \<Longrightarrow> wk_step cfg e w1 = Some w2 \<Longrightarrow> wk_run cfg (es @ [e]) w = Some w2"
  by (induction es arbitrary: w) (auto split: option.splits)

section \<open>What each part leaves alone\<close>

text \<open>The part of the state that the loop, the shutdown and the client library act on, and the part of the
  handlers.\<close>

definition session_part ::
  "worker \<Rightarrow> nat option \<times> nat option \<times> string option \<times> bool \<times> loop_phase \<times> destroy_phase \<times> conn_state list \<times> wchan list" where
  "session_part w = (wk_conn w, wk_channel w, wk_consumerTag w, wk_stopping w, wk_loop w, wk_destroy w, wk_conns w, wk_chans w)"

definition handler_part :: "worker \<Rightarrow> job list \<times> (nat \<times> chan_op) list \<times> nat list \<times> notification list" where
  "handler_part w = (wk_jobs w, wk_ops w, wk_confirmed w, note_rows w)"

definition keeps_session :: "(worker, 'a) io \<Rightarrow> bool" where
  "keeps_session m \<longleftrightarrow> (\<forall>w. session_part (snd (m w)) = session_part w)"

lemma keeps_sessionI: "(\<And>P. preserves (\<lambda>w. P (session_part w)) m) \<Longrightarrow> keeps_session m"
  unfolding keeps_session_def
proof
  fix w
  assume "\<And>P. preserves (\<lambda>w. P (session_part w)) m"
  from this [of "\<lambda>p. p = session_part w"] show "session_part (snd (m w)) = session_part w" by (simp add: preserves_def)
qed

named_theorems keep \<open>what a part of a handler leaves alone\<close>

lemma keep_log [keep]: "preserves (\<lambda>w. P (session_part w)) (log_io l m)"
  by (simp add: preserves_def log_io_def modify_io_def session_part_def)

lemma keep_count [keep]: "preserves (\<lambda>w. P (session_part w)) (count_io n a)"
  by (simp add: preserves_def count_io_def modify_io_def session_part_def)

lemma keep_phase [keep]: "preserves (\<lambda>w. P (session_part w)) (modify_io (set_phase i p))"
  by (simp add: preserves_def modify_io_def set_phase_def session_part_def)

lemma keep_op [keep]: "preserves (\<lambda>w. P (session_part w)) (job_op i c)"
  by (simp add: preserves_def job_op_def session_part_def)

lemma keep_begin_dead_letter [keep]: "preserves (\<lambda>w. P (session_part w)) (begin_dead_letter i msg reason)"
  unfolding begin_dead_letter_def by (intro preserves_rules keep) auto

lemma keep_end_dead_letter [keep]: "preserves (\<lambda>w. P (session_part w)) (end_dead_letter i msg reason)"
  unfolding end_dead_letter_def by (intro preserves_rules keep) auto

lemma keep_dead_letter_failed [keep]: "preserves (\<lambda>w. P (session_part w)) (dead_letter_failed i msg e)"
  unfolding dead_letter_failed_def by (intro preserves_rules keep) auto

lemma keep_begin_failure [keep]: "preserves (\<lambda>w. P (session_part w)) (begin_failure cfg i msg e)"
  unfolding begin_failure_def Let_def
  by (auto intro!: preserves_rules keep split: if_splits)

lemma job_end_session:
  assumes "\<And>P. preserves (\<lambda>w. P (session_part w)) m"
  shows "session_part (job_end i m w) = session_part w"
proof -
  have "keeps_session (catch_io
       (bind_io m (\<lambda>r. case r of
          None \<Rightarrow> return_io ()
        | Some outcome \<Rightarrow>
            seq_io (count_io ''notification.messages'' [(''outcome'', outcome)])
            (seq_io (count_io ''notification.processing.duration'' [(''outcome'', outcome)])
              (modify_io (set_phase i (Handled (Some outcome)))))))
       (\<lambda>err. seq_io (log_io Error (''unhandled message error: '' @ message_of err))
          (modify_io (set_phase i (Handled None)))))"
    using assms by (intro keeps_sessionI) (auto intro!: preserves_rules keep split: option.split)
  then show ?thesis by (simp add: keeps_session_def job_end_def)
qed

lemma record_session: "session_part (snd (notifications_record env ev w)) = session_part w"
  by (simp add: notifications_record_def note_query_def obs_defs io_defs Let_def session_part_def
      split: option.split sum.split)

lemma set_phase_session [simp]: "session_part (set_phase i p w) = session_part w"
  by (simp add: set_phase_def session_part_def)

lemma job_step_cases [consumes 1, case_names insert answer confirm]:
  assumes "job_step cfg i e w = Some w'"
  obtains ev where "i < length (wk_jobs w)" "job_phase (wk_jobs w ! i) = Inserting ev" "w' = run_insert cfg i ev w"
  | r where "i < length (wk_jobs w)" "job_phase (wk_jobs w ! i) = Inserted r"
      "w' = insert_answered cfg i (job_msg (wk_jobs w ! i)) r w"
  | reason r where "i < length (wk_jobs w)" "job_phase (wk_jobs w ! i) = AwaitingConfirm reason"
      "w' = confirm_answered i (job_msg (wk_jobs w ! i)) reason r w"
  using assms by (auto simp: job_step.simps Let_def split: if_splits job_event.splits job_phase.splits)

lemma run_insert_session: "session_part (run_insert cfg i ev w) = session_part w"
  using record_session [of "cf_notif cfg" ev w]
  by (cases "notifications_record (cf_notif cfg) ev w") (simp add: run_insert_def)

lemma insert_answered_session: "session_part (insert_answered cfg i msg r w) = session_part w"
  unfolding insert_answered_def by (intro job_end_session preserves_rules keep) auto

lemma confirm_answered_session: "session_part (confirm_answered i msg reason r w) = session_part w"
proof (cases r)
  case (Inl e)
  then show ?thesis by (simp add: confirm_answered_def job_end_session keep)
next
  case (Inr u)
  have "session_part (w\<lparr>wk_confirmed := wk_confirmed w @ [i]\<rparr>) = session_part w" by (simp add: session_part_def)
  with Inr show ?thesis
    by (auto simp: confirm_answered_def intro!: trans [OF job_end_session] preserves_rules keep)
qed

lemma job_step_session: "job_step cfg i e w = Some w' \<Longrightarrow> session_part w' = session_part w"
  by (erule job_step_cases) (simp_all add: run_insert_session insert_answered_session confirm_answered_session)

lemma start_job_session: "session_part (start_job cfg ch msg w) = session_part w"
  by (auto simp: start_job_def Let_def intro!: trans [OF job_end_session] keep split: sum.split)
    (auto simp: session_part_def)

section \<open>One session at a time\<close>

fun loop_conn :: "loop_phase \<Rightarrow> nat option" where
  "loop_conn (LCreating c) = Some c"
| "loop_conn (LPrefetching c ch) = Some c"
| "loop_conn (LConsuming c ch) = Some c"
| "loop_conn (LRegistered c ch tag) = Some c"
| "loop_conn (LAwaitingClose c ch) = Some c"
| "loop_conn (LClosing c e) = Some c"
| "loop_conn _ = None"

fun loop_chan :: "loop_phase \<Rightarrow> nat option" where
  "loop_chan (LPrefetching c ch) = Some ch"
| "loop_chan (LConsuming c ch) = Some ch"
| "loop_chan (LRegistered c ch tag) = Some ch"
| "loop_chan (LAwaitingClose c ch) = Some ch"
| "loop_chan _ = None"

text \<open>The channels that can bring a message.\<close>

definition live :: "worker \<Rightarrow> nat \<Rightarrow> bool" where
  "live w k \<longleftrightarrow> usable w k \<and> wc_consuming (wk_chans w ! k)"

definition subscribed :: "loop_phase \<Rightarrow> nat option" where
  "subscribed p = (case p of LRegistered c ch tag \<Rightarrow> Some ch | LAwaitingClose c ch \<Rightarrow> Some ch | _ \<Rightarrow> None)"

text \<open>The fields name the session that is waited on, and none otherwise.\<close>

fun fields_of :: "loop_phase \<Rightarrow> nat option \<times> nat option \<times> bool" where
  "fields_of (LAwaitingClose c ch) = (Some c, Some ch, True)"
| "fields_of _ = (None, None, False)"

definition fields_ok :: "worker \<Rightarrow> bool" where
  "fields_ok w \<longleftrightarrow> (wk_conn w, wk_channel w, wk_consumerTag w \<noteq> None) = fields_of (wk_loop w)"

definition links_ok :: "worker \<Rightarrow> bool" where
  "links_ok w \<longleftrightarrow>
     (\<forall>c. loop_conn (wk_loop w) = Some c \<longrightarrow> c < length (wk_conns w))
   \<and> (\<forall>ch. loop_chan (wk_loop w) = Some ch \<longrightarrow>
        ch < length (wk_chans w) \<and> Some (wc_conn (wk_chans w ! ch)) = loop_conn (wk_loop w))
   \<and> (\<forall>k<length (wk_chans w). wc_conn (wk_chans w ! k) < length (wk_conns w))"

definition live_ok :: "worker \<Rightarrow> bool" where
  "live_ok w \<longleftrightarrow> (\<forall>k. live w k \<longrightarrow> subscribed (wk_loop w) = Some k)"

text \<open>The loop cannot go back to a new session once the consumer of its last one is being cancelled.\<close>

fun winding_down :: "loop_phase \<Rightarrow> bool" where
  "winding_down (LAwaitingClose c ch) = True"
| "winding_down (LClosing c e) = True"
| "winding_down LEnded = True"
| "winding_down _ = False"

definition stop_ok :: "worker \<Rightarrow> bool" where
  "stop_ok w \<longleftrightarrow> wk_stopping w = (wk_destroy w \<noteq> DIdle) \<and> (wk_stopping w \<longrightarrow> wk_loop w \<noteq> LBackoff)
     \<and> (\<forall>ch. wk_destroy w = DCancelling ch \<longrightarrow>
          winding_down (wk_loop w) \<and> (subscribed (wk_loop w) = None \<or> subscribed (wk_loop w) = Some ch))"

definition session_inv :: "worker \<Rightarrow> bool" where
  "session_inv w \<longleftrightarrow> fields_ok w \<and> links_ok w \<and> live_ok w \<and> stop_ok w"

lemma session_inv_part:
  assumes "session_part w' = session_part w"
  shows "session_inv w' = session_inv w"
proof -
  have "wk_conn w' = wk_conn w" "wk_channel w' = wk_channel w" "wk_consumerTag w' = wk_consumerTag w"
    "wk_stopping w' = wk_stopping w" "wk_loop w' = wk_loop w" "wk_destroy w' = wk_destroy w"
    "wk_conns w' = wk_conns w" "wk_chans w' = wk_chans w"
    using assms by (simp_all add: session_part_def)
  then show ?thesis
    by (simp add: session_inv_def fields_ok_def links_ok_def live_ok_def stop_ok_def live_def usable_def)
qed

lemma loop_step_cases [consumes 1, case_names boot connect failed timeout late channel prefetch consume broken resume
    closed settled timer]:
  assumes "loop_step cfg e w = Some w'"
  obtains "wk_loop w = LIdle" "w' = loop_head (w\<lparr>wk_delay := 1000\<rparr>)"
  | "wk_loop w = LConnecting"
      "w' = w\<lparr>wk_conns := wk_conns w @ [ConnOpen], wk_loop := LCreating (length (wk_conns w))\<rparr>"
  | x elapsed where "wk_loop w = LConnecting" "w' = session_over (Some x) elapsed w"
  | elapsed where "wk_loop w = LConnecting"
      "w' = session_over (Some outer_bound) elapsed (w\<lparr>wk_late := Suc (wk_late w)\<rparr>)"
  | "0 < wk_late w" "w' = w\<lparr>wk_late := wk_late w - 1, wk_conns := wk_conns w @ [ConnClosing]\<rparr>"
  | c where "wk_loop w = LCreating c" "wk_conns w ! c = ConnOpen"
      "w' = w\<lparr>wk_chans := wk_chans w @ [\<lparr>wc_conn = c, wc_open = True, wc_consuming = False\<rparr>],
         wk_loop := LPrefetching c (length (wk_chans w))\<rparr>"
  | c ch where "wk_loop w = LPrefetching c ch" "w' = w\<lparr>wk_loop := LConsuming c ch\<rparr>"
  | c ch tag where "wk_loop w = LConsuming c ch" "usable w ch"
      "w' = w\<lparr>wk_chans := (wk_chans w)[ch := (wk_chans w ! ch)\<lparr>wc_consuming := True\<rparr>], wk_loop := LRegistered c ch tag\<rparr>"
  | c x where "loop_conn (wk_loop w) = Some c" "subscribed (wk_loop w) = None" "w' = session_finally c (Some x) w"
  | c ch tag where "wk_loop w = LRegistered c ch tag" "w' = session_ready cfg c ch tag w"
  | c ch where "wk_loop w = LAwaitingClose c ch" "\<not> wc_open (wk_chans w ! ch) \<or> wk_conns w ! c = ConnClosed"
      "w' = session_closed c w"
  | c x err elapsed where "wk_loop w = LClosing c x"
      "w' = session_over x elapsed (case err of None \<Rightarrow> w
         | Some y \<Rightarrow> w\<lparr>logs := logs w @ [(Debug, ''close after session end: '' @ message_of y)]\<rparr>)"
  | "wk_loop w = LBackoff" "w' = loop_head w"
proof (cases e)
  case Bootstrap
  with assms that(1) show thesis by (cases "wk_loop w") (auto simp: subscribed_def split: if_splits)
next
  case Connect
  with assms that(2) show thesis by (cases "wk_loop w") (auto simp: subscribed_def split: if_splits)
next
  case (ConnectError x elapsed)
  with assms that(3) show thesis by (cases "wk_loop w") (auto simp: subscribed_def split: if_splits)
next
  case (ConnectTimeout elapsed)
  with assms that(4) show thesis by (cases "wk_loop w") (auto simp: subscribed_def split: if_splits)
next
  case LateConnect
  with assms that(5) show thesis by (cases "wk_loop w") (auto simp: subscribed_def split: if_splits)
next
  case Channel
  with assms that(6) show thesis by (cases "wk_loop w") (auto simp: subscribed_def split: if_splits)
next
  case Prefetched
  with assms that(7) show thesis by (cases "wk_loop w") (auto simp: subscribed_def split: if_splits)
next
  case (Consume tag)
  with assms that(8) show thesis by (cases "wk_loop w") (auto simp: subscribed_def split: if_splits)
next
  case (SetupError x)
  with assms that(9) show thesis by (cases "wk_loop w") (auto simp: subscribed_def split: if_splits)
next
  case Resume
  with assms that(10) show thesis by (cases "wk_loop w") (auto simp: subscribed_def split: if_splits)
next
  case SessionClose
  with assms that(11) show thesis by (cases "wk_loop w") (auto simp: subscribed_def split: if_splits)
next
  case (CloseSettled err elapsed)
  with assms that(12) show thesis by (cases "wk_loop w") (auto simp: subscribed_def split: if_splits)
next
  case Timer
  with assms that(13) show thesis by (cases "wk_loop w") (auto simp: subscribed_def split: if_splits)
qed

lemma destroy_step_cases [consumes 1, case_names start cancelled refused silent drained late closed down]:
  assumes "destroy_step e w = Some w'"
  obtains "wk_destroy w = DIdle" "w' = destroy_begin w"
  | ch where "e = CancelOk" "wk_destroy w = DCancelling ch" "w' = begin_drain (end_consumer ch w)"
  | ch x where "wk_destroy w = DCancelling ch"
      "w' = begin_drain (w\<lparr>logs := logs w @ [(Warn, ''cancel consumer failed: '' @ message_of x)]\<rparr>)"
  | ch where "wk_destroy w = DCancelling ch" "w' = begin_drain w"
  | S where "wk_destroy w = DDraining S" "list_all (\<lambda>i. handled (wk_jobs w ! i)) S" "w' = destroy_close w"
  | S where "wk_destroy w = DDraining S" "w' = destroy_close w"
  | c err where "wk_destroy w = DClosing c" "w' = await_loop (case err of None \<Rightarrow> w
         | Some y \<Rightarrow> w\<lparr>logs := logs w @ [(Warn, ''RabbitMQ close failed: '' @ message_of y)]\<rparr>)"
  | "wk_destroy w = DAwaitLoop" "w' = w\<lparr>wk_destroy := DDown\<rparr>"
  using assms by (cases e; cases "wk_destroy w") (auto split: if_splits)

lemmas loop_ops = loop_head_def session_over_def session_finally_def session_closed_def session_ready_def close_conn_def
lemmas destroy_ops = destroy_begin_def begin_drain_def destroy_close_def await_loop_def wake_def end_consumer_def close_conn_def
  loop_head_def

lemma fields_loop: "fields_ok w \<Longrightarrow> loop_step cfg e w = Some w' \<Longrightarrow> fields_ok w'"
  by (erule loop_step_cases) (auto simp: fields_ok_def loop_ops Let_def split: option.split)

lemma fields_destroy: "fields_ok w \<Longrightarrow> destroy_step e w = Some w' \<Longrightarrow> fields_ok w'"
  by (erule destroy_step_cases) (auto simp: fields_ok_def destroy_ops Let_def split: option.split)

lemma stop_loop: "stop_ok w \<Longrightarrow> loop_step cfg e w = Some w' \<Longrightarrow> stop_ok w'"
  by (erule loop_step_cases) (auto simp: stop_ok_def loop_ops subscribed_def Let_def split: option.split)

lemma stop_destroy: "fields_ok w \<Longrightarrow> stop_ok w \<Longrightarrow> destroy_step e w = Some w' \<Longrightarrow> stop_ok w'"
  by (erule destroy_step_cases; cases "wk_loop w")
    (auto simp: stop_ok_def fields_ok_def destroy_ops subscribed_def Let_def split: option.split)

lemma nth_update: "xs[i := x] ! j = (if i = j \<and> i < length xs then x else xs ! j)"
  by (cases "i < length xs") (auto simp: list_update_beyond not_less)

lemma links_loop: "links_ok w \<Longrightarrow> loop_step cfg e w = Some w' \<Longrightarrow> links_ok w'"
  by (erule loop_step_cases)
    (auto simp: links_ok_def loop_ops Let_def nth_append nth_update less_Suc_eq split: option.split)

lemma links_destroy: "links_ok w \<Longrightarrow> destroy_step e w = Some w' \<Longrightarrow> links_ok w'"
  by (erule destroy_step_cases)
    (auto simp: links_ok_def destroy_ops Let_def nth_update split: option.split)

text \<open>What a step does to the live channels: none comes to life but by \<open>consume\<close>.\<close>

lemma live_append_conn:
  "links_ok w \<Longrightarrow> wk_conns w' = wk_conns w @ cs \<Longrightarrow> wk_chans w' = wk_chans w \<Longrightarrow> live w' k = live w k"
  by (auto simp: live_def usable_def links_ok_def nth_append)

lemma live_close_conn:
  "wk_conns w' = wk_conns (close_conn c w) \<Longrightarrow> wk_chans w' = wk_chans w \<Longrightarrow> live w' k \<Longrightarrow>
     live w k \<and> \<not> (wc_conn (wk_chans w ! k) = c \<and> c < length (wk_conns w))"
  by (auto simp: live_def usable_def close_conn_def nth_update split: if_splits)

lemma finally_links:
  "wk_conns (session_finally c x w) = wk_conns (close_conn c w)" "wk_chans (session_finally c x w) = wk_chans w"
  "wk_conns (session_closed c w) = wk_conns (close_conn c w)" "wk_chans (session_closed c w) = wk_chans w"
  "wk_loop (session_finally c x w) = LClosing c x" "wk_loop (session_closed c w) = LClosing c None"
  by (simp_all add: session_closed_def session_finally_def close_conn_def cong: if_cong)

lemma live_append_chan:
  "wk_conns w' = wk_conns w \<Longrightarrow> wk_chans w' = wk_chans w @ [x] \<Longrightarrow> \<not> wc_consuming x \<Longrightarrow> live w' k \<Longrightarrow> live w k"
  by (auto simp: live_def usable_def nth_append less_Suc_eq split: if_splits)

lemma live_same: "wk_conns w' = wk_conns w \<Longrightarrow> wk_chans w' = wk_chans w \<Longrightarrow> live w' k \<Longrightarrow> live w k"
  by (simp add: live_def usable_def)

lemma live_consume:
  "wk_conns w' = wk_conns w \<Longrightarrow> wk_chans w' = (wk_chans w)[ch := (wk_chans w ! ch)\<lparr>wc_consuming := b\<rparr>] \<Longrightarrow> live w' k \<Longrightarrow>
     (if k = ch then b else live w k)"
  by (auto simp: live_def usable_def nth_update split: if_splits)

lemma live_okI:
  assumes "live_ok w" "\<And>k. live w' k \<Longrightarrow> live w k" "subscribed (wk_loop w') = subscribed (wk_loop w)"
  shows "live_ok w'"
  using assms by (auto simp: live_ok_def)

lemma live_loop:
  assumes "live_ok w" "links_ok w" "loop_step cfg e w = Some w'"
  shows "live_ok w'"
  using assms(3)
proof (cases rule: loop_step_cases)
  case boot
  then show ?thesis by (intro live_okI [OF assms(1)] live_same [of w' w]) (auto simp: loop_head_def subscribed_def)
next
  case connect
  then have "live w' k = live w k" for k using assms(2) by (intro live_append_conn) auto
  with connect show ?thesis by (intro live_okI [OF assms(1)]) (auto simp: subscribed_def)
next
  case (failed x elapsed)
  then show ?thesis
    by (intro live_okI [OF assms(1)] live_same [of w' w]) (auto simp: session_over_def Let_def subscribed_def)
next
  case (timeout elapsed)
  then show ?thesis
    by (intro live_okI [OF assms(1)] live_same [of w' w]) (auto simp: session_over_def Let_def subscribed_def)
next
  case late
  then have "live w' k = live w k" for k using assms(2) by (intro live_append_conn) auto
  with late show ?thesis by (intro live_okI [OF assms(1)]) (auto simp: subscribed_def)
next
  case (channel c)
  then have "live w' k \<Longrightarrow> live w k" for k by (elim live_append_chan [rotated 3]) auto
  with channel show ?thesis by (intro live_okI [OF assms(1)]) (auto simp: subscribed_def)
next
  case (prefetch c ch)
  then show ?thesis by (intro live_okI [OF assms(1)] live_same [of w' w]) (auto simp: subscribed_def)
next
  case (consume c ch tag)
  have dead: "\<not> live w k" for k using assms(1) consume(1) by (auto simp: live_ok_def subscribed_def)
  have "live w' k \<Longrightarrow> k = ch" for k
    using live_consume [of w' w ch True k] dead [of k] consume(3) by (simp split: if_splits)
  moreover have "subscribed (wk_loop w') = Some ch" using consume(3) by (simp add: subscribed_def)
  ultimately show ?thesis unfolding live_ok_def by blast
next
  case (broken c x)
  then have "live w' k \<Longrightarrow> live w k" for k
    using live_close_conn [of w' c w k] by (simp add: finally_links)
  with broken show ?thesis
    by (intro live_okI [OF assms(1)]) (auto simp: finally_links subscribed_def)
next
  case (resume c ch tag)
  then show ?thesis
    by (intro live_okI [OF assms(1)] live_same [of w' w]) (auto simp: session_ready_def subscribed_def)
next
  case (closed c ch)
  then have "live w' k \<Longrightarrow> live w k \<and> \<not> (wc_conn (wk_chans w ! k) = c \<and> c < length (wk_conns w))" for k
    using live_close_conn [of w' c w k] by (simp add: finally_links)
  moreover have "wc_conn (wk_chans w ! ch) = c" "c < length (wk_conns w)"
    using closed(1) assms(2) by (auto simp: links_ok_def)
  ultimately show ?thesis using closed(1) assms(1) by (fastforce simp: live_ok_def subscribed_def)
next
  case (settled c x err elapsed)
  then show ?thesis
    by (intro live_okI [OF assms(1)] live_same [of w' w])
      (auto simp: session_over_def Let_def subscribed_def split: option.split)
next
  case timer
  then show ?thesis by (intro live_okI [OF assms(1)] live_same [of w' w]) (auto simp: loop_head_def subscribed_def)
qed

lemma wake_links [simp]:
  "wk_conns (wake w) = wk_conns w" "wk_chans (wake w) = wk_chans w" "wk_jobs (wake w) = wk_jobs w"
  "subscribed (wk_loop (wake w)) = subscribed (wk_loop w)" "wk_stopping (wake w) = wk_stopping w"
  by (simp_all add: wake_def loop_head_def subscribed_def)

lemma destroy_begin_links [simp]:
  "wk_conns (destroy_begin w) = wk_conns w" "wk_chans (destroy_begin w) = wk_chans w"
  "wk_loop (destroy_begin w) = wk_loop (wake (w\<lparr>wk_stopping := True\<rparr>))"
  by (simp_all add: destroy_begin_def begin_drain_def Let_def split: option.split)

lemma destroy_close_live: "live (destroy_close w) k \<Longrightarrow> live w k"
proof (cases "wk_conn w")
  case (Some c)
  assume "live (destroy_close w) k"
  then show ?thesis
    using live_close_conn [of "destroy_close w" c w k] Some
    by (simp add: destroy_close_def close_conn_def cong: if_cong)
qed (auto simp: destroy_close_def await_loop_def live_def usable_def)

lemma destroy_live:
  assumes "destroy_step e w = Some w'" "live w' k"
  shows "live w k" and "e = CancelOk \<Longrightarrow> wk_destroy w = DCancelling ch \<Longrightarrow> k \<noteq> ch"
proof -
  show "live w k" using assms
  proof (cases rule: destroy_step_cases)
    case (cancelled ch)
    with assms(2) live_consume [of w' w ch False k] show ?thesis
      by (simp add: begin_drain_def end_consumer_def split: if_splits)
  next
    case start
    with assms(2) show ?thesis by (intro live_same [of w' w k]) simp_all
  next
    case (refused ch x)
    with assms(2) show ?thesis by (intro live_same [of w' w k]) (simp_all add: begin_drain_def)
  next
    case (silent ch)
    with assms(2) show ?thesis by (intro live_same [of w' w k]) (simp_all add: begin_drain_def)
  next
    case (closed c err)
    with assms(2) show ?thesis
      by (intro live_same [of w' w k]) (simp_all add: await_loop_def split: option.split)
  next
    case down
    with assms(2) show ?thesis by (intro live_same [of w' w k]) simp_all
  qed (use assms(2) destroy_close_live in simp_all)
  assume "e = CancelOk" "wk_destroy w = DCancelling ch"
  with assms(1) have "w' = begin_drain (end_consumer ch w)" by simp
  with live_consume [of w' w ch False k] assms(2) show "k \<noteq> ch"
    by (auto simp: begin_drain_def end_consumer_def)
qed

lemma destroy_subscribed: "destroy_step e w = Some w' \<Longrightarrow> subscribed (wk_loop w') = subscribed (wk_loop w)"
  by (erule destroy_step_cases)
    (auto simp: begin_drain_def end_consumer_def destroy_close_def await_loop_def close_conn_def split: option.split)

lemma live_destroy: "live_ok w \<Longrightarrow> destroy_step e w = Some w' \<Longrightarrow> live_ok w'"
  using live_okI [of w w'] destroy_live(1) [of e w w'] destroy_subscribed [of e w w'] by blast

lemma broker_step_cases [consumes 1, case_names deliver channel connection consumer]:
  assumes "broker_step cfg e w = Some w'"
  obtains ch msg where "e = Deliver ch msg" "live w ch" "length (unsettled_on w ch) < cf_prefetch cfg"
      "w' = start_job cfg ch msg w"
  | ch where "ch < length (wk_chans w)" "w' = w\<lparr>wk_chans := (wk_chans w)[ch := (wk_chans w ! ch)\<lparr>wc_open := False\<rparr>]\<rparr>"
  | c where "c < length (wk_conns w)" "w' = w\<lparr>wk_conns := (wk_conns w)[c := ConnClosed]\<rparr>"
  | ch where "ch < length (wk_chans w)" "w' = end_consumer ch w"
  using assms by (cases e) (auto simp: live_def split: if_splits)

lemma broker_closes:
  assumes "broker_step cfg e w = Some w'"
  shows "wk_conn w' = wk_conn w \<and> wk_channel w' = wk_channel w \<and> wk_consumerTag w' = wk_consumerTag w
    \<and> wk_stopping w' = wk_stopping w \<and> wk_loop w' = wk_loop w \<and> wk_destroy w' = wk_destroy w"
    and "links_ok w \<Longrightarrow> links_ok w'" and "live w' k \<Longrightarrow> live w k"
  using assms start_job_session [of cfg _ _ w]
  by (cases rule: broker_step_cases;
      auto simp: session_part_def links_ok_def live_def usable_def end_consumer_def nth_update split: if_splits)+

lemma wk_step_session_inv:
  assumes "session_inv w" "wk_step cfg e w = Some w'"
  shows "session_inv w'"
proof (cases e)
  case (Loop x)
  with assms show ?thesis
    by (auto simp: session_inv_def intro: fields_loop links_loop live_loop stop_loop)
next
  case (Shutdown x)
  with assms show ?thesis
    by (auto simp: session_inv_def intro: fields_destroy links_destroy live_destroy stop_destroy)
next
  case (Handler i x)
  with assms show ?thesis using session_inv_part [OF job_step_session [of cfg i x w w']] by auto
next
  case (Broker x)
  with assms(2) have s: "broker_step cfg x w = Some w'" by simp
  note keeps = broker_closes [OF s]
  have "live_ok w" using assms(1) by (simp add: session_inv_def)
  from live_okI [OF this] have "live_ok w'" using keeps(1,3) by simp
  moreover have "fields_ok w'" "stop_ok w'"
    using assms(1) keeps(1) by (auto simp: session_inv_def fields_ok_def stop_ok_def)
  ultimately show ?thesis using keeps(2) assms(1) by (simp add: session_inv_def)
qed

lemma reach_session_inv: "wk_reach cfg rows w \<Longrightarrow> session_inv w"
proof (induction rule: wk_reach.induct)
  case start
  show ?case
    by (simp add: session_inv_def fields_ok_def links_ok_def live_ok_def stop_ok_def live_def usable_def new_worker_def)
next
  case (step w e w')
  then show ?case by (blast intro: wk_step_session_inv)
qed

text \<open>Messages come only through the session of the loop: in every state the worker can get into, at most one
  channel has a live consumer, the one the loop has just registered or is waiting on; and a worker that reports
  itself connected (the readiness probe) is waiting on the session its fields name.\<close>

lemma one_live_session:
  assumes "wk_reach cfg rows w"
  shows "live w k \<Longrightarrow> live w k' \<Longrightarrow> k = k'"
    and "live w k \<Longrightarrow> subscribed (wk_loop w) = Some k"
    and "worker_isConnected w \<Longrightarrow> \<exists>c ch. wk_loop w = LAwaitingClose c ch \<and> wk_conn w = Some c \<and> wk_channel w = Some ch
       \<and> ch < length (wk_chans w) \<and> wc_conn (wk_chans w ! ch) = c"
proof -
  have inv: "session_inv w" using assms by (rule reach_session_inv)
  then show sub: "live w k \<Longrightarrow> subscribed (wk_loop w) = Some k" for k by (simp add: session_inv_def live_ok_def)
  show "live w k \<Longrightarrow> live w k' \<Longrightarrow> k = k'" using sub [of k] sub [of k'] by simp
  assume "worker_isConnected w"
  with inv show "\<exists>c ch. wk_loop w = LAwaitingClose c ch \<and> wk_conn w = Some c \<and> wk_channel w = Some ch
       \<and> ch < length (wk_chans w) \<and> wc_conn (wk_chans w ! ch) = c"
    by (cases "wk_loop w") (auto simp: session_inv_def fields_ok_def links_ok_def worker_isConnected_def)
qed

section \<open>Every delivery is settled once, and acknowledged only when it is safe\<close>

text \<open>A part of a handler that ends moves the job to a new phase after some operations on its channel.\<close>

definition moved :: "nat \<Rightarrow> chan_op list \<Rightarrow> job_phase \<Rightarrow> worker \<Rightarrow> worker \<Rightarrow> bool" where
  "moved i new p w w' \<longleftrightarrow> wk_ops w' = wk_ops w @ map (Pair i) new
     \<and> wk_jobs w' = (wk_jobs w)[i := (wk_jobs w ! i)\<lparr>job_phase := p\<rparr>]
     \<and> note_rows w' = note_rows w \<and> wk_confirmed w' = wk_confirmed w"

text \<open>The ends of a failure: the message is rejected, the channel is gone, or its copy is on the way to the dead
  letter queue.\<close>

definition failure_end :: "message \<Rightarrow> chan_op list \<Rightarrow> job_phase \<Rightarrow> bool" where
  "failure_end msg new p \<longleftrightarrow> new = [] \<and> p = Handled None
     \<or> (\<exists>out. new = [Nack msg] \<and> p = Handled (Some out))
     \<or> (\<exists>reason failed. new = [dead_letter_op msg reason failed] \<and> p = AwaitingConfirm reason)"

lemma one_op [simp]: "[(i, c)] = map (Pair i) new \<longleftrightarrow> new = [c]"
  by (cases new) auto

lemma usable_simps [simp]:
  "usable (w\<lparr>logs := l\<rparr>) ch = usable w ch" "usable (w\<lparr>wk_jobs := js\<rparr>) ch = usable w ch"
  "usable (w\<lparr>wk_ops := os\<rparr>) ch = usable w ch" "usable (w\<lparr>wk_confirmed := cs\<rparr>) ch = usable w ch"
  by (simp_all add: usable_def)

lemma dead_letter_failed_end:
  "\<exists>new p. moved i new p w (job_end i (dead_letter_failed i msg e) w)
     \<and> (new = [] \<and> p = Handled None \<or> (\<exists>out. new = [Nack msg] \<and> p = Handled (Some out)))"
  by (cases "usable w (job_chan (wk_jobs w ! i))")
    (auto simp: moved_def job_end_def dead_letter_failed_def job_op_def set_phase_def obs_defs io_defs)

text \<open>A \<open>try\<close> block that fails without an effect but on the log leaves the handler to its \<open>catch\<close>.\<close>

lemma moved_log: "moved i new p (w\<lparr>logs := l\<rparr>) w' = moved i new p w w'"
  by (simp add: moved_def)

lemma begin_failure_end:
  "\<exists>new p. moved i new p w (job_end i (begin_failure cfg i msg err) w) \<and> failure_end msg new p"
proof (cases "usable w (job_chan (wk_jobs w ! i))")
  case True
  then show ?thesis
    by (cases "failedAttempts msg")
      (auto simp: moved_def failure_end_def job_end_def begin_failure_def begin_dead_letter_def dead_letter_failed_def
        job_op_def set_phase_def obs_defs io_defs Let_def)
next
  case False
  then show ?thesis
    by (cases "failedAttempts msg")
      (auto simp: moved_def failure_end_def job_end_def begin_failure_def begin_dead_letter_def dead_letter_failed_def
        job_op_def set_phase_def obs_defs io_defs Let_def)
qed

lemma insert_answered_end:
  "\<exists>new p. moved i new p w (insert_answered cfg i msg r w)
     \<and> ((\<exists>fresh out. r = Inr fresh \<and> new = [Ack msg] \<and> p = Handled (Some out)) \<or> failure_end msg new p)"
proof (cases "\<exists>fresh. r = Inr fresh \<and> usable w (job_chan (wk_jobs w ! i))")
  case True
  then obtain fresh where r: "r = Inr fresh" and "usable w (job_chan (wk_jobs w ! i))" by blast
  then have "moved i [Ack msg] (Handled (Some (if fresh then ''processed'' else ''duplicate''))) w
      (insert_answered cfg i msg r w)"
    by (simp add: moved_def insert_answered_def job_end_def job_op_def set_phase_def obs_defs io_defs)
  with r show ?thesis by blast
next
  case False
  then obtain e where "insert_answered cfg i msg r w = job_end i (begin_failure cfg i msg e) w"
    by (cases r) (auto simp: insert_answered_def job_end_def job_op_def bind_io_def catch_io_def seq_io_def lift_io_def)
  with begin_failure_end [of i w cfg msg e] show ?thesis by auto
qed

lemma confirm_answered_end:
  "\<exists>new p. (case r of
       Inr _ \<Rightarrow> moved i new p (w\<lparr>wk_confirmed := wk_confirmed w @ [i]\<rparr>) (confirm_answered i msg reason r w)
         \<and> (new = [] \<and> p = Handled None \<or> new = [Ack msg] \<and> p = Handled (Some ''dead_lettered''))
     | Inl _ \<Rightarrow> moved i new p w (confirm_answered i msg reason r w)
         \<and> (new = [] \<and> p = Handled None \<or> (\<exists>out. new = [Nack msg] \<and> p = Handled (Some out))))"
proof (cases r)
  case (Inl e)
  with dead_letter_failed_end [of i w msg e] show ?thesis by (simp add: confirm_answered_def)
next
  case (Inr u)
  then show ?thesis
    by (cases "usable w (job_chan (wk_jobs w ! i))")
      (auto simp: confirm_answered_def moved_def job_end_def end_dead_letter_def dead_letter_failed_def job_op_def
        set_phase_def obs_defs io_defs)
qed

text \<open>What a handler may rely on for its acknowledgement: the event is in the table, or the copy in the dead letter
  queue is confirmed.\<close>

definition stored :: "string \<Rightarrow> worker \<Rightarrow> bool" where
  "stored content w \<longleftrightarrow> (\<exists>ev. parseOrderCreated content = Inr ev \<and> recorded ev (note_rows w))"

definition copied :: "worker \<Rightarrow> nat \<Rightarrow> bool" where
  "copied w i \<longleftrightarrow> (\<exists>p. (i, Publish '''' DLQ (msg_content (job_msg (wk_jobs w ! i))) p) \<in> set (wk_ops w))"

definition safe :: "worker \<Rightarrow> nat \<Rightarrow> bool" where
  "safe w i \<longleftrightarrow> stored (msg_content (job_msg (wk_jobs w ! i))) w \<or> i \<in> set (wk_confirmed w) \<and> copied w i"

fun phase_ok :: "worker \<Rightarrow> nat \<Rightarrow> job_phase \<Rightarrow> bool" where
  "phase_ok w i (Inserting ev) = (parseOrderCreated (msg_content (job_msg (wk_jobs w ! i))) = Inr ev)"
| "phase_ok w i (Inserted (Inr fresh)) = stored (msg_content (job_msg (wk_jobs w ! i))) w"
| "phase_ok w i (Inserted (Inl err)) = True"
| "phase_ok w i (AwaitingConfirm reason) = copied w i"
| "phase_ok w i (Handled r) = True"

fun settlements :: "message \<Rightarrow> job_phase \<Rightarrow> chan_op list set" where
  "settlements msg (Handled (Some out)) = {[Ack msg], [Nack msg]}"
| "settlements msg p = {[]}"

definition job_ok :: "worker \<Rightarrow> nat \<Rightarrow> bool" where
  "job_ok w i \<longleftrightarrow>
     (let j = wk_jobs w ! i in
      settles w i \<in> settlements (job_msg j) (job_phase j) \<and> phase_ok w i (job_phase j)
      \<and> (settles w i = [Ack (job_msg j)] \<longrightarrow> safe w i))"

definition handlers_ok :: "worker \<Rightarrow> bool" where
  "handlers_ok w \<longleftrightarrow> (\<forall>i<length (wk_jobs w). job_ok w i) \<and> (\<forall>(i, c)\<in>set (wk_ops w). i < length (wk_jobs w))"

lemma settles_append:
  "wk_ops w' = wk_ops w @ map (Pair i) new \<Longrightarrow>
     settles w' k = settles w k @ (if k = i then filter is_settlement new else [])"
  by (simp add: settles_def filter_map comp_def)

lemma is_settlement_simps [simp]:
  "is_settlement (Ack m)" "is_settlement (Nack m)" "\<not> is_settlement (Publish x q c p)" "\<not> is_settlement (dead_letter_op m s f)"
  by (simp_all add: is_settlement_def dead_letter_op_def)

text \<open>A handler keeps what it has when only others move.\<close>

lemma job_ok_mono:
  assumes "job_ok w k" "wk_jobs w' ! k = wk_jobs w ! k" "settles w' k = settles w k"
    "set (wk_ops w) \<subseteq> set (wk_ops w')" "set (wk_confirmed w) \<subseteq> set (wk_confirmed w')"
    "\<And>ev. recorded ev (note_rows w) \<Longrightarrow> recorded ev (note_rows w')"
  shows "job_ok w' k"
proof -
  have stored: "stored c w \<Longrightarrow> stored c w'" for c using assms(6) by (auto simp: stored_def)
  have copied: "copied w k \<Longrightarrow> copied w' k" using assms(2,4) by (auto simp: copied_def)
  have "phase_ok w k p \<Longrightarrow> phase_ok w' k p" for p
    using stored copied assms(2) by (cases "(w, k, p)" rule: phase_ok.cases) auto
  moreover have "safe w k \<Longrightarrow> safe w' k" using stored copied assms(2,5) by (auto simp: safe_def)
  ultimately show ?thesis using assms(1-3) by (auto simp: job_ok_def Let_def)
qed

lemma moved_ok:
  assumes "handlers_ok w" "moved i new p w w'" "i < length (wk_jobs w)"
    "settles w i = []" "filter is_settlement new \<in> settlements (job_msg (wk_jobs w ! i)) p"
    "phase_ok w' i p"
    "filter is_settlement new = [Ack (job_msg (wk_jobs w ! i))] \<Longrightarrow> safe w' i"
  shows "handlers_ok w'"
proof -
  note m = assms(2) [unfolded moved_def]
  have "job_ok w' k" if "k < length (wk_jobs w)" for k
  proof (cases "k = i")
    case True
    with assms(3-7) m settles_append [of w' w i new i] show ?thesis by (simp add: job_ok_def Let_def)
  next
    case False
    with m settles_append [of w' w i new k] have "wk_jobs w' ! k = wk_jobs w ! k" "settles w' k = settles w k"
      "set (wk_ops w) \<subseteq> set (wk_ops w')" "set (wk_confirmed w) \<subseteq> set (wk_confirmed w')" "note_rows w' = note_rows w"
      by auto
    with job_ok_mono [of w k w'] assms(1) that show ?thesis by (simp add: handlers_ok_def)
  qed
  with m assms(1,3) show ?thesis by (auto simp: handlers_ok_def)
qed

lemma recorded_append: "recorded ev ns \<Longrightarrow> recorded ev (ns @ ms)"
  by (auto simp: recorded_def)

lemma unsettled:
  "handlers_ok w \<Longrightarrow> i < length (wk_jobs w) \<Longrightarrow> \<not> handled (wk_jobs w ! i) \<Longrightarrow> settles w i = []"
  by (cases "job_phase (wk_jobs w ! i)") (auto simp: handlers_ok_def job_ok_def Let_def handled_def)

lemma failure_ok:
  assumes "handlers_ok w" "i < length (wk_jobs w)" "settles w i = []" "moved i new p w w'"
    "failure_end (job_msg (wk_jobs w ! i)) new p"
  shows "handlers_ok w'"
proof (rule moved_ok [OF assms(1,4,2,3)])
  show "filter is_settlement new \<in> settlements (job_msg (wk_jobs w ! i)) p" using assms(5) by (auto simp: failure_end_def)
  show "phase_ok w' i p"
    using assms(2,4,5) by (auto simp: failure_end_def moved_def copied_def dead_letter_op_def)
  show "safe w' i" if "filter is_settlement new = [Ack (job_msg (wk_jobs w ! i))]"
    using that assms(5) by (auto simp: failure_end_def)
qed

lemma insert_answered_ok:
  assumes "handlers_ok w" "i < length (wk_jobs w)" "job_phase (wk_jobs w ! i) = Inserted r"
  shows "handlers_ok (insert_answered cfg i (job_msg (wk_jobs w ! i)) r w)"
proof -
  let ?msg = "job_msg (wk_jobs w ! i)" and ?w' = "insert_answered cfg i (job_msg (wk_jobs w ! i)) r w"
  have none: "settles w i = []" using assms by (intro unsettled) (auto simp: handled_def)
  obtain new p where m: "moved i new p w ?w'" and
    "(\<exists>fresh out. r = Inr fresh \<and> new = [Ack ?msg] \<and> p = Handled (Some out)) \<or> failure_end ?msg new p"
    using insert_answered_end [of i w cfg ?msg r] by blast
  then consider fresh out where "r = Inr fresh" "new = [Ack ?msg]" "p = Handled (Some out)" | "failure_end ?msg new p"
    by blast
  then show ?thesis
  proof cases
    case 1
    have "phase_ok w i (Inserted r)" using assms by (auto simp: handlers_ok_def job_ok_def Let_def)
    with 1 m assms(2) have "safe ?w' i" by (simp add: safe_def stored_def moved_def)
    with 1 show ?thesis by (intro moved_ok [OF assms(1) m assms(2) none]) auto
  next
    case 2
    then show ?thesis by (rule failure_ok [OF assms(1,2) none m])
  qed
qed

lemma confirmed_ok:
  assumes "handlers_ok w"
  shows "handlers_ok (w\<lparr>wk_confirmed := wk_confirmed w @ [i]\<rparr>)"
proof -
  have "job_ok (w\<lparr>wk_confirmed := wk_confirmed w @ [i]\<rparr>) k" if "job_ok w k" for k
    using job_ok_mono [OF that, of "w\<lparr>wk_confirmed := wk_confirmed w @ [i]\<rparr>"] by (auto simp: settles_def)
  with assms show ?thesis by (simp add: handlers_ok_def)
qed

lemma confirm_answered_ok:
  assumes "handlers_ok w" "i < length (wk_jobs w)" "job_phase (wk_jobs w ! i) = AwaitingConfirm reason"
  shows "handlers_ok (confirm_answered i (job_msg (wk_jobs w ! i)) reason r w)"
proof -
  let ?msg = "job_msg (wk_jobs w ! i)" and ?w' = "confirm_answered i (job_msg (wk_jobs w ! i)) reason r w"
  have none: "settles w i = []" using assms by (intro unsettled) (auto simp: handled_def)
  have copy: "copied w i" using assms by (auto simp: handlers_ok_def job_ok_def Let_def)
  show ?thesis
  proof (cases r)
    case (Inl e)
    with confirm_answered_end [where r = r and i = i and w = w and msg = ?msg and reason = reason] obtain new p where m: "moved i new p w ?w'"
      and "failure_end ?msg new p" by (auto simp: failure_end_def)
    then show ?thesis by (rule failure_ok [OF assms(1,2) none])
  next
    case (Inr u)
    let ?v = "w\<lparr>wk_confirmed := wk_confirmed w @ [i]\<rparr>"
    from Inr confirm_answered_end [where r = r and i = i and w = w and msg = ?msg and reason = reason] obtain new p where m: "moved i new p ?v ?w'"
      and cases: "new = [] \<and> p = Handled None \<or> new = [Ack ?msg] \<and> p = Handled (Some ''dead_lettered'')" by auto
    have "safe ?w' i" using m copy assms(2) by (auto simp: safe_def copied_def moved_def)
    moreover have "settles ?v i = []" using none by (simp add: settles_def)
    ultimately show ?thesis
      using cases assms(2) by (intro moved_ok [OF confirmed_ok [OF assms(1)] m]) auto
  qed
qed

lemma record_part:
  fixes w :: worker
  assumes "notifications_record env ev w = (r, w')"
  shows "wk_jobs w' = wk_jobs w \<and> wk_ops w' = wk_ops w \<and> wk_confirmed w' = wk_confirmed w"
  using assms
  by (auto simp: notifications_record_def note_query_def obs_defs io_defs Let_def split: option.splits sum.splits if_splits)

lemma run_insert_rows:
  assumes "parseOrderCreated c = Inr ev"
  shows "(note_rows (run_insert cfg i ev w) = note_rows w
      \<or> (\<exists>x. row_of ev x \<and> \<not> recorded ev (note_rows w) \<and> note_rows (run_insert cfg i ev w) = note_rows w @ [x]))
    \<and> (\<exists>r. wk_jobs (run_insert cfg i ev w) = (wk_jobs w)[i := (wk_jobs w ! i)\<lparr>job_phase := Inserted r\<rparr>]
          \<and> (\<forall>fresh. r = Inr fresh \<longrightarrow> recorded ev (note_rows (run_insert cfg i ev w))))
    \<and> wk_ops (run_insert cfg i ev w) = wk_ops w \<and> wk_confirmed (run_insert cfg i ev w) = wk_confirmed w
    \<and> (notes_ok (note_rows w) \<longrightarrow> notes_ok (note_rows (run_insert cfg i ev w)))"
proof -
  obtain r w1 where rec: "notifications_record (cf_notif cfg) ev w = (r, w1)" by fastforce
  then have run: "run_insert cfg i ev w = set_phase i (Inserted r) w1" by (simp add: run_insert_def)
  have "notes_ok (note_rows w1)" if "notes_ok (note_rows w)"
    using record_ok [of "cf_notif cfg" ev] that rec by (auto simp: preserves_def dest: spec [of _ w])
  moreover have "recorded ev (note_rows w1)" if "r = Inr fresh" for fresh
    using record_run [OF parseOrderCreated_wf [OF assms] rec] that by (cases fresh) auto
  ultimately show ?thesis
    using record_run [OF parseOrderCreated_wf [OF assms] rec] record_part [OF rec] run by (auto simp: set_phase_def)
qed

lemma run_insert_ok:
  assumes "handlers_ok w" "i < length (wk_jobs w)" "job_phase (wk_jobs w ! i) = Inserting ev"
  shows "handlers_ok (run_insert cfg i ev w)"
proof -
  let ?w' = "run_insert cfg i ev w" and ?c = "msg_content (job_msg (wk_jobs w ! i))"
  have ev: "parseOrderCreated ?c = Inr ev" using assms by (auto simp: handlers_ok_def job_ok_def Let_def)
  have none: "settles w i = []" using assms by (intro unsettled) (auto simp: handled_def)
  obtain r where jobs: "wk_jobs ?w' = (wk_jobs w)[i := (wk_jobs w ! i)\<lparr>job_phase := Inserted r\<rparr>]"
    and r: "\<forall>fresh. r = Inr fresh \<longrightarrow> recorded ev (note_rows ?w')"
    and same: "wk_ops ?w' = wk_ops w" "wk_confirmed ?w' = wk_confirmed w"
    and rows: "\<And>e. recorded e (note_rows w) \<Longrightarrow> recorded e (note_rows ?w')"
    using run_insert_rows [OF ev, of cfg i w] by (auto simp: recorded_append)
  have settles: "settles ?w' k = settles w k" for k using same by (simp add: settles_def)
  have "job_ok ?w' k" if "k < length (wk_jobs w)" for k
  proof (cases "k = i")
    case True
    have "phase_ok ?w' i (Inserted r)" using r ev jobs assms(2) by (cases r) (auto simp: stored_def)
    with True jobs assms(2) settles none show ?thesis by (simp add: job_ok_def Let_def)
  next
    case False
    have "job_ok w k" using assms(1) that by (simp add: handlers_ok_def)
    from job_ok_mono [OF this, of ?w'] False jobs settles same rows show ?thesis by simp
  qed
  with assms(1) jobs same show ?thesis by (auto simp: handlers_ok_def)
qed

lemma new_job_ok:
  assumes "handlers_ok w" "phase_ok (w\<lparr>wk_jobs := wk_jobs w @ [j]\<rparr>) (length (wk_jobs w)) (job_phase j)"
    "\<not> handled j"
  shows "handlers_ok (w\<lparr>wk_jobs := wk_jobs w @ [j]\<rparr>)"
proof -
  let ?w' = "w\<lparr>wk_jobs := wk_jobs w @ [j]\<rparr>" and ?n = "length (wk_jobs w)"
  have settles: "settles ?w' k = settles w k" for k by (simp add: settles_def)
  have fresh: "settles w ?n = []"
    using assms(1) by (auto simp: settles_def handlers_ok_def filter_empty_conv)
  have "[] \<in> settlements (job_msg j) (job_phase j)"
    using assms(3) by (cases "job_phase j") (auto simp: handled_def)
  with assms(2) settles fresh have "job_ok ?w' ?n" by (simp add: job_ok_def Let_def)
  moreover have "job_ok ?w' k" if "k < ?n" for k
  proof -
    have "job_ok w k" using assms(1) that by (simp add: handlers_ok_def)
    from job_ok_mono [OF this, of ?w'] that settles show ?thesis by (simp add: nth_append)
  qed
  ultimately show ?thesis using assms(1) by (fastforce simp: handlers_ok_def less_Suc_eq)
qed

lemma start_job_ok:
  assumes "handlers_ok w"
  shows "handlers_ok (start_job cfg ch msg w)"
proof (cases "parseOrderCreated (msg_content msg)")
  case (Inr ev)
  with assms show ?thesis by (auto simp: start_job_def Let_def handled_def intro!: new_job_ok)
next
  case (Inl err)
  let ?n = "length (wk_jobs w)" and ?j = "\<lparr>job_msg = msg, job_chan = ch, job_phase = Inserted (Inl err)\<rparr>"
  let ?w1 = "w\<lparr>wk_jobs := wk_jobs w @ [?j]\<rparr>"
  have ok: "handlers_ok ?w1" using assms by (intro new_job_ok) (auto simp: handled_def)
  have none: "settles ?w1 ?n = []" using ok by (intro unsettled) (auto simp: handled_def)
  obtain new p where "moved ?n new p ?w1 (job_end ?n (begin_failure cfg ?n msg err) ?w1)" "failure_end msg new p"
    using begin_failure_end [of ?n ?w1 cfg msg err] by blast
  then have "handlers_ok (job_end ?n (begin_failure cfg ?n msg err) ?w1)"
    by (intro failure_ok [OF ok _ none]) auto
  with Inl show ?thesis by (simp add: start_job_def Let_def)
qed

lemma loop_handlers: "loop_step cfg e w = Some w' \<Longrightarrow> handler_part w' = handler_part w"
  by (erule loop_step_cases) (auto simp: handler_part_def loop_ops Let_def split: option.split)

lemma destroy_handlers: "destroy_step e w = Some w' \<Longrightarrow> handler_part w' = handler_part w"
  by (erule destroy_step_cases) (auto simp: handler_part_def destroy_ops Let_def split: option.split)

lemma handlers_ok_part: "handler_part w' = handler_part w \<Longrightarrow> handlers_ok w \<Longrightarrow> handlers_ok w'"
proof -
  assume same: "handler_part w' = handler_part w" and ok: "handlers_ok w"
  then have "job_ok w' k" if "job_ok w k" for k
    using job_ok_mono [OF that, of w'] by (simp add: handler_part_def settles_def)
  with same ok show ?thesis by (simp add: handlers_ok_def handler_part_def)
qed

lemma wk_step_handlers_ok:
  assumes "handlers_ok w" "wk_step cfg e w = Some w'"
  shows "handlers_ok w'"
proof (cases e)
  case (Handler i x)
  with assms(2) have "job_step cfg i x w = Some w'" by simp
  then show ?thesis
    by (cases rule: job_step_cases) (simp_all add: run_insert_ok insert_answered_ok confirm_answered_ok assms(1))
next
  case (Broker x)
  with assms(2) have "broker_step cfg x w = Some w'" by simp
  then show ?thesis
    by (cases rule: broker_step_cases)
      (auto simp: handler_part_def end_consumer_def intro: start_job_ok [OF assms(1)] handlers_ok_part [OF _ assms(1)])
qed (use assms loop_handlers destroy_handlers handlers_ok_part in auto)

lemma reach_handlers_ok: "wk_reach cfg rows w \<Longrightarrow> handlers_ok w"
proof (induction rule: wk_reach.induct)
  case start
  show ?case by (simp add: handlers_ok_def new_worker_def)
next
  case (step w e w')
  then show ?case by (blast intro: wk_step_handlers_ok)
qed

text \<open>C6: a delivery is settled at most once, and acknowledged only when nothing can be lost, in every state the worker
  can get into, however its handlers, the reconnect loop, a shutdown and failures of the broker interleave.
  While a handler runs, and when an error escaped it, its message is still the broker's, who delivers it again; a
  handler that counted an outcome has settled its message exactly once, by a rejection or by an
  acknowledgement, and then the event is in the table or the copy in the dead letter queue is confirmed.\<close>

theorem delivery_settled_once:
  assumes "wk_reach cfg rows w" "i < length (wk_jobs w)"
  shows "case job_phase (wk_jobs w ! i) of
      Handled (Some out) \<Rightarrow> settles w i = [Nack (job_msg (wk_jobs w ! i))]
        \<or> settles w i = [Ack (job_msg (wk_jobs w ! i))]
          \<and> (stored (msg_content (job_msg (wk_jobs w ! i))) w \<or> i \<in> set (wk_confirmed w) \<and> copied w i)
    | _ \<Rightarrow> settles w i = []"
proof -
  have "job_ok w i" using reach_handlers_ok [OF assms(1)] assms(2) by (simp add: handlers_ok_def)
  then show ?thesis by (auto simp: job_ok_def Let_def safe_def split: job_phase.splits option.splits)
qed

section \<open>At most one notification, for concurrent handlers\<close>

lemma job_step_jobs:
  assumes "job_step cfg i e w = Some w'"
  shows "\<exists>p. wk_jobs w' = (wk_jobs w)[i := (wk_jobs w ! i)\<lparr>job_phase := p\<rparr>]"
  using assms
proof (cases rule: job_step_cases)
  case (insert ev)
  obtain r w1 where rec: "notifications_record (cf_notif cfg) ev w = (r, w1)" by fastforce
  with record_part [OF rec] insert show ?thesis by (auto simp: run_insert_def set_phase_def)
next
  case (answer r)
  with insert_answered_end [of i w cfg _ r] show ?thesis by (fastforce simp: moved_def)
next
  case (confirm reason r)
  with confirm_answered_end [where r = r and i = i and w = w and msg = "job_msg (wk_jobs w ! i)" and reason = reason]
  show ?thesis by (cases r) (auto simp: moved_def)
qed

text \<open>The messages a worker has been given.\<close>

abbreviation received :: "worker \<Rightarrow> message list" where
  "received w \<equiv> map job_msg (wk_jobs w)"

lemma same_messages: "map job_msg (js[i := (js ! i)\<lparr>job_phase := p\<rparr>]) = map job_msg js"
  by (cases "i < length js") (auto simp: map_update intro: nth_equalityI simp: nth_update)

lemma job_step_received: "job_step cfg i e w = Some w' \<Longrightarrow> received w' = received w"
  by (drule job_step_jobs) (auto simp: same_messages)

lemma start_job_received: "received (start_job cfg ch msg w) = received w @ [msg]"
proof (cases "parseOrderCreated (msg_content msg)")
  case (Inl err)
  let ?n = "length (wk_jobs w)"
  let ?w1 = "w\<lparr>wk_jobs := wk_jobs w @ [\<lparr>job_msg = msg, job_chan = ch, job_phase = Inserted (Inl err)\<rparr>]\<rparr>"
  obtain new p where "moved ?n new p ?w1 (job_end ?n (begin_failure cfg ?n msg err) ?w1)"
    using begin_failure_end [of ?n ?w1 cfg msg err] by blast
  with Inl show ?thesis by (simp add: start_job_def Let_def moved_def)
qed (simp add: start_job_def Let_def)

definition rows_ok :: "notification list \<Rightarrow> worker \<Rightarrow> bool" where
  "rows_ok rows w \<longleftrightarrow> notes_ok (note_rows w)
     \<and> (\<exists>new. note_rows w = rows @ new
          \<and> (\<forall>x\<in>set new. \<exists>m\<in>set (received w). \<exists>ev. parseOrderCreated (msg_content m) = Inr ev \<and> row_of ev x))"

lemma rows_ok_same:
  "rows_ok rows w \<Longrightarrow> note_rows w' = note_rows w \<Longrightarrow> set (received w) \<subseteq> set (received w') \<Longrightarrow> rows_ok rows w'"
  unfolding rows_ok_def by fastforce

lemma run_insert_rows_ok:
  assumes "rows_ok rows w" "handlers_ok w" "i < length (wk_jobs w)" "job_phase (wk_jobs w ! i) = Inserting ev"
  shows "rows_ok rows (run_insert cfg i ev w)"
proof -
  let ?w' = "run_insert cfg i ev w" and ?m = "job_msg (wk_jobs w ! i)"
  have ev: "parseOrderCreated (msg_content ?m) = Inr ev" using assms by (auto simp: handlers_ok_def job_ok_def Let_def)
  note run = run_insert_rows [OF ev, of cfg i w]
  from run have same: "received ?w' = received w" by (auto simp: same_messages)
  obtain new where new: "note_rows w = rows @ new"
    "\<forall>x\<in>set new. \<exists>m\<in>set (received w). \<exists>ev. parseOrderCreated (msg_content m) = Inr ev \<and> row_of ev x"
    and ok: "notes_ok (note_rows w)" using assms(1) unfolding rows_ok_def by blast
  have ok': "notes_ok (note_rows ?w')" using run ok by blast
  from run consider "note_rows ?w' = note_rows w" | x where "row_of ev x" "note_rows ?w' = note_rows w @ [x]" by blast
  then show ?thesis
  proof cases
    case 1
    with same show ?thesis by (intro rows_ok_same [OF assms(1)]) auto
  next
    case 2
    have "?m \<in> set (received w)" using assms(3) by simp
    then have "\<exists>m\<in>set (received w). \<exists>ev. parseOrderCreated (msg_content m) = Inr ev \<and> row_of ev x"
      using ev 2(1) by (intro bexI [of _ ?m] exI [of _ ev]) simp_all
    then have "\<forall>y\<in>set (new @ [x]). \<exists>m\<in>set (received w). \<exists>ev. parseOrderCreated (msg_content m) = Inr ev \<and> row_of ev y"
      using new(2) by simp
    moreover have "note_rows ?w' = rows @ (new @ [x])" using 2 new by simp
    ultimately show ?thesis using ok' same unfolding rows_ok_def by metis
  qed
qed

lemma start_job_rows: "note_rows (start_job cfg ch msg w) = note_rows w"
proof (cases "parseOrderCreated (msg_content msg)")
  case (Inl err)
  let ?n = "length (wk_jobs w)"
  let ?w1 = "w\<lparr>wk_jobs := wk_jobs w @ [\<lparr>job_msg = msg, job_chan = ch, job_phase = Inserted (Inl err)\<rparr>]\<rparr>"
  obtain new p where "moved ?n new p ?w1 (job_end ?n (begin_failure cfg ?n msg err) ?w1)"
    using begin_failure_end [of ?n ?w1 cfg msg err] by blast
  with Inl show ?thesis by (simp add: start_job_def Let_def moved_def)
qed (simp add: start_job_def Let_def)

lemma job_step_rows:
  assumes "job_step cfg i e w = Some w'" "rows_ok rows w" "handlers_ok w"
  shows "rows_ok rows w'"
  using assms(1)
proof (cases rule: job_step_cases)
  case (insert ev)
  with assms(2,3) run_insert_rows_ok show ?thesis by blast
next
  case (answer r)
  with insert_answered_end [of i w cfg "job_msg (wk_jobs w ! i)" r] have "note_rows w' = note_rows w" by (auto simp: moved_def)
  with assms(2) job_step_received [OF assms(1)] show ?thesis by (metis rows_ok_same subset_refl)
next
  case (confirm reason r)
  with confirm_answered_end [where r = r and i = i and w = w and msg = "job_msg (wk_jobs w ! i)" and reason = reason]
  have "note_rows w' = note_rows w" by (cases r) (auto simp: moved_def)
  with assms(2) job_step_received [OF assms(1)] show ?thesis by (metis rows_ok_same subset_refl)
qed

lemma wk_step_rows:
  assumes "wk_step cfg e w = Some w'" "rows_ok rows w" "handlers_ok w"
  shows "rows_ok rows w'"
proof (cases e)
  case (Handler i x)
  with assms job_step_rows show ?thesis by auto
next
  case (Broker x)
  with assms(1) have "broker_step cfg x w = Some w'" by simp
  then have "note_rows w' = note_rows w \<and> set (received w) \<subseteq> set (received w')"
  proof (cases rule: broker_step_cases)
    case (deliver ch msg)
    then show ?thesis using start_job_received [of cfg ch msg w] by (auto simp: start_job_rows)
  qed (simp_all add: end_consumer_def)
  then show ?thesis using rows_ok_same [OF assms(2)] by blast
next
  case (Loop x)
  with assms(1) loop_handlers [of cfg x w w'] have "note_rows w' = note_rows w" "wk_jobs w' = wk_jobs w"
    by (auto simp: handler_part_def)
  then show ?thesis using rows_ok_same [OF assms(2)] by simp
next
  case (Shutdown x)
  with assms(1) destroy_handlers [of x w w'] have "note_rows w' = note_rows w" "wk_jobs w' = wk_jobs w"
    by (auto simp: handler_part_def)
  then show ?thesis using rows_ok_same [OF assms(2)] by simp
qed

lemma reach_rows_ok:
  assumes "wk_reach cfg rows w" "notes_ok rows"
  shows "rows_ok rows w"
  using assms(1)
proof (induction rule: wk_reach.induct)
  case start
  show ?case using assms(2) by (simp add: rows_ok_def new_worker_def)
next
  case (step w e w')
  then show ?case using wk_step_rows reach_handlers_ok by blast
qed

text \<open>An event gives at most one notification, also when handlers run at the same time, messages are delivered
  again and statements fail or lose their answer: in every state the worker can get into, no two stored
  notifications have the same event id, the earlier ones are all still there, and every new one is the
  notification of a message that was delivered.\<close>

lemma concurrent_notifications:
  assumes "wk_reach cfg rows w" "notes_ok rows"
  shows "notes_ok (note_rows w) \<and> (\<exists>new. note_rows w = rows @ new
    \<and> (\<forall>x\<in>set new. \<exists>m\<in>set (received w). \<exists>ev. parseOrderCreated (msg_content m) = Inr ev \<and> row_of ev x))"
  using reach_rows_ok [OF assms] unfolding rows_ok_def .

section \<open>Handlers and the loop come to an end\<close>

fun job_rank :: "job_phase \<Rightarrow> nat" where
  "job_rank (Inserting ev) = 3"
| "job_rank (Inserted r) = 2"
| "job_rank (AwaitingConfirm reason) = 1"
| "job_rank (Handled r) = 0"

lemma handled_rank: "handled j \<longleftrightarrow> job_rank (job_phase j) = 0"
  by (cases "job_phase j") (auto simp: handled_def)

text \<open>A step of a handler brings it nearer to its end and leaves the others where they are.\<close>

lemma job_step_rank:
  assumes "job_step cfg i e w = Some w'"
  shows "job_rank (job_phase (wk_jobs w' ! i)) < job_rank (job_phase (wk_jobs w ! i))"
    and "k \<noteq> i \<Longrightarrow> wk_jobs w' ! k = wk_jobs w ! k" and "length (wk_jobs w') = length (wk_jobs w)"
proof -
  show "k \<noteq> i \<Longrightarrow> wk_jobs w' ! k = wk_jobs w ! k" "length (wk_jobs w') = length (wk_jobs w)"
    using job_step_jobs [OF assms] by auto
  from assms show "job_rank (job_phase (wk_jobs w' ! i)) < job_rank (job_phase (wk_jobs w ! i))"
  proof (cases rule: job_step_cases)
    case (insert ev)
    obtain r w1 where rec: "notifications_record (cf_notif cfg) ev w = (r, w1)" by fastforce
    with record_part [OF rec] insert show ?thesis by (auto simp: run_insert_def set_phase_def)
  next
    case (answer r)
    with insert_answered_end [of i w cfg "job_msg (wk_jobs w ! i)" r] show ?thesis
      by (auto simp: moved_def failure_end_def)
  next
    case (confirm reason r)
    with confirm_answered_end [where r = r and i = i and w = w and msg = "job_msg (wk_jobs w ! i)" and reason = reason]
    show ?thesis by (cases r) (auto simp: moved_def)
  qed
qed

lemma handler_can_move:
  "i < length (wk_jobs w) \<Longrightarrow> \<not> handled (wk_jobs w ! i) \<Longrightarrow> \<exists>e w'. job_step cfg i e w = Some w'"
  by (cases "job_phase (wk_jobs w ! i)")
    (auto simp: handled_def job_step.simps Let_def intro: exI [of _ InsertRun] exI [of _ InsertAnswer] exI [of _ Confirm])

lemma handler_finishes:
  assumes "i < length (wk_jobs w)" "job_rank (job_phase (wk_jobs w ! i)) \<le> n"
  shows "\<exists>es w'. wk_run cfg (map (Handler i) es) w = Some w' \<and> handled (wk_jobs w' ! i) \<and> length es \<le> n"
  using assms
proof (induction n arbitrary: w)
  case 0
  then show ?case by (intro exI [of _ "[]"]) (simp add: handled_rank)
next
  case (Suc n)
  show ?case
  proof (cases "handled (wk_jobs w ! i)")
    case True
    then show ?thesis by (intro exI [of _ "[]"]) simp
  next
    case False
    with Suc.prems(1) handler_can_move obtain e w1 where e: "job_step cfg i e w = Some w1" by blast
    have "i < length (wk_jobs w1)" "job_rank (job_phase (wk_jobs w1 ! i)) \<le> n"
      using job_step_rank(1,3) [OF e] Suc.prems by simp_all
    from Suc.IH [OF this] obtain es w' where "wk_run cfg (map (Handler i) es) w1 = Some w'"
      "handled (wk_jobs w' ! i)" "length es \<le> n" by blast
    with e show ?thesis by (intro exI [of _ "e # es"]) simp
  qed
qed

fun loop_rank :: "loop_phase \<Rightarrow> nat" where
  "loop_rank LEnded = 0"
| "loop_rank (LClosing c e) = 1"
| "loop_rank (LAwaitingClose c ch) = 2"
| "loop_rank (LRegistered c ch tag) = 3"
| "loop_rank (LConsuming c ch) = 4"
| "loop_rank (LPrefetching c ch) = 5"
| "loop_rank (LCreating c) = 6"
| "loop_rank LConnecting = 7"
| "loop_rank LBackoff = 8"
| "loop_rank LIdle = 8"

text \<open>Once the worker is stopping, every step of the loop brings it nearer to its end: it does not reconnect.\<close>

lemma stopping_loop_rank:
  assumes "wk_stopping w" "loop_step cfg e w = Some w'"
  shows "wk_stopping w' \<and> (e = LateConnect \<and> wk_loop w' = wk_loop w \<or> loop_rank (wk_loop w') < loop_rank (wk_loop w))"
  using assms(2,1)
  by (cases e; cases "wk_loop w")
    (auto simp: loop_ops Let_def split: if_splits option.splits)

section \<open>Graceful shutdown\<close>

text \<open>Nothing can be delivered any more: the worker is stopping, no channel has a live consumer and the loop is past the
  point where it could subscribe.\<close>

definition quiet :: "worker \<Rightarrow> bool" where
  "quiet w \<longleftrightarrow> wk_stopping w \<and> winding_down (wk_loop w) \<and> (\<forall>k. \<not> live w k)"

text \<open>A handler that has ended stays ended.\<close>

lemma handled_stays:
  assumes "wk_step cfg e w = Some w'" "k < length (wk_jobs w)" "handled (wk_jobs w ! k)"
  shows "handled (wk_jobs w' ! k)"
proof (cases e)
  case (Handler i x)
  with assms(1) have s: "job_step cfg i x w = Some w'" by simp
  show ?thesis
  proof (cases "k = i")
    case True
    with job_step_rank(1) [OF s] assms(3) show ?thesis by (simp add: handled_rank)
  next
    case False
    with job_step_rank(2) [OF s] assms(3) show ?thesis by simp
  qed
next
  case (Broker x)
  with assms(1) have "broker_step cfg x w = Some w'" by simp
  then show ?thesis
  proof (cases rule: broker_step_cases)
    case (deliver ch msg)
    have "wk_jobs w' ! k = wk_jobs w ! k"
    proof (cases "parseOrderCreated (msg_content msg)")
      case (Inl err)
      let ?n = "length (wk_jobs w)"
      let ?w1 = "w\<lparr>wk_jobs := wk_jobs w @ [\<lparr>job_msg = msg, job_chan = ch, job_phase = Inserted (Inl err)\<rparr>]\<rparr>"
      obtain new p where "moved ?n new p ?w1 (job_end ?n (begin_failure cfg ?n msg err) ?w1)"
        using begin_failure_end [of ?n ?w1 cfg msg err] by blast
      with Inl deliver assms(2) show ?thesis by (simp add: start_job_def Let_def moved_def nth_append)
    qed (use deliver assms(2) in \<open>simp add: start_job_def Let_def nth_append\<close>)
    with assms(3) show ?thesis by simp
  qed (use assms(3) in \<open>simp_all add: end_consumer_def\<close>)
next
  case (Loop x)
  with assms loop_handlers [of cfg x w w'] show ?thesis by (simp add: handler_part_def)
next
  case (Shutdown x)
  with assms destroy_handlers [of x w w'] show ?thesis by (simp add: handler_part_def)
qed

lemma winding_down_loop:
  assumes "wk_stopping w" "winding_down (wk_loop w)" "loop_step cfg e w = Some w'"
  shows "wk_stopping w' \<and> winding_down (wk_loop w') \<and> wk_jobs w' = wk_jobs w
    \<and> (wk_loop w' = wk_loop w \<and> wk_conns w' = wk_conns w @ [ConnClosing] \<and> wk_chans w' = wk_chans w
       \<or> subscribed (wk_loop w') = None)"
  using assms(3,1,2)
  by (cases e; cases "wk_loop w")
    (auto simp: loop_ops Let_def subscribed_def split: if_splits option.splits)

lemma quiet_step:
  assumes "session_inv w" "quiet w" "wk_step cfg e w = Some w'"
  shows "quiet w' \<and> length (wk_jobs w') = length (wk_jobs w)"
proof (cases e)
  case (Loop x)
  with assms(3) have s: "loop_step cfg x w = Some w'" by simp
  have inv: "session_inv w'" using assms(1,3) by (rule wk_step_session_inv)
  note down = winding_down_loop [OF _ _ s]
  have "\<not> live w' k" for k
  proof (cases "subscribed (wk_loop w') = None")
    case True
    with inv show ?thesis by (auto simp: session_inv_def live_ok_def)
  next
    case False
    with down assms(2) have "live w' k = live w k"
      using assms(1) by (intro live_append_conn [of w w' "[ConnClosing]"]) (auto simp: quiet_def session_inv_def)
    with assms(2) show ?thesis by (simp add: quiet_def)
  qed
  with down assms(2) show ?thesis by (simp add: quiet_def)
next
  case (Shutdown x)
  with assms(3) have s: "destroy_step x w = Some w'" by simp
  have "wk_loop w' = wk_loop w" "wk_stopping w'"
    using s assms(2)
    by (cases rule: destroy_step_cases;
        auto simp: quiet_def destroy_ops Let_def split: option.splits)+
  moreover have "wk_jobs w' = wk_jobs w" using destroy_handlers [OF s] by (simp add: handler_part_def)
  ultimately show ?thesis using assms(2) destroy_live(1) [OF s] by (auto simp: quiet_def)
next
  case (Handler i x)
  with assms(3) have s: "job_step cfg i x w = Some w'" by simp
  have "live w' k = live w k" for k
    using job_step_session [OF s] by (auto simp: session_part_def live_def usable_def)
  with job_step_session [OF s] job_step_rank(3) [OF s] assms(2) show ?thesis
    by (simp add: quiet_def session_part_def)
next
  case (Broker x)
  with assms(3) have s: "broker_step cfg x w = Some w'" by simp
  then have "wk_jobs w' = wk_jobs w"
    using assms(2) by (cases rule: broker_step_cases) (auto simp: quiet_def end_consumer_def)
  with broker_closes(1,3) [OF s] assms(2) show ?thesis by (auto simp: quiet_def)
qed

text \<open>What the drain waits for covers every handler that has not ended.\<close>

definition drain_ok :: "worker \<Rightarrow> bool" where
  "drain_ok w \<longleftrightarrow> (\<forall>S. wk_destroy w = DDraining S \<longrightarrow> set (in_flight w) \<subseteq> set S)"

lemma in_flight_iff: "i \<in> set (in_flight w) \<longleftrightarrow> i < length (wk_jobs w) \<and> \<not> handled (wk_jobs w ! i)"
  by (auto simp: in_flight_def)

lemma destroy_drains:
  "destroy_step e w = Some w' \<Longrightarrow> wk_destroy w' = DDraining S \<Longrightarrow> S = in_flight w'"
  by (erule destroy_step_cases)
    (auto simp: destroy_ops in_flight_def Let_def split: option.splits if_splits)

lemma drain_step:
  assumes "wk_step cfg e w = Some w'" "drain_ok w" "length (wk_jobs w') = length (wk_jobs w)"
  shows "drain_ok w'"
proof (unfold drain_ok_def, intro allI impI)
  fix S assume S: "wk_destroy w' = DDraining S"
  show "set (in_flight w') \<subseteq> set S"
  proof (cases e)
    case (Shutdown x)
    with assms(1) S destroy_drains [of x w w' S] show ?thesis by simp
  next
    case (Loop x)
    with assms(1) have "wk_destroy w' = wk_destroy w" "wk_jobs w' = wk_jobs w"
      using loop_handlers [of cfg x w w']
      by (auto simp: handler_part_def loop_ops Let_def split: option.splits elim!: loop_step_cases)
    with S assms(2) show ?thesis by (simp add: drain_ok_def in_flight_def)
  next
    case (Handler i x)
    with assms(1) have "wk_destroy w' = wk_destroy w"
      using job_step_session [of cfg i x w w'] by (simp add: session_part_def)
    with S assms(2) have "set (in_flight w) \<subseteq> set S" by (simp add: drain_ok_def)
    then show ?thesis using handled_stays [OF assms(1)] assms(3) unfolding subset_iff in_flight_iff by metis
  next
    case (Broker x)
    with assms(1) have "wk_destroy w' = wk_destroy w" using broker_closes(1) [of cfg x w w'] by simp
    with S assms(2) have "set (in_flight w) \<subseteq> set S" by (simp add: drain_ok_def)
    then show ?thesis using handled_stays [OF assms(1)] assms(3) unfolding subset_iff in_flight_iff by metis
  qed
qed

lemma quiet_run:
  assumes "session_inv w" "quiet w" "drain_ok w" "wk_run cfg es w = Some w'"
  shows "quiet w' \<and> drain_ok w' \<and> length (wk_jobs w') = length (wk_jobs w)"
  using assms
proof (induction es arbitrary: w)
  case (Cons e es)
  then obtain w1 where s: "wk_step cfg e w = Some w1" and rest: "wk_run cfg es w1 = Some w'" by (auto split: option.splits)
  note q = quiet_step [OF Cons.prems(1,2) s]
  with Cons.IH [OF wk_step_session_inv [OF Cons.prems(1) s] _ drain_step [OF s Cons.prems(3)] rest] show ?case by simp
qed simp

lemma drained_all:
  assumes "drain_ok w" "wk_step cfg (Shutdown Drained) w = Some w'"
  shows "list_all handled (wk_jobs w)"
proof -
  from assms(2) obtain S where S: "wk_destroy w = DDraining S" "list_all (\<lambda>i. handled (wk_jobs w ! i)) S"
    by (auto split: destroy_phase.splits if_splits)
  then have "handled (wk_jobs w ! i)" if "i < length (wk_jobs w)" for i
    using assms(1) that by (auto simp: drain_ok_def in_flight_iff list_all_iff subset_iff)
  then show ?thesis by (simp add: list_all_length)
qed

text \<open>Two ways into a quiet state: the broker confirms the cancel, or the shutdown begins while there is no session.\<close>

lemma cancel_quiet:
  assumes "session_inv w" "destroy_step CancelOk w = Some w'"
  shows "quiet w' \<and> drain_ok w'"
proof -
  from assms(2) obtain ch where ch: "wk_destroy w = DCancelling ch" "w' = begin_drain (end_consumer ch w)"
    by (auto split: destroy_phase.splits)
  have "\<not> live w' k" for k
  proof
    assume "live w' k"
    with destroy_live [OF assms(2) this] ch(1) have "live w k" "k \<noteq> ch" by auto
    with assms(1) ch(1) show False by (auto simp: session_inv_def live_ok_def stop_ok_def)
  qed
  with assms(1) ch show ?thesis
    by (auto simp: quiet_def session_inv_def stop_ok_def begin_drain_def end_consumer_def drain_ok_def in_flight_def)
qed

lemma idle_quiet:
  assumes "session_inv w" "destroy_step Destroy w = Some w'" "wk_loop w = LBackoff \<or> wk_loop w = LEnded \<or> (\<exists>c e. wk_loop w = LClosing c e)"
  shows "quiet w' \<and> drain_ok w'"
proof -
  have "subscribed (wk_loop w') = None" using destroy_subscribed [OF assms(2)] assms(3) by (auto simp: subscribed_def)
  moreover have "live_ok w'" using live_destroy [OF _ assms(2)] assms(1) by (simp add: session_inv_def)
  ultimately have "\<not> live w' k" for k by (auto simp: live_ok_def)
  moreover have "drain_ok w'" using destroy_drains [OF assms(2)] by (simp add: drain_ok_def)
  moreover have "wk_stopping w' \<and> winding_down (wk_loop w')"
    using assms(2,3) by (auto simp: destroy_ops Let_def split: if_splits option.splits)
  ultimately show ?thesis by (simp add: quiet_def)
qed

text \<open>C11: a graceful shutdown loses nothing. Once the broker has confirmed the cancel (the worker was consuming when it
  was told to stop), whatever happens next, no further message is delivered; and when the drain ends before its timer, every handler
  ever started has ended, so the connection is closed with none of them at work.\<close>

theorem graceful_shutdown:
  assumes "wk_reach cfg rows w" "wk_step cfg (Shutdown CancelOk) w = Some w1" "wk_run cfg es w1 = Some w2"
  shows "length (wk_jobs w2) = length (wk_jobs w1) \<and> (\<forall>ch msg. wk_step cfg (Broker (Deliver ch msg)) w2 = None)
    \<and> (wk_step cfg (Shutdown Drained) w2 \<noteq> None \<longrightarrow> list_all handled (wk_jobs w2))"
proof -
  have inv: "session_inv w" using assms(1) by (rule reach_session_inv)
  have "quiet w1 \<and> drain_ok w1" using cancel_quiet [OF inv] assms(2) by simp
  moreover have "session_inv w1" using inv assms(2) by (rule wk_step_session_inv)
  ultimately have "quiet w2 \<and> drain_ok w2 \<and> length (wk_jobs w2) = length (wk_jobs w1)"
    using quiet_run assms(3) by blast
  then show ?thesis using drained_all [of w2 cfg] by (auto simp: quiet_def live_def)
qed

section \<open>A late session\<close>

definition demo_cfg :: worker_cfg where
  "demo_cfg = \<lparr>cf_notif = demo_notif_env, cf_prefetch = 2, cf_maxAttempts = 5\<rparr>"

text \<open>Witnesses: a worker that is told to stop while the copy of a malformed message is on its way to the dead
  letter queue, and drains.\<close>

definition demo_malformed :: message where
  "demo_malformed = \<lparr>msg_content = ''x'', msg_contentType = None, msg_messageId = Some ''m1'', msg_correlationId = None,
     msg_headers = []\<rparr>"

lemma demo_malformed_parse:
  obtains err where "parseOrderCreated ''x'' = Inl err" "has_class PermanentError err"
proof -
  have "case parseOrderCreated ''x'' of Inl err \<Rightarrow> has_class PermanentError err | Inr _ \<Rightarrow> False" by code_simp
  with that show thesis by (auto split: sum.splits)
qed

lemma demo_stopping:
  obtains w reason where "wk_reach demo_cfg [] w" "wk_destroy w = DCancelling 0" "usable w 0" "length (wk_jobs w) = 1"
    "wk_jobs w ! 0 = \<lparr>job_msg = demo_malformed, job_chan = 0, job_phase = AwaitingConfirm reason\<rparr>"
proof -
  obtain err where err: "parseOrderCreated ''x'' = Inl err" "has_class PermanentError err" by (rule demo_malformed_parse)
  let ?events = "[Loop Bootstrap, Loop Connect, Loop Channel, Loop Prefetched, Loop (Consume ''tag''), Loop Resume,
    Broker (Deliver 0 demo_malformed), Shutdown Destroy]"
  obtain w where "wk_run demo_cfg ?events (new_worker []) = Some w"
    "wk_destroy w = DCancelling 0" "usable w 0"
    "wk_jobs w = [\<lparr>job_msg = demo_malformed, job_chan = 0, job_phase = AwaitingConfirm (''permanent failure: '' @ error_text err)\<rparr>]"
    using err
    by (simp add: new_worker_def demo_cfg_def loop_head_def session_ready_def usable_def unsettled_on_def start_job_def
        demo_malformed_def job_end_def begin_failure_def begin_dead_letter_def job_op_def set_phase_def failedAttempts_def
        destroy_begin_def wake_def io_defs obs_defs Let_def)
  then show thesis using wk_run_reach [OF wk_reach.start, of demo_cfg ?events "[]" w] by (intro that) auto
qed

text \<open>The confirm arrives after the cancel: the handler ends and the drain with it.\<close>

lemma demo_drains:
  assumes "wk_destroy w = DCancelling 0" "usable w 0" "length (wk_jobs w) = 1"
    "wk_jobs w ! 0 = \<lparr>job_msg = demo_malformed, job_chan = 0, job_phase = AwaitingConfirm reason\<rparr>"
  obtains w1 w2 where "wk_step demo_cfg (Shutdown CancelOk) w = Some w1" "wk_run demo_cfg [Handler 0 Confirm] w1 = Some w2"
    "length (wk_jobs w1) = 1" "wk_step demo_cfg (Shutdown Drained) w2 \<noteq> None"
    "wk_jobs w2 = [\<lparr>job_msg = demo_malformed, job_chan = 0, job_phase = Handled (Some ''dead_lettered'')\<rparr>]"
    "Ack demo_malformed \<in> set (settles w2 0)"
proof -
  have jobs: "wk_jobs w = [\<lparr>job_msg = demo_malformed, job_chan = 0, job_phase = AwaitingConfirm reason\<rparr>]"
    using assms(3,4) by (cases "wk_jobs w") auto
  let ?w1 = "begin_drain (end_consumer 0 w)"
  have use: "usable ?w1 0" using assms(2) by (auto simp: usable_def begin_drain_def end_consumer_def nth_update)
  let ?w2 = "confirm_answered 0 demo_malformed reason (Inr ()) ?w1"
  have "wk_step demo_cfg (Shutdown CancelOk) w = Some ?w1" using assms(1) by simp
  moreover have "wk_run demo_cfg [Handler 0 Confirm] ?w1 = Some ?w2"
    using jobs by (simp add: job_step.simps Let_def begin_drain_def end_consumer_def)
  moreover have w2: "wk_jobs ?w2 = [\<lparr>job_msg = demo_malformed, job_chan = 0, job_phase = Handled (Some ''dead_lettered'')\<rparr>]"
    "wk_ops ?w2 = wk_ops w @ [(0, Ack demo_malformed)]" "wk_destroy ?w2 = DDraining [0]"
    using use jobs
    by (simp_all add: confirm_answered_def job_end_def end_dead_letter_def job_op_def set_phase_def io_defs obs_defs)
      (simp_all add: begin_drain_def end_consumer_def in_flight_def handled_def)
  moreover have "wk_step demo_cfg (Shutdown Drained) ?w2 \<noteq> None" using w2 by (simp add: handled_def)
  moreover have "length (wk_jobs ?w1) = 1" using jobs by (simp add: begin_drain_def end_consumer_def)
  moreover have "Ack demo_malformed \<in> set (settles ?w2 0)" using w2(2) by (simp add: settles_def)
  ultimately show thesis using that by blast
qed

theorem graceful_shutdown_witness:
  "\<exists>w2. wk_reach demo_cfg [] w2 \<and> wk_step demo_cfg (Shutdown Drained) w2 \<noteq> None
     \<and> length (wk_jobs w2) = 1 \<and> list_all handled (wk_jobs w2)"
proof -
  obtain w reason where w: "wk_reach demo_cfg [] w" "wk_destroy w = DCancelling 0" "usable w 0" "length (wk_jobs w) = 1"
    "wk_jobs w ! 0 = \<lparr>job_msg = demo_malformed, job_chan = 0, job_phase = AwaitingConfirm reason\<rparr>" by (rule demo_stopping)
  obtain w1 w2 where s: "wk_step demo_cfg (Shutdown CancelOk) w = Some w1" "wk_run demo_cfg [Handler 0 Confirm] w1 = Some w2"
    "length (wk_jobs w1) = 1" "wk_step demo_cfg (Shutdown Drained) w2 \<noteq> None" by (rule demo_drains [OF w(2-5)])
  have "wk_reach demo_cfg [] w2" using w(1) s(1,2) wk_reach.step wk_run_reach by blast
  with graceful_shutdown [OF w(1) s(1,2)] s(3,4) show ?thesis by metis
qed

theorem delivery_settled_once_witness:
  "\<exists>w. wk_reach demo_cfg [] w \<and> settles w 0 = [Ack demo_malformed]
     \<and> (stored ''x'' w \<or> 0 \<in> set (wk_confirmed w) \<and> copied w 0)"
proof -
  obtain w reason where w: "wk_reach demo_cfg [] w" "wk_destroy w = DCancelling 0" "usable w 0" "length (wk_jobs w) = 1"
    "wk_jobs w ! 0 = \<lparr>job_msg = demo_malformed, job_chan = 0, job_phase = AwaitingConfirm reason\<rparr>" by (rule demo_stopping)
  obtain w1 w2 where s: "wk_step demo_cfg (Shutdown CancelOk) w = Some w1" "wk_run demo_cfg [Handler 0 Confirm] w1 = Some w2"
    and job: "wk_jobs w2 = [\<lparr>job_msg = demo_malformed, job_chan = 0, job_phase = Handled (Some ''dead_lettered'')\<rparr>]"
    and ack: "Ack demo_malformed \<in> set (settles w2 0)" by (rule demo_drains [OF w(2-5)])
  have reach: "wk_reach demo_cfg [] w2" using w(1) s(1,2) wk_reach.step wk_run_reach by blast
  from delivery_settled_once [OF reach, of 0] job ack
  have "settles w2 0 = [Ack demo_malformed] \<and> (stored ''x'' w2 \<or> 0 \<in> set (wk_confirmed w2) \<and> copied w2 0)"
    by (auto simp: demo_malformed_def)
  with reach show ?thesis by blast
qed

text \<open>The shutdown misses a session that is being set up. If the worker is told to stop while the loop awaits its
  connection, there is nothing to cancel, nothing to drain and nothing to close, and the wait for the loop is
  bounded: \<open>onModuleDestroy\<close> returns. The loop then goes on to subscribe (\<open>consumeUntilClosed\<close> does not look at \<open>stopping\<close>
  again) and a message is delivered to the stopped worker.\<close>

lemma late_session_consumes:
  "\<exists>w. wk_run (cfg\<lparr>cf_prefetch := Suc n\<rparr>) [Loop Bootstrap, Shutdown Destroy, Shutdown Drained, Shutdown LoopTimeout,
       Loop Connect, Loop Channel, Loop Prefetched, Loop (Consume tag), Loop Resume, Broker (Deliver 0 msg)]
       (new_worker rows) = Some w
     \<and> wk_destroy w = DDown \<and> wk_stopping w \<and> received w = [msg]"
proof -
  let ?cfg = "cfg\<lparr>cf_prefetch := Suc n\<rparr>"
  obtain w where w: "wk_run ?cfg [Loop Bootstrap, Shutdown Destroy, Shutdown Drained, Shutdown LoopTimeout,
       Loop Connect, Loop Channel, Loop Prefetched, Loop (Consume tag), Loop Resume] (new_worker rows) = Some w"
    and st: "wk_destroy w = DDown" "wk_stopping w" "wk_jobs w = []" "usable w 0" "wc_consuming (wk_chans w ! 0)"
    by (simp add: new_worker_def loop_head_def destroy_begin_def wake_def begin_drain_def in_flight_def destroy_close_def
        await_loop_def session_ready_def usable_def)
  have "wk_step ?cfg (Broker (Deliver 0 msg)) w = Some (start_job ?cfg 0 msg w)" using st by (simp add: unsettled_on_def)
  from wk_run_snoc [OF w this]
  have "wk_run ?cfg [Loop Bootstrap, Shutdown Destroy, Shutdown Drained, Shutdown LoopTimeout,
       Loop Connect, Loop Channel, Loop Prefetched, Loop (Consume tag), Loop Resume, Broker (Deliver 0 msg)]
       (new_worker rows) = Some (start_job ?cfg 0 msg w)" by (simp only: append.simps)
  moreover have "wk_destroy (start_job ?cfg 0 msg w) = DDown" "wk_stopping (start_job ?cfg 0 msg w)"
    using start_job_session [of ?cfg 0 msg w] st by (simp_all add: session_part_def)
  ultimately show ?thesis using start_job_received [of ?cfg 0 msg w] st(3) by (auto simp del: wk_run.simps)
qed

lemma concurrent_notifications_demo:
  "\<exists>w. wk_reach demo_cfg [] w \<and> length (wk_jobs w) = 1 \<and> notes_ok (note_rows w)"
proof -
  obtain w reason where w: "wk_reach demo_cfg [] w" "length (wk_jobs w) = 1" by (rule demo_stopping)
  have "notes_ok []" by (simp add: notes_ok_def)
  from concurrent_notifications [OF w(1) this] w show ?thesis by blast
qed

section \<open>The steps together are \<open>handleMessage\<close>\<close>

text \<open>The part of the machine's state that \<open>handleMessage\<close> knows, with nothing said to the broker yet, and a channel that takes every
  operation and on which a publish is confirmed, or fails with an error.\<close>

definition consumer_view :: "worker \<Rightarrow> consumer_world" where
  "consumer_view w = \<lparr>logs = logs w, counters = counters w, note_rows = note_rows w, note_stmts = note_stmts w, chan_ops = []\<rparr>"

definition confirm_channel :: "thrown option \<Rightarrow> channel" where
  "confirm_channel answer ops = (case last ops of Publish _ _ _ _ \<Rightarrow> answer | _ \<Rightarrow> None)"

definition handler_env :: "worker_cfg \<Rightarrow> thrown option \<Rightarrow> consumer_env" where
  "handler_env cfg answer =
     \<lparr>ce_notif = cf_notif cfg, ce_channel = confirm_channel answer, ce_maxAttempts = cf_maxAttempts cfg\<rparr>"

definition confirm_sum :: "thrown option \<Rightarrow> thrown + unit" where
  "confirm_sum answer = (case answer of None \<Rightarrow> Inr () | Some e \<Rightarrow> Inl e)"

text \<open>How the publish of a handler was answered, by its steps.\<close>

fun confirm_answer :: "job_event list \<Rightarrow> thrown option" where
  "confirm_answer [] = None"
| "confirm_answer (ConfirmError e # es) = Some e"
| "confirm_answer (ConfirmTimeout # es) = Some dlq_confirm_timeout"
| "confirm_answer (_ # es) = confirm_answer es"

definition same_effects :: "nat \<Rightarrow> worker \<Rightarrow> worker \<Rightarrow> consumer_world \<Rightarrow> bool" where
  "same_effects i w w' c \<longleftrightarrow>
     logs w' = logs c \<and> counters w' = counters c \<and> note_rows w' = note_rows c \<and> note_stmts w' = note_stmts c
     \<and> wk_ops w' = wk_ops w @ map (Pair i) (chan_ops c)"

definition count_outcome :: "string \<Rightarrow> ('z consumer_world_scheme, unit) io" where
  "count_outcome outcome =
     seq_io (count_io ''notification.messages'' [(''outcome'', outcome)])
       (count_io ''notification.processing.duration'' [(''outcome'', outcome)])"

lemma same_usable: "session_part w' = session_part w \<Longrightarrow> usable w' ch = usable w ch"
  by (auto simp: session_part_def usable_def)

text \<open>A failure: it is rejected at once, or its copy is on the way to the dead letter queue and the confirm decides.\<close>

lemma failure_ends:
  fixes cfg :: worker_cfg and msg :: message and err :: thrown
  assumes "usable w (job_chan (wk_jobs w ! i))" "i < length (wk_jobs w)"
  defines "w1 \<equiv> job_end i (begin_failure cfg i msg err) w"
    and "c \<equiv> \<lambda>answer. snd (bind_io (handleFailure (handler_env cfg answer) msg err) count_outcome (consumer_view w))"
  obtains (rejected) "handled (wk_jobs w1 ! i)" "\<And>answer. same_effects i w w1 (c answer)"
  | (confirming) reason where "i < length (wk_jobs w1)" "job_phase (wk_jobs w1 ! i) = AwaitingConfirm reason"
      "job_msg (wk_jobs w1 ! i) = job_msg (wk_jobs w ! i)"
      "\<And>answer. handled (wk_jobs (confirm_answered i msg reason (confirm_sum answer) w1) ! i)"
      "\<And>answer. same_effects i w (confirm_answered i msg reason (confirm_sum answer) w1) (c answer)"
proof -
  note defs = w1_def c_def job_end_def begin_failure_def begin_dead_letter_def dead_letter_failed_def job_op_def set_phase_def
    handleFailure_def try_failure_def deadLetter_def dead_letter_op_def chan_call_def handler_env_def confirm_channel_def
    count_outcome_def consumer_view_def same_effects_def handled_def obs_defs io_defs Let_def
  show thesis
  proof (cases "failedAttempts msg")
    case (Inl e)
    with assms(1,2) show thesis by (intro rejected) (simp_all add: defs)
  next
    case (Inr n)
    show thesis
    proof (cases "has_class PermanentError err \<or> js_ge (js_add n (Fin 1)) (Fin (of_nat (cf_maxAttempts cfg)))")
      case False
      with Inr assms(1,2) show thesis by (intro rejected) (simp_all add: defs)
    next
      case True
      define reason where "reason = (if has_class PermanentError err then ''permanent failure: '' @ error_text err
        else ''gave up after '' @ num_string (js_add n (Fin 1)) @ '' attempts: '' @ error_text err)"
      have w1: "w1 = set_phase i (AwaitingConfirm reason) (w\<lparr>wk_ops := wk_ops w @ [(i, dead_letter_op msg reason n)]\<rparr>)"
        using True Inr assms(1,2) by (auto simp: defs reason_def)
      have use1: "usable w1 (job_chan (wk_jobs w1 ! i))"
        using assms(1,2) by (simp add: w1 set_phase_def usable_def)
      have c: "c answer = (case answer of
            None \<Rightarrow> snd (seq_io (log_io Error (''notification.dead_lettered messageId='' @ or_unknown (msg_messageId msg)
                @ '' correlationId='' @ or_unknown (msg_correlationId msg) @ '' reason='' @ reason)) (count_outcome ''dead_lettered'')
              ((consumer_view w)\<lparr>chan_ops := [dead_letter_op msg reason n, Ack msg]\<rparr>))
          | Some e \<Rightarrow> snd (seq_io (log_io Error (''notification.dead_letter_failed messageId='' @ or_unknown (msg_messageId msg)
                @ '' cause='' @ message_of e)) (count_outcome ''dead_letter_failed'')
              ((consumer_view w)\<lparr>chan_ops := [dead_letter_op msg reason n, Nack msg]\<rparr>)))" for answer
        using True Inr by (cases answer) (auto simp: defs reason_def)
      have "handled (wk_jobs (confirm_answered i msg reason (confirm_sum answer) w1) ! i)
          \<and> same_effects i w (confirm_answered i msg reason (confirm_sum answer) w1) (c answer)" for answer
        unfolding c using use1 assms(2)
        by (cases answer) (simp_all add: w1 confirm_sum_def confirm_answered_def job_end_def end_dead_letter_def dead_letter_failed_def job_op_def usable_def
            set_phase_def count_outcome_def consumer_view_def same_effects_def handled_def obs_defs io_defs)
      moreover have "i < length (wk_jobs w1)" "job_phase (wk_jobs w1 ! i) = AwaitingConfirm reason" "job_msg (wk_jobs w1 ! i) = job_msg (wk_jobs w ! i)"
        using assms(2) by (simp_all add: w1 set_phase_def)
      ultimately show thesis using confirming by blast
    qed
  qed
qed

lemma handled_stops:
  assumes "handled (wk_jobs w ! i)"
  shows "wk_run cfg (map (Handler i) es) w = Some w' \<longleftrightarrow> es = [] \<and> w' = w"
proof (cases es)
  case (Cons e es')
  have "job_step cfg i e w = None" using assms by (auto simp: job_step.simps handled_def Let_def split: job_phase.splits job_event.splits)
  with Cons show ?thesis by simp
qed auto

text \<open>The runs of a handler from the failure on.\<close>

lemma failure_runs:
  fixes cfg :: worker_cfg and err :: thrown
  assumes "usable w (job_chan (wk_jobs w ! i))" "i < length (wk_jobs w)" "job_msg (wk_jobs w ! i) = msg"
  defines "w1 \<equiv> job_end i (begin_failure cfg i msg err) w"
  shows "wk_run cfg (map (Handler i) es) w1 = Some w' \<Longrightarrow> handled (wk_jobs w' ! i) \<Longrightarrow>
      same_effects i w w' (snd (bind_io (handleFailure (handler_env cfg (confirm_answer es)) msg err) count_outcome (consumer_view w)))"
    and "x \<in> {Confirm, ConfirmTimeout} \<union> range ConfirmError \<Longrightarrow>
      \<exists>es w'. set es \<subseteq> {x} \<and> length es \<le> 1 \<and> wk_run cfg (map (Handler i) es) w1 = Some w' \<and> handled (wk_jobs w' ! i)"
proof -
  have step: "job_step cfg i e w1 = (case e of
        Confirm \<Rightarrow> Some (confirm_answered i msg reason (confirm_sum None) w1)
      | ConfirmError err \<Rightarrow> Some (confirm_answered i msg reason (confirm_sum (Some err)) w1)
      | ConfirmTimeout \<Rightarrow> Some (confirm_answered i msg reason (confirm_sum (Some dlq_confirm_timeout)) w1)
      | _ \<Rightarrow> None)"
    if "i < length (wk_jobs w1)" "job_phase (wk_jobs w1 ! i) = AwaitingConfirm reason" "job_msg (wk_jobs w1 ! i) = job_msg (wk_jobs w ! i)"
    for e reason
    using that assms(3) by (simp add: job_step.simps confirm_sum_def Let_def split: job_event.splits)
  show "same_effects i w w' (snd (bind_io (handleFailure (handler_env cfg (confirm_answer es)) msg err) count_outcome (consumer_view w)))"
    if run: "wk_run cfg (map (Handler i) es) w1 = Some w'" and over: "handled (wk_jobs w' ! i)"
  proof (cases rule: failure_ends [OF assms(1,2), of cfg msg err, folded w1_def])
    case 1
    with run show ?thesis by (simp add: handled_stops)
  next
    case (2 reason)
    have "es \<noteq> []" using run over 2(2) by (auto simp: handled_def)
    then obtain e es' where es: "es = e # es'" by (cases es) auto
    note last = handled_stops [OF 2(4)]
    from run show ?thesis
      unfolding es by (cases e) (auto simp: step [OF 2(1-3)] last intro: 2(5))
  qed
  show "\<exists>es w'. set es \<subseteq> {x} \<and> length es \<le> 1 \<and> wk_run cfg (map (Handler i) es) w1 = Some w' \<and> handled (wk_jobs w' ! i)"
    if x: "x \<in> {Confirm, ConfirmTimeout} \<union> range ConfirmError"
  proof (cases rule: failure_ends [OF assms(1,2), of cfg msg err, folded w1_def])
    case 1
    then show ?thesis by (intro exI [of _ "[]"]) simp
  next
    case (2 reason)
    from x show ?thesis by (intro exI [of _ "[x]"]) (auto simp: step [OF 2(1-3)] intro: 2(4))
  qed
qed

lemma record_view:
  fixes w :: worker
  assumes "notifications_record env ev w = (r, w')"
  shows "notifications_record env ev (consumer_view w) = (r, consumer_view w')"
  using assms
  by (cases "ne_fail env (note_stmts w)"; cases "insert_notification (ne_uuid env (note_stmts w)) (ne_now env (note_stmts w)) ev (note_rows w)";
      cases "ne_lost env (note_stmts w)")
    (auto simp: notifications_record_def note_query_def consumer_view_def obs_defs io_defs Let_def split: prod.splits if_splits)

lemma view_jobs [simp]: "consumer_view (w\<lparr>wk_jobs := js\<rparr>) = consumer_view w" "consumer_view (set_phase i p w) = consumer_view w"
  by (simp_all add: consumer_view_def set_phase_def)

lemma handleMessage_eq: "handleMessage env msg = bind_io (catch_io (record_and_ack env msg) (handleFailure env msg)) count_outcome"
  by (simp add: handleMessage_def count_outcome_def [abs_def])

text \<open>The three ways \<open>handleMessage\<close> takes.\<close>

lemma handleMessage_branches:
  "parseOrderCreated (msg_content msg) = Inl err \<Longrightarrow> handleMessage env msg c = bind_io (handleFailure env msg err) count_outcome c"
  "parseOrderCreated (msg_content msg) = Inr ev \<Longrightarrow> notifications_record (ce_notif env) ev c = (Inl err, c') \<Longrightarrow>
     handleMessage env msg c = bind_io (handleFailure env msg err) count_outcome c'"
  "parseOrderCreated (msg_content msg) = Inr ev \<Longrightarrow> notifications_record (ce_notif env) ev c = (Inr fresh, c') \<Longrightarrow>
     ce_channel env (chan_ops c' @ [Ack msg]) = None \<Longrightarrow>
     handleMessage env msg c = count_outcome (if fresh then ''processed'' else ''duplicate'') (c'\<lparr>chan_ops := chan_ops c' @ [Ack msg]\<rparr>)"
  by (simp_all add: handleMessage_eq record_and_ack_def bind_io_def catch_io_def lift_io_def seq_io_def chan_call_def return_io_def)

text \<open>The runs of a handler whose message is valid: the insert, its answer, and what follows from it.\<close>

lemma insert_runs:
  assumes "usable w ch" "parseOrderCreated (msg_content msg) = Inr ev"
  obtains r w2 where "length (wk_jobs w) < length (wk_jobs w2)" "job_msg (wk_jobs w2 ! length (wk_jobs w)) = msg"
    "usable w2 (job_chan (wk_jobs w2 ! length (wk_jobs w)))"
    "wk_ops w2 = wk_ops w" "\<And>a. notifications_record (ce_notif (handler_env cfg a)) ev (consumer_view w) = (r, consumer_view w2)"
    "\<And>es w'. wk_run cfg (map (Handler (length (wk_jobs w))) es) (start_job cfg ch msg w) = Some w' \<and> handled (wk_jobs w' ! length (wk_jobs w)) \<longleftrightarrow>
      (\<exists>es'. es = InsertRun # InsertAnswer # es' \<and> wk_run cfg (map (Handler (length (wk_jobs w))) es') (insert_answered cfg (length (wk_jobs w)) msg r w2) = Some w'
         \<and> handled (wk_jobs w' ! length (wk_jobs w)))"
proof -
  let ?i = "length (wk_jobs w)"
  let ?j = "\<lparr>job_msg = msg, job_chan = ch, job_phase = Inserting ev\<rparr>"
  let ?w1 = "w\<lparr>wk_jobs := wk_jobs w @ [?j]\<rparr>"
  let ?w2 = "run_insert cfg ?i ev ?w1"
  have start: "start_job cfg ch msg w = ?w1" using assms(2) by (simp add: start_job_def Let_def)
  obtain r w0 where rec: "notifications_record (cf_notif cfg) ev ?w1 = (r, w0)" by fastforce
  have w2: "wk_jobs ?w2 = wk_jobs w @ [?j\<lparr>job_phase := Inserted r\<rparr>]" "wk_ops ?w2 = wk_ops w" "consumer_view ?w2 = consumer_view w0"
    using record_part [OF rec] rec by (simp_all add: run_insert_def set_phase_def)
  have cv: "notifications_record (ce_notif (handler_env cfg a)) ev (consumer_view w) = (r, consumer_view ?w2)" for a
    using record_view [OF rec] w2(3) by (simp add: handler_env_def)
  have use2: "usable ?w2 (job_chan (wk_jobs ?w2 ! ?i))"
    using same_usable [OF run_insert_session, of cfg ?i ev ?w1] assms(1) w2 by (simp add: usable_def)
  have ran: "job_step cfg ?i e ?w1 = (if e = InsertRun then Some ?w2 else None)"
    "job_step cfg ?i e ?w2 = (if e = InsertAnswer then Some (insert_answered cfg ?i msg r ?w2) else None)" for e
    using w2 by (simp_all add: job_step.simps Let_def split: job_event.splits)
  have runs: "wk_run cfg (map (Handler ?i) es) ?w1 = Some w' \<and> handled (wk_jobs w' ! ?i) \<longleftrightarrow>
      (\<exists>es'. es = InsertRun # InsertAnswer # es' \<and> wk_run cfg (map (Handler ?i) es') (insert_answered cfg ?i msg r ?w2) = Some w'
         \<and> handled (wk_jobs w' ! ?i))" for es w'
  proof (cases es)
    case (Cons e1 es1)
    then show ?thesis using w2(1) by (cases es1) (auto simp: ran handled_def split: if_splits)
  qed (auto simp: handled_def)
  show thesis
    by (rule that [of ?w2 r]) (use w2 cv use2 runs start in simp_all)
qed



end
