(* ===== verification/Json_Roundtrip.thy ===== *)
theory Json_Roundtrip
  imports Json
begin

text \<open>
  Round trips of JSON texts: \<open>JSON.parse\<close> reads back what \<open>JSON.stringify\<close> wrote. Numbers are the hard
  part: the text of a number is a number literal of the grammar, and it denotes the same number whenever its
  shortest digits do.
\<close>

section \<open>The text of a number is a literal\<close>

lemma pow_int_powi: "pow_int b e = b powi e"
  by (simp add: pow_int_def power_int_def divide_inverse power_inverse)

lemma ilog10_bounds: "0 < n \<Longrightarrow> 10 ^ ilog10 n \<le> n \<and> n < 10 ^ Suc (ilog10 n)"
proof (induction n rule: ilog10.induct)
  case (1 n)
  show ?case
  proof (cases "n < 10")
    case True
    with "1.prems" show ?thesis by (simp add: ilog10.simps [of n])
  next
    case False
    then have "10 ^ ilog10 (n div 10) \<le> n div 10 \<and> n div 10 < 10 ^ Suc (ilog10 (n div 10))"
      using 1 by auto
    then show ?thesis using False by (auto simp: ilog10.simps [of n])
  qed
qed

lemma dec_exponent_le:
  assumes "0 < x"
  shows "pow_int 10 (dec_exponent x) \<le> x"
proof -
  obtain n d where q: "quotient_of x = (n, d)" by (cases "quotient_of x")
  have x: "x = of_int n / of_int d" and d: "0 < d" using quotient_of_div [OF q] quotient_of_denom_pos [OF q] .
  with assms have n: "0 < n" by (simp add: zero_less_divide_iff)
  let ?e = "int (ilog10 n) - int (ilog10 d)"
  have "(10 :: rat) powi (?e - 1) = 10 ^ ilog10 n / 10 ^ Suc (ilog10 d)"
    by (simp add: power_int_diff)
  also have "\<dots> \<le> of_int n / of_int d"
  proof (rule frac_le)
    have "of_int (10 ^ ilog10 n) \<le> (of_int n :: rat)" using ilog10_bounds [OF n] by (simp only: of_int_le_iff)
    then show "10 ^ ilog10 n \<le> (of_int n :: rat)" by simp
    have "(of_int d :: rat) \<le> of_int (10 ^ Suc (ilog10 d))" 
      using ilog10_bounds [OF d] unfolding of_int_le_iff by linarith
    then show "of_int d \<le> (10 :: rat) ^ Suc (ilog10 d)" by simp
  qed (use n d in auto)
  finally have "pow_int 10 (?e - 1) \<le> x" by (simp add: pow_int_powi x)
  then show ?thesis by (auto simp: dec_exponent_def q Let_def)
qed

lemma scaled_pos:
  assumes "0 < x" "0 < k"
  shows "0 < \<lfloor>x * pow_int 10 (int k - (dec_exponent x + 1)) + 1 / 2\<rfloor>"
proof -
  let ?j = "int k - (dec_exponent x + 1)"
  have "(1 :: rat) \<le> 10 powi (dec_exponent x + ?j)" using assms(2) by (simp add: power_int_def)
  also have "\<dots> = pow_int 10 (dec_exponent x) * pow_int 10 ?j"
    unfolding pow_int_powi by (rule power_int_add) simp
  also have "\<dots> \<le> x * pow_int 10 ?j"
    by (rule mult_right_mono [OF dec_exponent_le [OF assms(1)]]) (simp add: less_imp_le)
  finally have "1 \<le> x * pow_int 10 ?j + 1 / 2" by simp
  then show ?thesis by (simp add: zero_less_floor)
qed

lemma shortest_digits_pos:
  assumes "0 < x" "0 < k"
  shows "0 < fst (shortest_digits f k x)"
  using assms(2)
proof (induction f arbitrary: k)
  case (Suc f)
  have "0 < \<lfloor>x * pow_int 10 (int k - (dec_exponent x + 1)) + 1 / 2\<rfloor>"
    using scaled_pos [OF assms(1) Suc.prems] .
  then show ?case using Suc by (simp add: shortest_digits.simps [of "Suc f"] Let_def)
next
  case 0
  then show ?case using scaled_pos [OF assms(1) 0] by (simp add: shortest_digits.simps [of 0] Let_def)
qed

text \<open>The parts of a literal: digits, a fraction if there are digits of one, an exponent if there is one.\<close>

definition frac_text :: "string \<Rightarrow> string" where
  "frac_text fp = (if fp = [] then [] else CHR ''.'' # fp)"

definition exp_text :: "(bool \<times> string) option \<Rightarrow> string" where
  "exp_text ex = (case ex of None \<Rightarrow> [] | Some (neg, ep) \<Rightarrow> CHR ''e'' # (if neg then CHR ''-'' else CHR ''+'') # ep)"

definition exp_val :: "(bool \<times> string) option \<Rightarrow> int" where
  "exp_val ex = (case ex of None \<Rightarrow> 0 | Some (neg, ep) \<Rightarrow> (if neg then - digits_val 10 ep else digits_val 10 ep))"

definition literal_ok :: "string \<Rightarrow> string \<Rightarrow> (bool \<times> string) option \<Rightarrow> bool" where
  "literal_ok ip fp ex \<longleftrightarrow>
     ip \<noteq> [] \<and> list_all is_digit ip \<and> (hd ip = CHR ''0'' \<longrightarrow> length ip = 1) \<and> list_all is_digit fp
     \<and> (case ex of None \<Rightarrow> True | Some (_, ep) \<Rightarrow> ep \<noteq> [] \<and> list_all is_digit ep)"

text \<open>What may follow a number in a text.\<close>

definition boundary :: "string \<Rightarrow> bool" where
  "boundary rest \<longleftrightarrow> rest = [] \<or> hd rest = CHR '','' \<or> hd rest = CHR '']'' \<or> hd rest = CHR ''}''"

definition nodigit :: "string \<Rightarrow> bool" where
  "nodigit r \<longleftrightarrow> (case r of [] \<Rightarrow> True | c # _ \<Rightarrow> \<not> is_digit c)"

lemma digit_run:
  assumes "list_all is_digit ds" "nodigit r"
  shows "takeWhile is_digit (ds @ r) = ds" "dropWhile is_digit (ds @ r) = r"
  using assms by (induction ds) (auto simp: nodigit_def split: list.splits)

lemma boundary_cases:
  assumes "boundary rest"
  shows "nodigit rest" "take 1 rest \<noteq> ''.''" "take 1 rest \<noteq> ''e''" "take 1 rest \<noteq> ''E''"
  using assms by (cases rest; auto simp: boundary_def nodigit_def is_digit_def byte_def)+

lemma nodigit_punct: "nodigit (CHR ''.'' # s)" "nodigit (CHR ''e'' # s)" "\<not> is_digit (CHR ''-'')" "\<not> is_digit (CHR ''+'')"
  by (simp_all add: nodigit_def is_digit_def byte_def)

lemma read_exponent:
  assumes "boundary rest" "literal_ok ip fp ex"
  defines "t \<equiv> exp_text ex @ rest"
  shows "nodigit t" "take 1 t \<noteq> ''.''" "(take 1 t = ''e'' \<or> take 1 t = ''E'') \<longleftrightarrow> ex \<noteq> None"
  using boundary_cases [OF assms(1)] nodigit_punct
  by (auto simp: t_def exp_text_def split: option.splits)

lemma read_exp_literal:
  assumes "literal_ok ip fp ex" "boundary rest"
  shows "read_exp (exp_text ex @ rest) = (True, exp_val ex, rest)"
proof (cases ex)
  case None
  then show ?thesis using boundary_cases [OF assms(2)] by (simp add: read_exp_def exp_text_def exp_val_def)
next
  case (Some p)
  obtain neg ep where p: "p = (neg, ep)" by (cases p)
  have "ep \<noteq> []" "list_all is_digit ep" using assms(1) Some p by (simp_all add: literal_ok_def)
  with digit_run [of ep rest] boundary_cases(1) [OF assms(2)] Some p show ?thesis
    by (simp add: read_exp_def Let_def exp_text_def exp_val_def del: takeWhile_eq_all_conv)
qed

lemma read_frac_literal:
  assumes "list_all is_digit fp" "nodigit t" "take 1 t \<noteq> ''.''"
  shows "read_frac (frac_text fp @ t) = (True, fp, t)"
  using digit_run [OF assms(1,2)] assms(3) by (simp add: read_frac_def frac_text_def)

lemma read_number_literal:
  assumes ok: "literal_ok ip fp ex" and rest: "boundary rest"
  shows "read_number (ip @ frac_text fp @ exp_text ex @ rest) = Some (to_double (decimal_value (ip, fp, exp_val ex)), rest)"
    and "read_number (CHR ''-'' # ip @ frac_text fp @ exp_text ex @ rest)
      = Some (to_double (- decimal_value (ip, fp, exp_val ex)), rest)"
proof -
  let ?t = "exp_text ex @ rest" and ?s = "ip @ frac_text fp @ exp_text ex @ rest"
  note t = read_exponent [OF rest ok]
  have ip: "ip \<noteq> []" "list_all is_digit ip" "\<not> (hd ip = CHR ''0'' \<and> 1 < length ip)"
    using ok by (auto simp: literal_ok_def)
  obtain c ip' where c: "ip = c # ip'" "is_digit c" using ip by (cases ip) auto
  have neg: "take 1 ?s \<noteq> ''-''" using c nodigit_punct by auto
  have "nodigit (frac_text fp @ ?t)" using t nodigit_punct by (simp add: frac_text_def)
  note s1 = digit_run [OF ip(2) this]
  have f: "read_frac (frac_text fp @ ?t) = (True, fp, ?t)"
    using ok t by (intro read_frac_literal) (simp_all add: literal_ok_def)
  note e = read_exp_literal [OF ok rest]
  show "read_number ?s = Some (to_double (decimal_value (ip, fp, exp_val ex)), rest)"
    unfolding read_number_def Let_def if_not_P [OF neg] s1 f using neg ip by (auto simp: e)
  have m: "take 1 (CHR ''-'' # ?s) = ''-''" "drop 1 (CHR ''-'' # ?s) = ?s" by simp_all
  show "read_number (CHR ''-'' # ?s) = Some (to_double (- decimal_value (ip, fp, exp_val ex)), rest)"
    unfolding read_number_def Let_def if_P [OF m(1)] m(2) s1 f using m(1) ip by (auto simp: e)
qed

text \<open>The parts of the text of a positive number.\<close>

lemma int_string_hd: "0 < n \<Longrightarrow> hd (int_string n) \<noteq> CHR ''0''"
proof (induction n rule: int_string.induct)
  case (1 n)
  show ?case
  proof (cases "n < 10")
    case True
    have "byte (char_of (48 + nat n)) = 48 + nat n" using True by (intro byte_char_of) simp
    moreover have "byte (CHR ''0'') = 48" by (simp add: byte_def)
    ultimately have "char_of (48 + nat n) \<noteq> CHR ''0''" using "1.prems" by force
    with True show ?thesis by (simp add: int_string.simps [of n])
  next
    case False
    with 1 int_string_digits [of "n div 10"] show ?thesis by (simp add: int_string.simps [of n] hd_append)
  qed
qed

lemma positive_literal:
  assumes "0 < x"
  obtains ip fp ex where "positive_string x = ip @ frac_text fp @ exp_text ex" "literal_ok ip fp ex"
proof -
  obtain s n where sd: "shortest_digits 16 1 x = (s, n)" by (cases "shortest_digits 16 1 x")
  have s: "0 < s" using shortest_digits_pos [OF assms, of 1 16] sd by simp
  define ds where "ds = int_string s"
  have ds: "ds \<noteq> []" "list_all is_digit ds" "hd ds \<noteq> CHR ''0''"
    using int_string_digits [of s] int_string_hd [OF s] s by (simp_all add: ds_def)
  have z: "list_all is_digit (replicate m (CHR ''0''))" "is_digit (CHR ''0'')" for m
    by (simp_all add: list_all_iff is_digit_def byte_def)
  have part: "list_all is_digit (take m ds)" "list_all is_digit (drop m ds)" for m
    using ds(2) by (auto simp: list_all_iff dest: in_set_takeD in_set_dropD)
  have hd_take: "take m ds \<noteq> []" "hd (take m ds) \<noteq> CHR ''0''" if "0 < m" for m
    using ds that by (cases ds; cases m; auto)+
  let ?k = "int (length ds)"
  have ps: "positive_string x =
      (if ?k \<le> n \<and> n \<le> 21 then ds @ replicate (nat (n - ?k)) (CHR ''0'')
       else if 0 < n \<and> n \<le> 21 then take (nat n) ds @ ''.'' @ drop (nat n) ds
       else if - 6 < n \<and> n \<le> 0 then ''0.'' @ replicate (nat (- n)) (CHR ''0'') @ ds
       else (if ?k = 1 then ds else take 1 ds @ ''.'' @ drop 1 ds)
         @ ''e'' @ (if n - 1 < 0 then ''-'' else ''+'') @ int_string \<bar>n - 1\<bar>)"
    unfolding positive_string_def sd Let_def prod.case ds_def ..
  have k: "1 \<le> ?k" using ds(1) by (cases ds) auto
  consider "?k \<le> n" "n \<le> 21" | "0 < n" "n \<le> 21" "n < ?k" | "- 6 < n" "n \<le> 0" | "n \<le> - 6 \<or> 21 < n"
    by linarith
  then show thesis
  proof cases
    case 1
    show ?thesis
      by (rule that [of "ds @ replicate (nat (n - ?k)) (CHR ''0'')" "[]" None])
        (use 1 ds z in \<open>auto simp: ps frac_text_def exp_text_def literal_ok_def\<close>)
  next
    case 2
    show ?thesis
      by (rule that [of "take (nat n) ds" "drop (nat n) ds" None])
        (use 2 hd_take [of "nat n"] part in \<open>auto simp: ps frac_text_def exp_text_def literal_ok_def\<close>)
  next
    case 3
    show ?thesis
      by (rule that [of "''0''" "replicate (nat (- n)) (CHR ''0'') @ ds" None])
        (use 3 k ds z in \<open>auto simp: ps frac_text_def exp_text_def literal_ok_def\<close>)
  next
    case 4
    have p: "positive_string x = (if ?k = 1 then ds else take 1 ds @ ''.'' @ drop 1 ds)
         @ ''e'' @ (if n - 1 < 0 then ''-'' else ''+'') @ int_string \<bar>n - 1\<bar>"
      unfolding ps using 4 k by auto
    have one: "take 1 ds = ds" "drop 1 ds = []" if "?k = 1" using that by auto
    have e: "int_string \<bar>n - 1\<bar> \<noteq> []" "list_all is_digit (int_string \<bar>n - 1\<bar>)"
      using int_string_digits [of "\<bar>n - 1\<bar>"] by auto
    show ?thesis
      by (rule that [of "take 1 ds" "drop 1 ds" "Some (n - 1 < 0, int_string \<bar>n - 1\<bar>)"])
        (use k one e hd_take [of 1] part in \<open>auto simp: p frac_text_def exp_text_def literal_ok_def\<close>)
  qed
qed

text \<open>A number that its own text denotes: its shortest digits read back as the number.\<close>

definition reads_back :: "jsnum \<Rightarrow> bool" where
  "reads_back n \<longleftrightarrow> read_number (num_string n) = Some (n, [])"

lemma num_string_literal:
  obtains ip fp ex where "literal_ok ip fp ex"
    "num_string (Fin x) = ip @ frac_text fp @ exp_text ex \<or> num_string (Fin x) = CHR ''-'' # ip @ frac_text fp @ exp_text ex"
proof -
  consider "x = 0" | "0 < x" | "0 < - x" by linarith
  then show thesis
  proof cases
    case 1
    show ?thesis
      by (rule that [of "''0''" "[]" None]) (simp_all add: 1 literal_ok_def is_digit_def byte_def frac_text_def exp_text_def)
  next
    case 2
    then obtain ip fp ex where "positive_string x = ip @ frac_text fp @ exp_text ex" "literal_ok ip fp ex"
      by (rule positive_literal)
    with 2 show ?thesis by (intro that) auto
  next
    case 3
    then obtain ip fp ex where "positive_string (- x) = ip @ frac_text fp @ exp_text ex" "literal_ok ip fp ex"
      by (rule positive_literal)
    with 3 show ?thesis by (intro that) auto
  qed
qed

lemma read_num_string:
  obtains v where "\<And>rest. boundary rest \<Longrightarrow> read_number (num_string (Fin x) @ rest) = Some (v, rest)"
proof -
  obtain ip fp ex where ok: "literal_ok ip fp ex"
    and t: "num_string (Fin x) = ip @ frac_text fp @ exp_text ex \<or> num_string (Fin x) = CHR ''-'' # ip @ frac_text fp @ exp_text ex"
    by (rule num_string_literal)
  from t show thesis
  proof
    assume "num_string (Fin x) = ip @ frac_text fp @ exp_text ex"
    then show ?thesis using read_number_literal(1) [OF ok] by (intro that) (simp del: num_string.simps)
  next
    assume "num_string (Fin x) = CHR ''-'' # ip @ frac_text fp @ exp_text ex"
    then show ?thesis using read_number_literal(2) [OF ok] by (intro that) (simp del: num_string.simps)
  qed
qed

definition reread_num :: "jsnum \<Rightarrow> jsnum" where
  "reread_num n = (case read_number (num_string n) of Some (m, _) \<Rightarrow> m | None \<Rightarrow> n)"

lemma read_num_string_back:
  assumes "boundary rest"
  shows "read_number (num_string (Fin x) @ rest) = Some (reread_num (Fin x), rest)"
proof -
  from read_num_string [of x] obtain v
    where v: "\<And>rest. boundary rest \<Longrightarrow> read_number (num_string (Fin x) @ rest) = Some (v, rest)" by blast
  have "boundary []" by (simp add: boundary_def)
  from v [OF this] have "reread_num (Fin x) = v" by (simp add: reread_num_def del: num_string.simps)
  with v assms show ?thesis by simp
qed

lemma reread_num_same: "reads_back n \<Longrightarrow> reread_num n = n"
  by (simp add: reads_back_def reread_num_def)

text \<open>The first character of the text of a number is a digit or the sign.\<close>

lemma num_string_hd:
  obtains c s where "num_string (Fin x) = c # s" "is_digit c \<or> c = CHR ''-''"
proof -
  obtain ip fp ex where ok: "literal_ok ip fp ex"
    and t: "num_string (Fin x) = ip @ frac_text fp @ exp_text ex \<or> num_string (Fin x) = CHR ''-'' # ip @ frac_text fp @ exp_text ex"
    by (rule num_string_literal)
  then show thesis using that by (cases ip) (auto simp: literal_ok_def simp del: num_string.simps)
qed

section \<open>Values\<close>

text \<open>The values whose text is JSON: no \<open>undefined\<close>, no repeated property.\<close>

fun json_ok :: "jsval \<Rightarrow> bool" where
  "json_ok JUndefined = False"
| "json_ok JNull = True"
| "json_ok (JBool _) = True"
| "json_ok (JNum _) = True"
| "json_ok (JStr _) = True"
| "json_ok (JArr vs) = list_all json_ok vs"
| "json_ok (JObj ps) = (distinct (map fst ps) \<and> list_all (\<lambda>p. json_ok (snd p)) ps)"

text \<open>The same value with every number replaced by what its text denotes (\<open>null\<close> for a number that is not
  finite), and whether every number is what its text denotes.\<close>

fun reread :: "jsval \<Rightarrow> jsval" where
  "reread (JNum n) = (case n of Fin _ \<Rightarrow> JNum (reread_num n) | _ \<Rightarrow> JNull)"
| "reread (JArr vs) = JArr (map reread vs)"
| "reread (JObj ps) = JObj (map (\<lambda>p. (fst p, reread (snd p))) ps)"
| "reread v = v"

fun numbers_read_back :: "jsval \<Rightarrow> bool" where
  "numbers_read_back (JNum n) = (case n of Fin _ \<Rightarrow> reads_back n | _ \<Rightarrow> False)"
| "numbers_read_back (JArr vs) = list_all numbers_read_back vs"
| "numbers_read_back (JObj ps) = list_all (\<lambda>p. numbers_read_back (snd p)) ps"
| "numbers_read_back _ = True"

lemma reread_same: "numbers_read_back v \<Longrightarrow> reread v = v"
  by (induction v rule: reread.induct) (auto simp: reread_num_same list_all_iff intro!: map_idI split: jsnum.splits)

lemma json_string_hd:
  assumes "json_ok v"
  obtains c s where "json_string v = c # s" "\<not> is_ws c" "c \<noteq> CHR '']''" "c \<noteq> CHR ''}''"
proof -
  have dig: "\<not> is_ws c \<and> c \<noteq> CHR '']'' \<and> c \<noteq> CHR ''}''" if "is_digit c \<or> c = CHR ''-''" for c
    using that by (auto simp: is_digit_def is_ws_def byte_def)
  show thesis
  proof (cases v)
    case (JNum n)
    show ?thesis
    proof (cases n)
      case (Fin x)
      from num_string_hd [of x] obtain c s where "num_string (Fin x) = c # s" "is_digit c \<or> c = CHR ''-''" by blast
      with JNum Fin dig [of c] show ?thesis by (intro that [of c s]) (simp_all del: num_string.simps)
    qed (use JNum that [of "CHR ''n''" "''ull''"] in \<open>simp_all add: is_ws_def byte_def\<close>)
  next
    case (JBool b)
    then show ?thesis using that by (cases b) (auto simp: is_ws_def byte_def)
  qed (use assms that in \<open>auto simp: quote_def is_ws_def byte_def\<close>)
qed

lemma skip_ws_Cons [simp]: "\<not> is_ws c \<Longrightarrow> skip_ws (c # s) = c # s"
  by (simp add: skip_ws_def)

lemma punct_not_ws [simp]: "\<not> is_ws (CHR '','')" "\<not> is_ws (CHR '']'')" "\<not> is_ws (CHR ''}'')" "\<not> is_ws (CHR '':'')"
    "\<not> is_ws (CHR ''['')" "\<not> is_ws (CHR ''{'')" "\<not> is_ws (CHR 0x22)" "\<not> is_ws (CHR ''t'')" "\<not> is_ws (CHR ''f'')" "\<not> is_ws (CHR ''n'')"
  by (simp_all add: is_ws_def byte_def)

text \<open>A value is read back by any fuel that exceeds twice the length of its text.\<close>

definition reads_value :: "jsval \<Rightarrow> bool" where
  "reads_value v \<longleftrightarrow>
     (\<forall>fuel rest. 2 * length (json_string v) \<le> fuel \<and> boundary rest \<longrightarrow>
        read_value fuel (json_string v @ rest) = Some (reread v, rest))"

lemma reads_valueD:
  "reads_value v \<Longrightarrow> 2 * length (json_string v) \<le> fuel \<Longrightarrow> boundary rest
    \<Longrightarrow> read_value fuel (json_string v @ rest) = Some (reread v, rest)"
  by (simp add: reads_value_def)

lemma boundary_punct [simp]: "boundary (CHR '','' # s)" "boundary (CHR '']'' # s)" "boundary (CHR ''}'' # s)"
  by (simp_all add: boundary_def)

lemma read_elems_back:
  assumes "vs \<noteq> []" "list_all reads_value vs"
    and "2 * length (join_with '','' (map json_string vs)) + 1 \<le> fuel"
  shows "read_elems fuel acc (join_with '','' (map json_string vs) @ CHR '']'' # rest) = Some (JArr (acc @ map reread vs), rest)"
  using assms
proof (induction vs arbitrary: fuel acc rule: induct_list012)
  case (2 v)
  then obtain n where f: "fuel = Suc n" by (cases fuel) auto
  with 2 reads_valueD [of v n "CHR '']'' # rest"] show ?case by simp
next
  case (3 v v' vs)
  then obtain n where f: "fuel = Suc n" by (cases fuel) auto
  have "read_value n (json_string v @ CHR '','' # s) = Some (reread v, CHR '','' # s)" for s
    using 3 f by (intro reads_valueD) simp_all
  with "3.IH"(2) [of n "acc @ [reread v]"] 3 f show ?case by simp
qed simp

definition member_text :: "string \<times> jsval \<Rightarrow> string" where
  "member_text p = quote (fst p) @ '':'' @ json_string (snd p)"

lemma obj_set_fresh: "k \<notin> fst ` set ps \<Longrightarrow> obj_set k v ps = ps @ [(k, v)]"
  by (induction ps) auto

lemma read_member:
  assumes "reads_value (snd p)" "2 * length (member_text p) \<le> fuel" "s = CHR '','' # r \<or> s = CHR ''}'' # r"
  shows "read_members (Suc fuel) acc (member_text p @ s) =
    (if s = CHR '','' # r then read_members fuel (obj_set (fst p) (reread (snd p)) acc) r
     else Some (JObj (obj_set (fst p) (reread (snd p)) acc), r))"
proof -
  have t: "member_text p @ s = CHR 0x22 # (concat (map escape_char (fst p)) @ CHR 0x22 # CHR '':'' # json_string (snd p) @ s)"
    by (simp add: member_text_def quote_append)
  have "boundary s" using assms(3) by auto
  then have "read_value fuel (json_string (snd p) @ s) = Some (reread (snd p), s)"
    using assms(1,2) by (intro reads_valueD) (simp_all add: member_text_def)
  with assms(3) show ?thesis unfolding t by (auto simp: read_string_escaped)
qed

lemma read_members_back:
  assumes "ps \<noteq> []" "list_all (\<lambda>p. reads_value (snd p)) ps" "distinct (map fst (acc @ ps))"
    and "2 * length (join_with '','' (map member_text ps)) + 1 \<le> fuel"
  shows "read_members fuel acc (join_with '','' (map member_text ps) @ CHR ''}'' # rest)
    = Some (JObj (acc @ map (\<lambda>p. (fst p, reread (snd p))) ps), rest)"
  using assms
proof (induction ps arbitrary: fuel acc rule: induct_list012)
  case (2 p)
  then obtain n where f: "fuel = Suc n" by (cases fuel) auto
  with 2 read_member [of p n "CHR ''}'' # rest" rest acc] show ?case by (simp add: obj_set_fresh)
next
  case (3 p p' ps)
  then obtain n where f: "fuel = Suc n" by (cases fuel) auto
  have "read_members (Suc n) acc (member_text p @ CHR '','' # s) = read_members n (acc @ [(fst p, reread (snd p))]) s" for s
    using 3 f read_member [of p n "CHR '','' # s" s acc] by (simp add: obj_set_fresh)
  moreover have "distinct (map fst ((acc @ [(fst p, reread (snd p))]) @ p' # ps))" using 3 by simp
  ultimately show ?case using "3.IH"(2) [of "acc @ [(fst p, reread (snd p))]" n] 3 f by simp
qed simp

lemma reads_value_fuel:
  assumes "json_string v = c # s"
    and "\<And>m rest. 2 * length (json_string v) \<le> Suc m \<Longrightarrow> boundary rest
      \<Longrightarrow> read_value (Suc m) (json_string v @ rest) = Some (reread v, rest)"
  shows "reads_value v"
proof -
  have "read_value fuel (json_string v @ rest) = Some (reread v, rest)"
    if "2 * length (json_string v) \<le> fuel" "boundary rest" for fuel rest
  proof (cases fuel)
    case 0
    with that(1) assms(1) show ?thesis by simp
  qed (use that assms(2) in blast)
  then show ?thesis by (simp add: reads_value_def)
qed

lemma reads_value_JNum: "reads_value (JNum (Fin x))"
proof -
  from num_string_hd [of x] obtain c s where c: "num_string (Fin x) = c # s" "is_digit c \<or> c = CHR ''-''" by blast
  have "\<not> is_ws c" "c \<noteq> CHR ''{''" "c \<noteq> CHR ''[''" "c \<noteq> CHR 0x22" "c \<noteq> CHR ''t''" "c \<noteq> CHR ''f''" "c \<noteq> CHR ''n''"
    using c(2) by (auto simp: is_digit_def is_ws_def byte_def)
  with c read_num_string_back [of _ x] show ?thesis
    by (intro reads_value_fuel) (simp_all del: num_string.simps)
qed

lemma reads_value_JArr:
  assumes "list_all reads_value vs" "list_all json_ok vs"
  shows "reads_value (JArr vs)"
proof (cases vs)
  case Nil
  then show ?thesis by (intro reads_value_fuel) simp_all
next
  case (Cons v vs')
  with assms(2) have "json_ok v" by simp
  then obtain c s where c: "json_string v = c # s" "\<not> is_ws c" "c \<noteq> CHR '']''" by (rule json_string_hd)
  obtain s' where j: "join_with '','' (map json_string vs) = c # s'" using Cons c(1) by (cases vs') auto
  show ?thesis
  proof (rule reads_value_fuel)
    show "json_string (JArr vs) = CHR ''['' # (join_with '','' (map json_string vs) @ '']'')" by simp
    fix m and rest :: string
    assume "2 * length (json_string (JArr vs)) \<le> Suc m"
    then have "read_elems m [] (join_with '','' (map json_string vs) @ CHR '']'' # rest) = Some (JArr ([] @ map reread vs), rest)"
      using Cons assms(1) by (intro read_elems_back) auto
    then show "read_value (Suc m) (json_string (JArr vs) @ rest) = Some (reread (JArr vs), rest)" using c by (simp add: j)
  qed
qed

lemma reads_value_JObj:
  assumes "list_all (\<lambda>p. reads_value (snd p)) ps" "distinct (map fst ps)"
  shows "reads_value (JObj ps)"
proof (cases ps)
  case Nil
  then show ?thesis by (intro reads_value_fuel) simp_all
next
  case (Cons p ps')
  have mt: "(\<lambda>p. quote (fst p) @ '':'' @ json_string (snd p)) = member_text" by (simp add: member_text_def fun_eq_iff)
  obtain s' where j: "join_with '','' (map member_text ps) = CHR 0x22 # s'"
    using Cons by (cases ps') (auto simp: member_text_def quote_def)
  show ?thesis
  proof (rule reads_value_fuel)
    show "json_string (JObj ps) = CHR ''{'' # (join_with '','' (map member_text ps) @ ''}'')" by (simp only: json_string.simps mt) simp
    fix m and rest :: string
    assume "2 * length (json_string (JObj ps)) \<le> Suc m"
    then have "2 * length (join_with '','' (map member_text ps)) + 1 \<le> m" by (simp only: json_string.simps mt) simp
    then have "read_members m [] (join_with '','' (map member_text ps) @ CHR ''}'' # rest)
        = Some (JObj ([] @ map (\<lambda>p. (fst p, reread (snd p))) ps), rest)"
      using Cons assms by (intro read_members_back) auto
    then show "read_value (Suc m) (json_string (JObj ps) @ rest) = Some (reread (JObj ps), rest)"
      unfolding json_string.simps mt by (simp add: j)
  qed
qed

lemma json_reads_back: "json_ok v \<Longrightarrow> reads_value v"
proof (induction v)
  case (JNum n)
  show ?case
  proof (cases n)
    case (Fin x)
    then show ?thesis using reads_value_JNum by simp
  qed (auto simp: keyword_def intro!: reads_value_fuel)
next
  case (JArr vs)
  then show ?case by (intro reads_value_JArr) (auto simp: list_all_iff)
next
  case (JObj ps)
  then show ?case by (intro reads_value_JObj) (auto simp: list_all_iff)
next
  case (JStr s)
  show ?case by (rule reads_value_fuel) (simp_all add: quote_append read_string_escaped, simp add: quote_def)
next
  case (JBool b)
  show ?case by (cases b; rule reads_value_fuel) (auto simp: keyword_def)
next
  case JNull
  show ?case by (rule reads_value_fuel) (auto simp: keyword_def)
qed simp

lemma json_parse_string: "json_ok v \<Longrightarrow> json_parse (json_string v) = Some (reread v)"
  using reads_valueD [OF json_reads_back, of v "2 * length (json_string v) + 2" "[]"]
  by (simp add: json_parse_def boundary_def skip_ws_def)

end
