(* ===== verification/Js_Date.thy ===== *)
theory Js_Date
  imports JsValue
begin

text \<open>
  \<open>Date.parse\<close> and \<open>Date.UTC\<close> as the sources use them (\<open>event-publisher.service.ts\<close> and the gates under
  \<open>src/security\<close>): the two interchange formats \<open>YYYY-MM-DD\<close> and \<open>YYYY-MM-DDTHH:mm:ss.sssZ\<close> of the language
  standard. What an engine makes of any other text, and of a day its month does not have, is not
  standardised: it is the parameter \<open>engine\<close>.
\<close>

section \<open>The calendar\<close>

definition leap_year :: "int \<Rightarrow> bool" where
  "leap_year y \<longleftrightarrow> y mod 4 = 0 \<and> (y mod 100 \<noteq> 0 \<or> y mod 400 = 0)"

definition days_in_month :: "int \<Rightarrow> int \<Rightarrow> int" where
  "days_in_month y m =
     (if m = 2 then (if leap_year y then 29 else 28) else if m = 4 \<or> m = 6 \<or> m = 9 \<or> m = 11 then 30 else 31)"

definition day_from_year :: "int \<Rightarrow> int" where
  "day_from_year y = 365 * (y - 1970) + (y - 1969) div 4 - (y - 1901) div 100 + (y - 1601) div 400"

text \<open>The days of the year before month \<open>m\<close>.\<close>

definition day_from_month :: "int \<Rightarrow> int \<Rightarrow> int" where
  "day_from_month y m = sum_list (map (\<lambda>i. days_in_month y (int i)) [1..<nat m])"

definition DAY :: int where
  "DAY = 86400000"

text \<open>The time value of midnight UTC of a date, in milliseconds since 1970.\<close>

definition date_ms :: "int \<Rightarrow> int \<Rightarrow> int \<Rightarrow> int" where
  "date_ms y m d = DAY * (day_from_year y + day_from_month y m + d - 1)"

section \<open>Parsing\<close>

definition matches :: "(char \<Rightarrow> bool) list \<Rightarrow> string \<Rightarrow> bool" where
  "matches ps s \<longleftrightarrow> list_all2 (\<lambda>p c. p c) ps s"

definition date_only :: "string \<Rightarrow> bool" where
  "date_only s \<longleftrightarrow>
     matches [is_digit, is_digit, is_digit, is_digit, (=) (CHR ''-''), is_digit, is_digit, (=) (CHR ''-''), is_digit, is_digit] s"

definition part :: "nat \<Rightarrow> nat \<Rightarrow> string \<Rightarrow> int" where
  "part i n s = digits_val 10 (take n (drop i s))"

definition date_of :: "(string \<Rightarrow> jsnum) \<Rightarrow> string \<Rightarrow> int \<Rightarrow> string \<Rightarrow> jsnum" where
  "date_of engine s ms d =
     (let y = part 0 4 d; mo = part 5 2 d; da = part 8 2 d in
      if mo < 1 \<or> 12 < mo \<or> da < 1 \<or> 31 < da then NaN
      else if da \<le> days_in_month y mo then Fin (of_int (date_ms y mo da + ms))
      else engine s)"

definition date_time :: "string \<Rightarrow> bool" where
  "date_time s \<longleftrightarrow> date_only (take 10 s)
     \<and> matches [(=) (CHR ''T''), is_digit, is_digit, (=) (CHR '':''), is_digit, is_digit, (=) (CHR '':''), is_digit, is_digit,
          (=) (CHR ''.''), is_digit, is_digit, is_digit, (=) (CHR ''Z'')] (drop 10 s)
     \<and> part 11 2 s < 24 \<and> part 14 2 s < 60 \<and> part 17 2 s < 60"

definition date_parse :: "(string \<Rightarrow> jsnum) \<Rightarrow> string \<Rightarrow> jsnum" where
  "date_parse engine s =
     (if date_only s then date_of engine s 0 s
      else if date_time s
      then date_of engine s (((part 11 2 s * 60 + part 14 2 s) * 60 + part 17 2 s) * 1000 + part 20 3 s) (take 10 s)
      else engine s)"

section \<open>Arithmetic on time values\<close>

fun js_sub :: "jsnum \<Rightarrow> jsnum \<Rightarrow> jsnum" where
  "js_sub NaN _ = NaN"
| "js_sub _ NaN = NaN"
| "js_sub (Infty a) (Infty b) = (if a = b then NaN else Infty a)"
| "js_sub (Infty a) (Fin _) = Infty a"
| "js_sub (Fin _) (Infty b) = Infty (\<not> b)"
| "js_sub (Fin x) (Fin y) = to_double (x - y)"

text \<open>\<open>a > b\<close> and \<open>a < b\<close>; a comparison with not-a-number is false.\<close>

definition js_gt :: "jsnum \<Rightarrow> jsnum \<Rightarrow> bool" where
  "js_gt a b \<longleftrightarrow> js_ge a b \<and> \<not> js_ge b a"

fun is_finite :: "jsnum \<Rightarrow> bool" where
  "is_finite (Fin _) = True"
| "is_finite _ = False"

text \<open>The dates of the interchange format are within five digits of years, so a difference of two is an
  exact double.\<close>

lemma to_double_of_int:
  assumes "\<bar>n\<bar> < 2 ^ 52"
  shows "to_double (of_int n) = Fin (of_int n)"
proof (cases "0 \<le> n")
  case True
  then have "nat n < 2 ^ 52" using assms by simp
  from to_double_of_nat [OF this] True show ?thesis by simp
next
  case False
  then have "nat (- n) < 2 ^ 52" using assms by simp
  from to_double_of_nat [OF this] False have "to_double (of_int (- n)) = Fin (of_int (- n))" by simp
  then show ?thesis using False by (simp add: to_double_def Let_def split: if_splits)
qed

end
