(* ===== verification/Event_Publisher.thy ===== *)
theory Event_Publisher
  imports Orders_Service Json_Roundtrip Js_Date "HOL-Library.Multiset"
begin

text \<open>
  \<open>order-service/src/infra/event-publisher.service.ts\<close>: the message an event becomes, and the life of the
  publisher's connection as a step relation. The steps are the calls of \<open>publish\<close>, the settling of the
  promises the publisher awaits, and the events the client library emits; the environment chooses their
  order. Everything the publisher does between two awaits is one step.
\<close>

section \<open>The message\<close>

definition event_json :: "domain_event \<Rightarrow> jsval" where
  "event_json ev =
     JObj [(''eventId'', JStr (eventId ev)), (''type'', JStr (event_type ev)), (''occurredAt'', JStr (occurredAt ev)),
           (''correlationId'', JStr (event_correlationId ev)),
           (''data'', JObj [(''orderId'', JStr (data_orderId (event_data ev))), (''userId'', JStr (data_userId (event_data ev))),
              (''amount'', JNum (to_double (data_amount (event_data ev)))),
              (''description'', JStr (data_description (event_data ev)))])]"

definition ORDERS_EXCHANGE :: string where
  "ORDERS_EXCHANGE = ''orders''"

text \<open>\<open>Math.floor(ms / 1000)\<close>.\<close>

fun to_seconds :: "jsnum \<Rightarrow> jsnum" where
  "to_seconds (Fin x) = (case to_double (x / 1000) of Fin y \<Rightarrow> Fin (of_int \<lfloor>y\<rfloor>) | n \<Rightarrow> n)"
| "to_seconds n = n"

record pub_msg =
  pm_exchange :: string
  pm_routingKey :: string
  pm_content :: string
  pm_persistent :: bool
  pm_contentType :: string
  pm_type :: string
  pm_messageId :: string
  pm_correlationId :: string
  pm_timestamp :: jsnum

definition event_message :: "(string \<Rightarrow> jsnum) \<Rightarrow> string \<Rightarrow> domain_event \<Rightarrow> pub_msg" where
  "event_message engine routingKey ev =
     \<lparr>pm_exchange = ORDERS_EXCHANGE, pm_routingKey = routingKey, pm_content = json_string (event_json ev),
      pm_persistent = True, pm_contentType = ''application/json'', pm_type = event_type ev, pm_messageId = eventId ev,
      pm_correlationId = event_correlationId ev, pm_timestamp = to_seconds (date_parse engine (occurredAt ev))\<rparr>"

section \<open>State\<close>

text \<open>How far \<open>open()\<close> is: awaiting the connection, awaiting the channel on a connection, or awaiting the
  closing of a connection on which no channel could be opened, with the error it will throw.\<close>

datatype open_phase = Connecting | Creating nat | Abandoning nat thrown

text \<open>A call of \<open>publish\<close>: awaiting the channel, rejected without one, awaiting the broker's confirm on a
  channel, or settled after sending.\<close>

datatype call_status = Waiting | Unsent thrown | Confirming nat | Answered "thrown + unit"

text \<open>The publisher's fields and calls, and of the broker's side the connections made so far (whether each is
  open), those on which \<open>close()\<close> was called, the channels (their connection and whether they are open), the messages sent, and the
  calls of \<open>onModuleDestroy\<close> that await the closing.\<close>

record publisher = obs +
  pb_conn :: "nat option"
  pb_channel :: "nat option"
  pb_opening :: "open_phase option"
  pb_calls :: "(pub_msg \<times> call_status) list"
  pb_conns :: "bool list"
  pb_closing :: "nat list"
  pb_chans :: "(nat \<times> bool) list"
  pb_orphans :: nat
  pb_sent :: "(nat \<times> pub_msg) list"
  pb_destroying :: nat

definition new_publisher :: publisher where
  "new_publisher = \<lparr>logs = [], counters = [], pb_conn = None, pb_channel = None, pb_opening = None, pb_calls = [],
     pb_conns = [], pb_closing = [], pb_chans = [], pb_orphans = 0, pb_sent = [], pb_destroying = 0\<rparr>"

definition pub_log :: "log_level \<Rightarrow> string \<Rightarrow> publisher \<Rightarrow> publisher" where
  "pub_log l m w = w\<lparr>logs := logs w @ [(l, m)]\<rparr>"

section \<open>Operations\<close>

text \<open>\<open>getChannel\<close>: the cached channel, or join the attempt in progress, or start one.\<close>

definition getChannel :: "publisher \<Rightarrow> nat option \<times> publisher" where
  "getChannel w =
     (case pb_channel w of
        Some ch \<Rightarrow> (Some ch, w)
      | None \<Rightarrow> (None, w\<lparr>pb_opening := (case pb_opening w of None \<Rightarrow> Some Connecting | Some p \<Rightarrow> Some p)\<rparr>))"

text \<open>\<open>publish\<close> up to its second await. Publishing on a channel that is closed throws, and so it does from the call of
  \<open>close()\<close> on its connection on.\<close>

definition send_status :: "nat \<Rightarrow> publisher \<Rightarrow> call_status" where
  "send_status ch w =
     (if \<not> snd (pb_chans w ! ch) then Unsent (error_of PlainError ''Channel closed'')
      else if fst (pb_chans w ! ch) \<in> set (pb_closing w) then Unsent (error_of PlainError ''Connection closing'')
      else Confirming ch)"

definition publisher_publish :: "(string \<Rightarrow> jsnum) \<Rightarrow> string \<Rightarrow> domain_event \<Rightarrow> publisher \<Rightarrow> publisher" where
  "publisher_publish engine routingKey ev w =
     (let msg = event_message engine routingKey ev in
      case getChannel w of
        (None, w') \<Rightarrow> w'\<lparr>pb_calls := pb_calls w' @ [(msg, Waiting)]\<rparr>
      | (Some ch, w') \<Rightarrow>
          w'\<lparr>pb_calls := pb_calls w' @ [(msg, send_status ch w')],
             pb_sent := pb_sent w' @ (if send_status ch w' = Confirming ch then [(ch, msg)] else [])\<rparr>)"

text \<open>What happens to the calls that await \<open>this.opening\<close> when it settles.\<close>

definition waiting_msgs :: "(pub_msg \<times> call_status) list \<Rightarrow> pub_msg list" where
  "waiting_msgs cs = map fst (filter (\<lambda>c. snd c = Waiting) cs)"

definition answer_waiting :: "call_status \<Rightarrow> (pub_msg \<times> call_status) list \<Rightarrow> (pub_msg \<times> call_status) list" where
  "answer_waiting st cs = map (\<lambda>c. if snd c = Waiting then (fst c, st) else c) cs"

definition resolve_waiting :: "nat \<Rightarrow> publisher \<Rightarrow> publisher" where
  "resolve_waiting ch w =
     w\<lparr>pb_sent := pb_sent w @ map (Pair ch) (waiting_msgs (pb_calls w)),
       pb_calls := answer_waiting (Confirming ch) (pb_calls w)\<rparr>"

definition reject_waiting :: "thrown \<Rightarrow> publisher \<Rightarrow> publisher" where
  "reject_waiting e w = w\<lparr>pb_calls := answer_waiting (Unsent e) (pb_calls w)\<rparr>"

text \<open>\<open>open()\<close> between its awaits: the connection is there, the channel is there, and the failures of either.\<close>

definition open_connected :: "publisher \<Rightarrow> publisher" where
  "open_connected w = w\<lparr>pb_conns := pb_conns w @ [True], pb_opening := Some (Creating (length (pb_conns w)))\<rparr>"

definition open_failed :: "thrown \<Rightarrow> publisher \<Rightarrow> publisher" where
  "open_failed e w = reject_waiting e (w\<lparr>pb_opening := None\<rparr>)"

definition open_channel :: "nat \<Rightarrow> publisher \<Rightarrow> publisher" where
  "open_channel c w =
     (let ch = length (pb_chans w) in
      resolve_waiting ch
        (w\<lparr>pb_chans := pb_chans w @ [(c, True)], pb_conn := Some c, pb_channel := Some ch, pb_opening := None\<rparr>))"

definition open_abandoned :: "thrown \<Rightarrow> thrown option \<Rightarrow> publisher \<Rightarrow> publisher" where
  "open_abandoned e closeErr w =
     open_failed e
       (case closeErr of None \<Rightarrow> w | Some c \<Rightarrow> pub_log Debug (''close after failed open: '' @ message_of c) w)"

definition connect_timeout :: thrown where
  "connect_timeout = error_of PlainError ''connect ETIMEDOUT (outer bound)''"

text \<open>The listeners.\<close>

definition on_conn_close :: "nat \<Rightarrow> publisher \<Rightarrow> publisher" where
  "on_conn_close c w =
     pub_log Warn ''RabbitMQ connection closed; will reconnect on next publish''
       (w\<lparr>pb_conns := (pb_conns w)[c := False],
          pb_chans := map (\<lambda>(o1, b). (o1, b \<and> o1 \<noteq> c)) (pb_chans w),
          pb_conn := None, pb_channel := None\<rparr>)"

definition on_chan_close :: "nat \<Rightarrow> publisher \<Rightarrow> publisher" where
  "on_chan_close ch w =
     w\<lparr>pb_chans := (pb_chans w)[ch := (fst (pb_chans w ! ch), False)],
       pb_channel := (if pb_channel w = Some ch then None else pb_channel w)\<rparr>"

text \<open>The callback of the confirm, or the timer before it.\<close>

definition settle_call :: "nat \<Rightarrow> thrown + unit \<Rightarrow> publisher \<Rightarrow> publisher" where
  "settle_call i r w = w\<lparr>pb_calls := (pb_calls w)[i := (fst (pb_calls w ! i), Answered r)]\<rparr>"

definition confirm_result :: "thrown option \<Rightarrow> thrown + unit" where
  "confirm_result e =
     (case e of
        None \<Rightarrow> Inr ()
      | Some (Falsy _) \<Rightarrow> Inr ()
      | Some (Thrown (NonError s) c d m de ca) \<Rightarrow> Inl (error_of PlainError s)
      | Some e' \<Rightarrow> Inl e')"

definition confirm_timeout :: thrown where
  "confirm_timeout = error_of PlainError ''publish confirm timed out''"

text \<open>\<open>onModuleDestroy\<close> calls \<open>close()\<close> on the connection, if there is one, and awaits it; what the call rejects with is logged.\<close>

definition publisher_onModuleDestroy :: "publisher \<Rightarrow> publisher" where
  "publisher_onModuleDestroy w =
     (case pb_conn w of
        Some c \<Rightarrow> w\<lparr>pb_closing := c # pb_closing w, pb_destroying := Suc (pb_destroying w)\<rparr>
      | None \<Rightarrow> w)"

definition destroy_settled :: "thrown option \<Rightarrow> publisher \<Rightarrow> publisher" where
  "destroy_settled closeErr w =
     (let w' = w\<lparr>pb_destroying := pb_destroying w - 1\<rparr> in
      case closeErr of Some e \<Rightarrow> pub_log Warn (''RabbitMQ close failed: '' @ message_of e) w' | None \<Rightarrow> w')"

section \<open>Steps\<close>

datatype pub_event =
    PublishCall string domain_event
  | Connected
  | ConnectFailed thrown
  | ConnectTimedOut
  | LateConnected
  | ChannelCreated
  | ChannelFailed thrown
  | Abandoned "thrown option"
  | ConnClosed nat
  | ConnError string
  | ChanClosed nat
  | ChanError string
  | Confirmed nat "thrown option"
  | ConfirmTimedOut nat
  | Destroy
  | DestroySettled "thrown option"

definition confirming :: "nat \<Rightarrow> publisher \<Rightarrow> bool" where
  "confirming i w \<longleftrightarrow> i < length (pb_calls w) \<and> (case snd (pb_calls w ! i) of Confirming _ \<Rightarrow> True | _ \<Rightarrow> False)"

text \<open>One step; \<open>None\<close> where the event cannot happen in the state. A channel is created only on an open
  connection that is not being closed; where none could be created the connection is closed; and a late connection (its attempt lost to the timer) is closed at once.\<close>

fun pub_step :: "(string \<Rightarrow> jsnum) \<Rightarrow> pub_event \<Rightarrow> publisher \<Rightarrow> publisher option" where
  "pub_step engine (PublishCall rk ev) w = Some (publisher_publish engine rk ev w)"
| "pub_step engine Connected w = (if pb_opening w = Some Connecting then Some (open_connected w) else None)"
| "pub_step engine (ConnectFailed e) w = (if pb_opening w = Some Connecting then Some (open_failed e w) else None)"
| "pub_step engine ConnectTimedOut w =
     (if pb_opening w = Some Connecting
      then Some (open_failed connect_timeout (w\<lparr>pb_orphans := Suc (pb_orphans w)\<rparr>)) else None)"
| "pub_step engine LateConnected w = (if 0 < pb_orphans w then Some (w\<lparr>pb_orphans := pb_orphans w - 1\<rparr>) else None)"
| "pub_step engine ChannelCreated w =
     (case pb_opening w of
        Some (Creating c) \<Rightarrow> (if pb_conns w ! c \<and> c \<notin> set (pb_closing w) then Some (open_channel c w) else None)
      | _ \<Rightarrow> None)"
| "pub_step engine (ChannelFailed e) w =
     (case pb_opening w of Some (Creating c) \<Rightarrow> Some (w\<lparr>pb_opening := Some (Abandoning c e), pb_closing := c # pb_closing w\<rparr>) | _ \<Rightarrow> None)"
| "pub_step engine (Abandoned closeErr) w =
     (case pb_opening w of Some (Abandoning c e) \<Rightarrow> Some (open_abandoned e closeErr w) | _ \<Rightarrow> None)"
| "pub_step engine (ConnClosed c) w =
     (if c < length (pb_conns w) \<and> pb_conns w ! c then Some (on_conn_close c w) else None)"
| "pub_step engine (ConnError m) w = Some (pub_log Warn (''RabbitMQ connection error: '' @ m) w)"
| "pub_step engine (ChanClosed ch) w =
     (if ch < length (pb_chans w) \<and> snd (pb_chans w ! ch) then Some (on_chan_close ch w) else None)"
| "pub_step engine (ChanError m) w = Some (pub_log Warn (''RabbitMQ channel error: '' @ m) w)"
| "pub_step engine (Confirmed i e) w = (if confirming i w then Some (settle_call i (confirm_result e) w) else None)"
| "pub_step engine (ConfirmTimedOut i) w = (if confirming i w then Some (settle_call i (Inl confirm_timeout) w) else None)"
| "pub_step engine Destroy w = Some (publisher_onModuleDestroy w)"
| "pub_step engine (DestroySettled e) w = (if 0 < pb_destroying w then Some (destroy_settled e w) else None)"

fun pub_run :: "(string \<Rightarrow> jsnum) \<Rightarrow> pub_event list \<Rightarrow> publisher \<Rightarrow> publisher option" where
  "pub_run engine [] w = Some w"
| "pub_run engine (x # xs) w = (case pub_step engine x w of None \<Rightarrow> None | Some w' \<Rightarrow> pub_run engine xs w')"

inductive pub_reachable :: "(string \<Rightarrow> jsnum) \<Rightarrow> publisher \<Rightarrow> bool" for engine where
  start: "pub_reachable engine new_publisher"
| step: "pub_reachable engine w \<Longrightarrow> pub_step engine x w = Some w' \<Longrightarrow> pub_reachable engine w'"

lemma pub_run_reachable: "pub_reachable engine w \<Longrightarrow> pub_run engine xs w = Some w' \<Longrightarrow> pub_reachable engine w'"
  by (induction xs arbitrary: w) (auto split: option.splits intro: pub_reachable.step)

section \<open>The invariant\<close>

definition channel_ok :: "publisher \<Rightarrow> bool" where
  "channel_ok w \<longleftrightarrow>
     (case pb_channel w of
        None \<Rightarrow> True
      | Some ch \<Rightarrow> ch < length (pb_chans w) \<and> snd (pb_chans w ! ch) \<and> pb_conn w = Some (fst (pb_chans w ! ch))
          \<and> pb_opening w = None)"

definition conns_ok :: "publisher \<Rightarrow> bool" where
  "conns_ok w \<longleftrightarrow>
     (case pb_conn w of None \<Rightarrow> True | Some c \<Rightarrow> c < length (pb_conns w) \<and> pb_conns w ! c)
     \<and> (case pb_opening w of Some (Creating c) \<Rightarrow> c < length (pb_conns w) | _ \<Rightarrow> True)
     \<and> list_all (\<lambda>(c, b). c < length (pb_conns w) \<and> (b \<longrightarrow> pb_conns w ! c)) (pb_chans w)
     \<and> list_all (\<lambda>c. c < length (pb_conns w)) (pb_closing w)"

definition none_stranded :: "publisher \<Rightarrow> bool" where
  "none_stranded w \<longleftrightarrow> pb_opening w \<noteq> None \<or> waiting_msgs (pb_calls w) = []"

fun was_sent :: "call_status \<Rightarrow> bool" where
  "was_sent (Confirming _) = True"
| "was_sent (Answered _) = True"
| "was_sent _ = False"

definition sent_msgs :: "(pub_msg \<times> call_status) list \<Rightarrow> pub_msg multiset" where
  "sent_msgs cs = mset (map fst (filter (\<lambda>c. was_sent (snd c)) cs))"

definition sent_once :: "publisher \<Rightarrow> bool" where
  "sent_once w \<longleftrightarrow> mset (map snd (pb_sent w)) = sent_msgs (pb_calls w)"

definition pub_inv :: "publisher \<Rightarrow> bool" where
  "pub_inv w \<longleftrightarrow> channel_ok w \<and> conns_ok w \<and> none_stranded w \<and> sent_once w"

lemmas pub_inv_defs = pub_inv_def channel_ok_def conns_ok_def none_stranded_def sent_once_def

text \<open>The calls under the operations.\<close>

lemma waiting_snoc [simp]: "waiting_msgs (cs @ [(m, s)]) = waiting_msgs cs @ (if s = Waiting then [m] else [])"
  by (simp add: waiting_msgs_def)

lemma sent_msgs_snoc [simp]: "sent_msgs (cs @ [(m, s)]) = sent_msgs cs + (if was_sent s then {#m#} else {#})"
  by (simp add: sent_msgs_def)

lemma waiting_answered [simp]: "st \<noteq> Waiting \<Longrightarrow> waiting_msgs (answer_waiting st cs) = []"
  by (auto simp: waiting_msgs_def answer_waiting_def filter_empty_conv)

lemma sent_rejected [simp]: "sent_msgs (answer_waiting (Unsent e) cs) = sent_msgs cs"
  by (induction cs) (auto simp: sent_msgs_def answer_waiting_def)

lemma sent_resolved [simp]: "sent_msgs (answer_waiting (Confirming ch) cs) = sent_msgs cs + mset (waiting_msgs cs)"
  by (induction cs) (auto simp: sent_msgs_def answer_waiting_def waiting_msgs_def)

lemma settled_call:
  assumes "i < length cs" "snd (cs ! i) = Confirming ch"
  shows "waiting_msgs (cs[i := (fst (cs ! i), Answered r)]) = waiting_msgs cs"
    "sent_msgs (cs[i := (fst (cs ! i), Answered r)]) = sent_msgs cs"
proof -
  define a b m where "a = take i cs" and "b = drop (Suc i) cs" and "m = fst (cs ! i)"
  have "cs ! i = (m, Confirming ch)" using assms(2) by (simp add: m_def prod_eq_iff)
  then have cs: "cs = a @ (m, Confirming ch) # b"
    using id_take_nth_drop [OF assms(1)] by (simp add: a_def b_def)
  have up: "cs[i := (fst (cs ! i), Answered r)] = a @ (m, Answered r) # b"
    using assms(1) by (simp add: upd_conv_take_nth_drop a_def b_def m_def)
  show "waiting_msgs (cs[i := (fst (cs ! i), Answered r)]) = waiting_msgs cs"
    unfolding up by (simp add: cs waiting_msgs_def)
  show "sent_msgs (cs[i := (fst (cs ! i), Answered r)]) = sent_msgs cs"
    unfolding up by (simp add: cs sent_msgs_def)
qed

text \<open>Every operation keeps the invariant.\<close>

lemma pub_inv_log [simp]: "pub_inv (pub_log l m w) = pub_inv w"
  by (simp add: pub_log_def pub_inv_defs cong: option.case_cong open_phase.case_cong)

lemma pub_inv_orphans [simp]: "pub_inv (w\<lparr>pb_orphans := n\<rparr>) = pub_inv w"
  by (simp add: pub_inv_defs cong: option.case_cong open_phase.case_cong)

lemma pub_inv_destroying [simp]: "pub_inv (w\<lparr>pb_destroying := n\<rparr>) = pub_inv w"
  by (simp add: pub_inv_defs cong: option.case_cong open_phase.case_cong)

lemma pub_inv_destroy: "pub_inv w \<Longrightarrow> pub_inv (publisher_onModuleDestroy w)"
  by (auto simp: publisher_onModuleDestroy_def pub_inv_defs split: option.splits open_phase.splits)

lemma pub_inv_publish: "pub_inv w \<Longrightarrow> pub_inv (publisher_publish engine rk ev w)"
  by (auto simp: publisher_publish_def getChannel_def send_status_def Let_def pub_inv_defs split: option.splits open_phase.splits)

lemma pub_inv_connected: "pub_inv w \<Longrightarrow> pb_opening w = Some Connecting \<Longrightarrow> pub_inv (open_connected w)"
  by (auto simp: open_connected_def pub_inv_defs list_all_iff nth_append split: option.splits)

lemma pub_inv_failed: "pub_inv w \<Longrightarrow> pb_opening w \<noteq> None \<Longrightarrow> pub_inv (open_failed e w)"
  by (auto simp: open_failed_def reject_waiting_def pub_inv_defs split: option.splits)

lemma pub_inv_channel:
  assumes "pub_inv w" "pb_opening w = Some (Creating c)" "pb_conns w ! c"
  shows "pub_inv (open_channel c w)"
  using assms
  by (auto simp: open_channel_def resolve_waiting_def pub_inv_defs Let_def nth_append comp_def simp flip: mset_map)

lemma pub_inv_abandoning:
  "pub_inv w \<Longrightarrow> pb_opening w = Some (Creating c) \<Longrightarrow> pub_inv (w\<lparr>pb_opening := Some (Abandoning c e), pb_closing := c # pb_closing w\<rparr>)"
  by (auto simp: pub_inv_defs split: option.splits)

lemma pub_inv_conn_close:
  assumes "pub_inv w" "c < length (pb_conns w)"
  shows "pub_inv (on_conn_close c w)"
  using assms
  by (auto simp: on_conn_close_def pub_log_def pub_inv_defs list_all_iff nth_list_update split: option.splits open_phase.splits)

lemma pub_inv_chan_close:
  assumes "pub_inv w" "ch < length (pb_chans w)"
  shows "pub_inv (on_chan_close ch w)"
proof -
  have "fst (pb_chans w ! ch) < length (pb_conns w)"
    using assms by (simp add: pub_inv_def conns_ok_def list_all_length case_prod_beta)
  with assms show ?thesis
    by (auto simp: on_chan_close_def pub_inv_defs list_all_length nth_list_update split: option.splits open_phase.splits)
qed

lemma pub_inv_settle:
  assumes "pub_inv w" "confirming i w"
  shows "pub_inv (settle_call i r w)"
proof -
  obtain ch where "i < length (pb_calls w)" "snd (pb_calls w ! i) = Confirming ch"
    using assms(2) by (auto simp: confirming_def split: call_status.splits)
  from settled_call [OF this] assms(1) show ?thesis
    by (simp add: settle_call_def pub_inv_defs cong: option.case_cong open_phase.case_cong)
qed

lemmas pub_inv_ops = pub_inv_publish pub_inv_connected pub_inv_failed pub_inv_channel pub_inv_abandoning pub_inv_conn_close
  pub_inv_chan_close pub_inv_settle pub_inv_destroy

lemma pub_opening_log [simp]: "pb_opening (pub_log l m w) = pb_opening w"
  by (simp add: pub_log_def)

lemma pub_inv_step: "pub_inv w \<Longrightarrow> pub_step engine x w = Some w' \<Longrightarrow> pub_inv w'"
  by (cases x)
    (auto simp: pub_inv_ops open_abandoned_def destroy_settled_def Let_def split: if_splits option.splits open_phase.splits)

lemma pub_inv_reachable: "pub_reachable engine w \<Longrightarrow> pub_inv w"
proof (induction rule: pub_reachable.induct)
  case start
  show ?case by (simp add: new_publisher_def pub_inv_defs waiting_msgs_def sent_msgs_def)
qed (rule pub_inv_step)

section \<open>Properties\<close>

text \<open>C17: in every state the publisher can reach, whatever the order of calls, outages, late answers and
  timeouts: the cached channel is open and belongs to the cached connection, which is open too; nothing is being
  opened while a channel is cached; no call waits without an attempt in progress that will settle it; and the
  messages handed to the broker are exactly those of the calls that are confirming or answered, each once.\<close>

theorem publisher_sends_once:
  assumes "pub_reachable engine w"
  shows "(case pb_channel w of
            None \<Rightarrow> True
          | Some ch \<Rightarrow> \<exists>c. pb_chans w ! ch = (c, True) \<and> pb_conn w = Some c \<and> pb_conns w ! c \<and> pb_opening w = None)
      \<and> (pb_opening w \<noteq> None \<or> waiting_msgs (pb_calls w) = [])
      \<and> mset (map snd (pb_sent w)) = sent_msgs (pb_calls w)"
proof -
  have w: "pub_inv w" by (rule pub_inv_reachable [OF assms])
  then have "case pb_channel w of None \<Rightarrow> True
      | Some ch \<Rightarrow> \<exists>c. pb_chans w ! ch = (c, True) \<and> pb_conn w = Some c \<and> pb_conns w ! c \<and> pb_opening w = None"
    unfolding pub_inv_def channel_ok_def conns_ok_def
    by (auto simp: prod_eq_iff split: option.splits)
  with w show ?thesis by (auto simp: pub_inv_def none_stranded_def sent_once_def)
qed

text \<open>C26: the publisher recovers by itself. From every reachable state without an attempt in progress and with no shutdown
  closing its connection, whatever outage led there, a call of \<open>publish\<close> gets its message to the broker: at once on the cached channel,
  which is open, or on a new channel as soon as the broker accepts a connection and a channel.\<close>

theorem publisher_recovers:
  assumes "pub_reachable engine w" "pb_opening w = None" "\<And>c. pb_conn w = Some c \<Longrightarrow> c \<notin> set (pb_closing w)"
  shows "\<exists>xs w' ch. set xs \<subseteq> {Connected, ChannelCreated} \<and> length xs \<le> 2
    \<and> pub_run engine (PublishCall rk ev # xs) w = Some w'
    \<and> last (pb_sent w') = (ch, event_message engine rk ev)
    \<and> snd (pb_chans w' ! ch) \<and> fst (pb_chans w' ! ch) \<notin> set (pb_closing w')
    \<and> last (pb_calls w') = (event_message engine rk ev, Confirming ch)"
proof (cases "pb_channel w")
  case (Some ch)
  have "snd (pb_chans w ! ch)" "fst (pb_chans w ! ch) \<notin> set (pb_closing w)"
    using pub_inv_reachable [OF assms(1)] Some assms(3) by (simp_all add: pub_inv_def channel_ok_def)
  with Some show ?thesis
    by (intro exI [of _ "[]"]) (auto simp: publisher_publish_def getChannel_def send_status_def Let_def)
next
  case None
  have "length (pb_conns w) \<notin> set (pb_closing w)"
    using pub_inv_reachable [OF assms(1)] by (auto simp: pub_inv_def conns_ok_def list_all_iff)
  then show ?thesis using assms(2) None
    by (intro exI [of _ "[Connected, ChannelCreated]"])
      (auto simp: publisher_publish_def getChannel_def Let_def open_connected_def open_channel_def resolve_waiting_def
         answer_waiting_def waiting_msgs_def)
qed

text \<open>While a shutdown closes the connection, a call is refused at once and nothing is sent; the cached channel stays until the
  connection has closed.\<close>

lemma closing_refuses_publish:
  assumes "pub_reachable engine w" "pb_channel w = Some ch"
  shows "\<exists>w'. pub_run engine [Destroy, PublishCall rk ev] w = Some w' \<and> pb_sent w' = pb_sent w
    \<and> last (pb_calls w') = (event_message engine rk ev, Unsent (error_of PlainError ''Connection closing''))"
proof -
  have "snd (pb_chans w ! ch)" "pb_conn w = Some (fst (pb_chans w ! ch))"
    using pub_inv_reachable [OF assms(1)] assms(2) by (simp_all add: pub_inv_def channel_ok_def)
  with assms(2) show ?thesis
    by (simp add: publisher_onModuleDestroy_def publisher_publish_def getChannel_def send_status_def Let_def)
qed

definition demo_event :: domain_event where
  "demo_event = \<lparr>eventId = ''5c146b14-3c52-4afd-938a-375d0df1fbf6'', event_type = ''order.created'',
     occurredAt = ''2025-01-02T03:04:05.678Z'', event_correlationId = ''r1'',
     event_data = \<lparr>data_orderId = ''6fa459ea-ee8a-4ca4-894e-db77e160355e'',
       data_userId = ''1b4e28ba-2fa1-41d2-883f-0016d3cca427'', data_amount = 1999 / 100, data_description = ''book''\<rparr>\<rparr>"

definition no_engine :: "string \<Rightarrow> jsnum" where
  "no_engine s = NaN"

text \<open>An outage: the first attempt times out, and a channel that was opened later is lost with its
  connection.\<close>

definition outage_run :: "pub_event list" where
  "outage_run = [PublishCall ''order.created'' demo_event, ConnectTimedOut, PublishCall ''order.created'' demo_event, Connected,
     LateConnected, ChannelCreated, ConnClosed 0]"

definition after_outage :: publisher where
  "after_outage = the (pub_run no_engine outage_run new_publisher)"

lemmas pub_run_simps = publisher_publish_def getChannel_def send_status_def Let_def open_connected_def open_channel_def
  resolve_waiting_def reject_waiting_def open_failed_def answer_waiting_def waiting_msgs_def on_conn_close_def on_chan_close_def
  pub_log_def settle_call_def confirming_def new_publisher_def

lemma after_outage_eq:
  "pub_run no_engine outage_run new_publisher = Some after_outage"
  "pb_channel after_outage = None" "pb_opening after_outage = None"
  "pb_calls after_outage = [(event_message no_engine ''order.created'' demo_event, Unsent connect_timeout),
     (event_message no_engine ''order.created'' demo_event, Confirming 0)]"
  "pb_conn after_outage = None"
  by (simp_all add: after_outage_def outage_run_def pub_run_simps)

lemma after_outage_reachable: "pub_reachable no_engine after_outage"
  by (rule pub_run_reachable [OF pub_reachable.start after_outage_eq(1)])

theorem publisher_sends_once_witness:
  "map snd (pb_sent after_outage) = [event_message no_engine ''order.created'' demo_event]"
proof -
  have "mset (map snd (pb_sent after_outage)) = {#event_message no_engine ''order.created'' demo_event#}"
    using publisher_sends_once [OF after_outage_reachable] by (simp add: after_outage_eq sent_msgs_def)
  then show ?thesis by (metis mset_single_iff_right)
qed

theorem publisher_recovers_witness:
  "\<exists>xs w' ch. pub_run no_engine (PublishCall ''order.created'' demo_event # xs) after_outage = Some w'
     \<and> last (pb_sent w') = (ch, event_message no_engine ''order.created'' demo_event)"
  using publisher_recovers [OF after_outage_reachable after_outage_eq(3), of "''order.created''" demo_event] after_outage_eq(5) by simp blast

text \<open>Only the loss of the connection clears \<open>conn\<close>. When the broker closes the channel alone, the next publish opens
  another connection over it and the old one stays open with nobody to close it.\<close>

lemma channel_close_leaks_connection:
  "\<exists>w. pub_run no_engine [PublishCall ''order.created'' demo_event, Connected, ChannelCreated, ChanClosed 0,
       PublishCall ''order.created'' demo_event, Connected, ChannelCreated] new_publisher = Some w
     \<and> pb_conns w = [True, True] \<and> pb_conn w = Some 1"
  by (simp add: pub_run_simps)

text \<open>When the leaked connection closes later, the listener clears the channel of the other connection, which is
  still open.\<close>

lemma late_close_drops_a_good_channel:
  "\<exists>w. pub_run no_engine [PublishCall ''order.created'' demo_event, Connected, ChannelCreated, ChanClosed 0,
       PublishCall ''order.created'' demo_event, Connected, ChannelCreated, ConnClosed 0] new_publisher = Some w
     \<and> pb_conns w = [False, True] \<and> pb_chans w = [(0, False), (1, True)] \<and> pb_channel w = None"
  by (simp add: pub_run_simps)

text \<open>The creation of the channel has no time bound: while it is pending, every call of \<open>publish\<close> waits, and no
  timer settles it.\<close>

lemma pending_channel_blocks_publish:
  assumes "pb_opening w = Some (Creating c)" "pb_channel w = None"
  shows "\<exists>w'. pub_run engine (map (PublishCall rk) evs) w = Some w' \<and> pb_opening w' = Some (Creating c)
    \<and> pb_calls w' = pb_calls w @ map (\<lambda>ev. (event_message engine rk ev, Waiting)) evs"
  using assms
proof (induction evs arbitrary: w)
  case (Cons ev evs)
  from Cons.prems Cons.IH [of "publisher_publish engine rk ev w"] show ?case
    by (simp add: publisher_publish_def getChannel_def Let_def)
qed simp

end
