(* ===== verification/Database_Filter.thy ===== *)
theory Database_Filter
  imports Async Auth_Guard
begin

text \<open>
  \<open>common/database-unavailable.filter.ts\<close> and \<open>database.metrics.ts\<close> (the same in order-service, user-service
  and notification-worker): which errors mean that the database cannot be reached, and what becomes of
  an error a handler throws. The last section puts a route together: guard, handler, filter.
\<close>

section \<open>Classification\<close>

definition CONNECTION_CODES :: "string list" where
  "CONNECTION_CODES = [''ENOTFOUND'', ''EAI_AGAIN'', ''ECONNREFUSED'', ''ECONNRESET'', ''ETIMEDOUT'', ''EPIPE'',
     ''57P01'', ''57P02'', ''57P03'', ''53300'']"

fun contains :: "string \<Rightarrow> string \<Rightarrow> bool" where
  "contains pat [] = (pat = [])"
| "contains pat (c # s) = (prefix pat (c # s) \<or> contains pat s)"

text \<open>The alternatives of \<open>CONNECTION_MESSAGE\<close>; the expression ignores case.\<close>

definition CONNECTION_MESSAGES :: "string list" where
  "CONNECTION_MESSAGES = [''connection terminated'', ''timeout exceeded when trying to connect'',
     ''client has encountered a connection error'', ''connection is closed'']"

definition connection_message :: "string \<Rightarrow> bool" where
  "connection_message m = list_ex (\<lambda>pat. contains pat (toLowerCase m)) CONNECTION_MESSAGES"

definition connection_code :: "string \<Rightarrow> bool" where
  "connection_code c \<longleftrightarrow> c \<in> set CONNECTION_CODES \<or> prefix ''08'' c"

text \<open>The loop, with the levels left to look at.\<close>

fun unavailable_within :: "nat \<Rightarrow> thrown \<Rightarrow> bool" where
  "unavailable_within 0 e = False"
| "unavailable_within (Suc n) (Falsy _) = False"
| "unavailable_within (Suc n) (Thrown cls co con msg driver cause) =
     ((case co of Some c \<Rightarrow> connection_code c | None \<Rightarrow> False)
      \<or> (case msg of Some m \<Rightarrow> connection_message m | None \<Rightarrow> False)
      \<or> (case driver of
           Some d \<Rightarrow> unavailable_within n d
         | None \<Rightarrow> (case cause of Some d \<Rightarrow> unavailable_within n d | None \<Rightarrow> False)))"

definition isDatabaseUnavailable :: "thrown \<Rightarrow> bool" where
  "isDatabaseUnavailable e = unavailable_within 3 e"

section \<open>The filter\<close>

definition recordDatabaseUnavailable :: "('z obs_scheme, unit) io" where
  "recordDatabaseUnavailable = count_io ''database.unavailable.responses'' []"

fun is_http :: "thrown \<Rightarrow> bool" where
  "is_http (Thrown (HttpException _) _ _ _ _ _) = True"
| "is_http _ = False"

text \<open>\<open>DatabaseUnavailableFilter.catch\<close>: the exception it hands to the framework's own handling.\<close>

definition filter_catch :: "string \<Rightarrow> thrown \<Rightarrow> ('z obs_scheme, thrown) io" where
  "filter_catch requestId exc =
     (if \<not> is_http exc \<and> isDatabaseUnavailable exc
      then seq_io recordDatabaseUnavailable
        (seq_io (log_io Error (''database.unavailable requestId='' @ requestId @ '' cause='' @ message_of exc))
          (return_io (http_exception 503 ''Service temporarily unavailable'')))
      else return_io exc)"

text \<open>The status the framework gives an exception: its own for an HTTP exception, 500 for every other.\<close>

fun status_of :: "thrown \<Rightarrow> nat" where
  "status_of (Thrown (HttpException s) _ _ _ _ _) = s"
| "status_of _ = 500"

section \<open>Routes\<close>

text \<open>A route: the guard runs first and attaches the principal, then the handler, and an exception goes
  through the filter. The result is the status and the body, if there is one.\<close>

definition serve :: "('z http_ctx_scheme, bool) io \<Rightarrow> (principal \<Rightarrow> ('z http_ctx_scheme, 'a) io) \<Rightarrow> string \<Rightarrow> nat
    \<Rightarrow> ('z http_ctx_scheme, nat \<times> 'a option) io" where
  "serve guard handler rid ok =
     attempt_io
       (seq_io guard (bind_io (gets_io req_principal) (\<lambda>p. handler (the p))))
       (\<lambda>a. return_io (ok, Some a))
       (\<lambda>e. bind_io (filter_catch rid e) (\<lambda>e'. return_io (status_of e', None)))"

lemma filter_catch_run:
  "\<exists>e' w'. filter_catch rid e w = (Inr e', w') \<and> obs.more w' = obs.more w
     \<and> (is_http e \<longrightarrow> e' = e \<and> w' = w) \<and> (e' = e \<or> e' = http_exception 503 ''Service temporarily unavailable'')"
  by (simp add: filter_catch_def recordDatabaseUnavailable_def obs_defs io_defs)

lemma is_http_exception [simp]: "is_http (http_exception st m)" "status_of (http_exception st m) = st"
  by (simp_all add: http_exception_def error_of_def)

text \<open>A refused route answers the guard's status without running the handler; an admitted one runs the
  handler for the principal.\<close>

lemma serve_refused:
  assumes "guard w = (Inl (http_exception st m), w')"
  shows "serve guard handler rid ok w = (Inr (st, None), w')"
proof -
  have "filter_catch rid (http_exception st m) w' = (Inr (http_exception st m), w')"
    using filter_catch_run [of rid "http_exception st m" w'] by auto
  with assms show ?thesis by (simp add: serve_def attempt_io_def seq_io_def bind_io_def return_io_def)
qed

lemma serve_admitted:
  assumes "guard w = (Inr True, w\<lparr>req_principal := Some p\<rparr>)"
  shows "serve guard handler rid ok w =
    (case handler p (w\<lparr>req_principal := Some p\<rparr>) of
       (Inr a, w') \<Rightarrow> (Inr (ok, Some a), w')
     | (Inl e, w') \<Rightarrow> (case filter_catch rid e w' of
           (Inr e', w'') \<Rightarrow> (Inr (status_of e', None), w'') | (Inl x, w'') \<Rightarrow> (Inl x, w'')))"
  using assms
  by (simp add: serve_def attempt_io_def seq_io_def bind_io_def gets_io_def return_io_def split: prod.split sum.split)

section \<open>An outage\<close>

text \<open>What an error wraps: the driver's error, or else its cause. An outage is an error that is, or wraps within two
  levels, one with the code of a network or server failure, or with one of the driver's messages, in whatever case.\<close>

inductive wraps :: "thrown \<Rightarrow> thrown \<Rightarrow> bool" where
  driver: "wraps (Thrown c co cn m (Some d) ca) d"
| cause: "wraps (Thrown c co cn m None (Some d)) d"

inductive_simps wraps_Thrown: "wraps (Thrown c co cn m dr ca) d"
inductive_simps wraps_Falsy: "wraps (Falsy s) d"

definition outage_code :: "string \<Rightarrow> bool" where
  "outage_code c \<longleftrightarrow>
     c \<in> {''ENOTFOUND'', ''EAI_AGAIN''} \<union> {''ECONNREFUSED'', ''ECONNRESET'', ''ETIMEDOUT'', ''EPIPE''}
       \<union> {''57P01'', ''57P02'', ''57P03''} \<union> {''53300''}
     \<or> (\<exists>rest. c = ''08'' @ rest)"

definition outage_text :: "string \<Rightarrow> bool" where
  "outage_text m \<longleftrightarrow>
     (\<exists>pre phrase post. toLowerCase m = pre @ phrase @ post
        \<and> phrase \<in> {''connection terminated'', ''timeout exceeded when trying to connect'',
             ''client has encountered a connection error'', ''connection is closed''})"

fun outage_itself :: "thrown \<Rightarrow> bool" where
  "outage_itself (Thrown c co cn m dr ca) \<longleftrightarrow>
     (\<exists>code. co = Some code \<and> outage_code code) \<or> (\<exists>msg. m = Some msg \<and> outage_text msg)"
| "outage_itself (Falsy s) \<longleftrightarrow> False"

definition outage :: "thrown \<Rightarrow> bool" where
  "outage e \<longleftrightarrow> (\<exists>n<3. \<exists>d. (wraps ^^ n) e d \<and> outage_itself d)"

lemma connection_code_iff: "connection_code c \<longleftrightarrow> outage_code c"
  by (auto simp: connection_code_def CONNECTION_CODES_def outage_code_def prefix_def)

lemma contains_iff: "contains pat s \<longleftrightarrow> (\<exists>pre post. s = pre @ pat @ post)"
proof (induction s)
  case (Cons c s)
  have "(\<exists>pre post. c # s = pre @ pat @ post) \<longleftrightarrow> prefix pat (c # s) \<or> (\<exists>pre post. s = pre @ pat @ post)"
    by (auto simp: prefix_def Cons_eq_append_conv)
  with Cons show ?case by simp
qed auto

lemma connection_message_iff: "connection_message m \<longleftrightarrow> outage_text m"
proof -
  have phrases: "set CONNECTION_MESSAGES = {''connection terminated'', ''timeout exceeded when trying to connect'',
      ''client has encountered a connection error'', ''connection is closed''}" by (simp add: CONNECTION_MESSAGES_def)
  show ?thesis unfolding connection_message_def outage_text_def list_ex_iff contains_iff phrases [symmetric] by blast
qed

lemma wrapped_Suc: "(\<exists>d. (wraps ^^ Suc n) e d \<and> P d) \<longleftrightarrow> (\<exists>e'. wraps e e' \<and> (\<exists>d. (wraps ^^ n) e' d \<and> P d))"
  by (metis relpowp_Suc_D2 relpowp_Suc_I2)

lemma within_Suc:
  "(\<exists>n<Suc k. \<exists>d. (wraps ^^ n) e d \<and> P d) \<longleftrightarrow> P e \<or> (\<exists>e'. wraps e e' \<and> (\<exists>n<k. \<exists>d. (wraps ^^ n) e' d \<and> P d))"
proof -
  have "(\<exists>n<Suc k. \<exists>d. (wraps ^^ n) e d \<and> P d) \<longleftrightarrow> (\<exists>d. (wraps ^^ 0) e d \<and> P d) \<or> (\<exists>n<k. \<exists>d. (wraps ^^ Suc n) e d \<and> P d)"
    by (metis less_Suc_eq_0_disj)
  then show ?thesis unfolding wrapped_Suc by auto
qed

lemma unavailable_iff: "unavailable_within k e \<longleftrightarrow> (\<exists>n<k. \<exists>d. (wraps ^^ n) e d \<and> outage_itself d)"
proof (induction k e rule: unavailable_within.induct)
  case (2 k s)
  show ?case unfolding within_Suc by (simp add: wraps_Falsy)
next
  case (3 k cls co con msg driver cause)
  then show ?case
    unfolding within_Suc by (cases driver; cases cause) (auto simp: wraps_Thrown connection_code_iff connection_message_iff split: option.splits)
qed simp

lemma isDatabaseUnavailable_iff: "isDatabaseUnavailable e \<longleftrightarrow> outage e"
  by (simp add: isDatabaseUnavailable_def outage_def unavailable_iff)



end
