(* ===== verification/Users_Service.thy ===== *)
theory Users_Service
  imports Database_Filter Orders_Store
begin

text \<open>
  user-service: \<open>users/users.service.ts\<close>, \<open>users.controller.ts\<close>, the entity and the migration, and the two
  routes as the framework serves them (guard, handler, exception filter).
\<close>

section \<open>The table\<close>

record user_row =
  user_id :: string
  user_email :: string
  user_name :: string
  user_createdAt :: string

record create_user_dto =
  new_id :: string
  new_email :: string
  new_name :: string

record user_env =
  ue_fail :: "nat \<Rightarrow> thrown option"
  ue_lost :: "nat \<Rightarrow> thrown option"
  ue_now :: "nat \<Rightarrow> string"

record user_world = http_ctx +
  users_tbl :: "user_row list"
  user_stmts :: nat

text \<open>\<open>INSERT INTO users\<close>: the primary key is checked before the unique e-mail.\<close>

definition insert_user :: "string \<Rightarrow> create_user_dto \<Rightarrow> user_row list \<Rightarrow> thrown + user_row \<times> user_row list" where
  "insert_user now dto us =
     (case pg_uuid (new_id dto) of
        Inl e \<Rightarrow> Inl e
      | Inr u \<Rightarrow>
          if CHR 0x00 \<in> set (new_email dto) \<union> set (new_name dto)
            then Inl (pg_error ''22021'' None ''invalid byte sequence for encoding'')
          else if u \<in> user_id ` set us then Inl (pg_error ''23505'' (Some ''users_pkey'') ''duplicate key value'')
          else if new_email dto \<in> user_email ` set us
            then Inl (pg_error ''23505'' (Some ''users_email_key'') ''duplicate key value'')
          else
            let row = \<lparr>user_id = u, user_email = new_email dto, user_name = new_name dto, user_createdAt = now\<rparr>
            in Inr (row\<lparr>user_id := new_id dto\<rparr>, us @ [row]))"

definition find_user :: "string \<Rightarrow> user_row list \<Rightarrow> thrown + user_row option" where
  "find_user i us = (case pg_uuid i of Inl e \<Rightarrow> Inl e | Inr u \<Rightarrow> Inr (find (\<lambda>r. user_id r = u) us))"

definition repo_insert :: "user_env \<Rightarrow> create_user_dto \<Rightarrow> ('z user_world_scheme, user_row) io" where
  "repo_insert env dto = (\<lambda>w.
     let n = user_stmts w; w' = w\<lparr>user_stmts := Suc n\<rparr> in
     case ue_fail env n of
       Some e \<Rightarrow> (Inl e, w')
     | None \<Rightarrow>
         (case insert_user (ue_now env n) dto (users_tbl w) of
            Inl e \<Rightarrow> (Inl e, w')
          | Inr (u, us) \<Rightarrow> (case ue_lost env n of Some e \<Rightarrow> Inl e | None \<Rightarrow> Inr u, w'\<lparr>users_tbl := us\<rparr>)))"

definition repo_findOneBy :: "user_env \<Rightarrow> string \<Rightarrow> ('z user_world_scheme, user_row option) io" where
  "repo_findOneBy env i = (\<lambda>w.
     (case ue_fail env (user_stmts w) of Some e \<Rightarrow> Inl e | None \<Rightarrow> find_user i (users_tbl w),
      w\<lparr>user_stmts := Suc (user_stmts w)\<rparr>))"

section \<open>UsersService\<close>

text \<open>The catch block of \<open>create\<close>: what a failed insert is reported as.\<close>

fun user_conflict :: "thrown \<Rightarrow> thrown" where
  "user_conflict (Thrown QueryFailedError co con m (Some (Thrown cls dco dcon dm dd dc)) ca) =
     (if dco = Some ''23505''
      then http_exception 409 (if dcon = Some ''users_pkey'' then ''A user with this id already exists''
        else ''A user with this email already exists'')
      else Thrown QueryFailedError co con m (Some (Thrown cls dco dcon dm dd dc)) ca)"
| "user_conflict e = e"

definition users_create :: "user_env \<Rightarrow> create_user_dto \<Rightarrow> ('z user_world_scheme, user_row) io" where
  "users_create env dto = catch_io (repo_insert env dto) (\<lambda>err. throw_io (user_conflict err))"

definition users_findOne :: "user_env \<Rightarrow> string \<Rightarrow> ('z user_world_scheme, user_row) io" where
  "users_findOne env i =
     bind_io (repo_findOneBy env i) (\<lambda>u.
       case u of Some r \<Rightarrow> return_io r | None \<Rightarrow> throw_io (http_exception 404 ''User not found''))"

section \<open>UsersController and its routes\<close>

definition users_post_roles :: decorators where
  "users_post_roles = Roles [''admin''] undecorated"

definition users_get_roles :: decorators where
  "users_get_roles = Roles [''customer'', ''admin''] undecorated"

definition users_controller_get ::
  "user_env \<Rightarrow> (string \<Rightarrow> thrown + string) \<Rightarrow> string \<Rightarrow> principal \<Rightarrow> ('z user_world_scheme, user_row) io" where
  "users_controller_get env pipe raw p =
     bind_io (lift_io (pipe raw)) (\<lambda>i. seq_io (assertSelfOrAdmin p i) (users_findOne env i))"

definition GET_user ::
  "(string \<Rightarrow> thrown + principal) \<Rightarrow> user_env \<Rightarrow> (string \<Rightarrow> thrown + string) \<Rightarrow> auth_request \<Rightarrow> string
   \<Rightarrow> ('z user_world_scheme, nat \<times> user_row option) io" where
  "GET_user verifier env pipe req raw =
     serve (canActivate verifier users_get_roles undecorated req) (users_controller_get env pipe raw) (request_id_of req) 200"

definition POST_user ::
  "(string \<Rightarrow> thrown + principal) \<Rightarrow> user_env \<Rightarrow> auth_request \<Rightarrow> create_user_dto
   \<Rightarrow> ('z user_world_scheme, nat \<times> user_row option) io" where
  "POST_user verifier env req dto =
     serve (canActivate verifier users_post_roles undecorated req) (\<lambda>_. users_create env dto) (request_id_of req) 201"

section \<open>Integrity and round trip\<close>

definition users_ok :: "user_row list \<Rightarrow> bool" where
  "users_ok us \<longleftrightarrow> distinct (map user_id us) \<and> distinct (map user_email us) \<and> (\<forall>r\<in>set us. canonical_uuid (user_id r))"

lemma insert_user_ok: "users_ok us \<Longrightarrow> insert_user now dto us = Inr (u, us') \<Longrightarrow> users_ok us'"
  by (auto simp: insert_user_def pg_uuid_def users_ok_def Let_def split: if_splits)

lemma user_conflict_pg [simp]:
  "user_conflict (pg_error co con m) =
     (if co = ''23505'' then http_exception 409 (if con = Some ''users_pkey'' then ''A user with this id already exists''
        else ''A user with this email already exists'') else pg_error co con m)"
  by (simp add: pg_error_def)

text \<open>Creating a user, on every branch: with the database up, a user id that is taken (in any spelling) is
  a 409 that names the id, a taken e-mail a 409 that names the e-mail, and otherwise exactly the new row is
  stored and the user returned; nothing is ever overwritten.\<close>

lemma create_user_outcome:
  assumes "uuid_test (new_id dto)" "CHR 0x00 \<notin> set (new_email dto) \<union> set (new_name dto)"
    and "ue_fail env (user_stmts w) = None" "ue_lost env (user_stmts w) = None"
  shows "let taken = toLowerCase (new_id dto) \<in> user_id ` set (users_tbl w);
             mail = new_email dto \<in> user_email ` set (users_tbl w);
             row = \<lparr>user_id = toLowerCase (new_id dto), user_email = new_email dto, user_name = new_name dto,
                    user_createdAt = ue_now env (user_stmts w)\<rparr>
         in fst (users_create env dto w) =
              (if taken then Inl (http_exception 409 ''A user with this id already exists'')
               else if mail then Inl (http_exception 409 ''A user with this email already exists'')
               else Inr (row\<lparr>user_id := new_id dto\<rparr>))
          \<and> users_tbl (snd (users_create env dto w)) =
              (if taken \<or> mail then users_tbl w else users_tbl w @ [row])"
  using assms by (simp add: users_create_def repo_insert_def insert_user_def pg_uuid_def io_defs Let_def)

section \<open>Who may do what\<close>

lemma protected_roles:
  "override_meta (public_meta users_post_roles) (public_meta undecorated) \<noteq> Some True"
  "override_meta (roles_meta users_post_roles) (roles_meta undecorated) = Some [''admin'']"
  "override_meta (public_meta users_get_roles) (public_meta undecorated) \<noteq> Some True"
  "override_meta (roles_meta users_get_roles) (roles_meta undecorated) = Some [''customer'', ''admin'']"
  by (simp_all add: override_meta_def users_post_roles_def users_get_roles_def Roles_def undecorated_def)

lemma users_tbl_filter: "users_tbl (snd (filter_catch rid e w)) = users_tbl w"
  by (simp add: filter_catch_def recordDatabaseUnavailable_def obs_defs io_defs)

lemma users_tbl_guard: "http_ctx.more w' = http_ctx.more w \<Longrightarrow> users_tbl w' = users_tbl w"
  by (cases w; cases w') simp

text \<open>C35: only an admin creates users: the users table changes only in a request whose bearer token the verifier
  accepted for a principal with the role \<open>admin\<close>.\<close>

theorem only_admins_create_users:
  "users_tbl (snd (POST_user verifier env req dto w)) = users_tbl w
   \<or> (\<exists>t p. presented_token req = Some t \<and> verifier t = Inr p \<and> ''admin'' \<in> set (roles p))"
  using protected_roles(1)
proof (cases rule: canActivate_cases [where v = verifier and req = req and w = w])
  case (passes p)
  then show ?thesis by (auto simp: guard_accepts_def protected_roles)
next
  case (refused st m w')
  then show ?thesis
    by (simp add: POST_user_def serve_refused [where guard = "canActivate verifier users_post_roles undecorated req",
          OF refused(2)] users_tbl_guard [OF refused(3)])
qed

text \<open>What \<open>GET /v1/users/:id\<close> answers to an admitted caller, with the database up.\<close>

lemma users_get_run:
  assumes "pipe raw = Inr i" "uuid_test i" "ue_fail env (user_stmts w) = None"
  shows "fst (users_controller_get env pipe raw p w) =
    (if isAdmin p \<or> sub p = toLowerCase i
     then (case find (\<lambda>r. user_id r = toLowerCase i) (users_tbl w) of
             Some r \<Rightarrow> Inr r | None \<Rightarrow> Inl (http_exception 404 ''User not found''))
     else Inl (http_exception 403 ''Forbidden''))"
proof (cases "isAdmin p \<or> sub p = toLowerCase i")
  case True
  with assms show ?thesis
    by (simp add: users_controller_get_def owner_checks_pass users_findOne_def repo_findOneBy_def find_user_def pg_uuid_def
        io_defs split: option.split)
next
  case False
  with assms assertSelfOrAdmin_outcome [of p i w] show ?thesis
    by (cases "assertSelfOrAdmin p i w") (auto simp: users_controller_get_def io_defs)
qed

definition GET_status :: "(string \<Rightarrow> thrown + principal) \<Rightarrow> auth_request \<Rightarrow> string \<Rightarrow> user_row list \<Rightarrow> nat \<Rightarrow> bool" where
  "GET_status verifier req i us st \<longleftrightarrow>
     (\<exists>p. guard_accepts verifier (Some [''customer'', ''admin'']) req p
        \<and> st = (if isAdmin p \<or> sub p = toLowerCase i
             then (if toLowerCase i \<in> user_id ` set us then 200 else 404) else 403))
     \<or> ((\<forall>p. \<not> guard_accepts verifier (Some [''customer'', ''admin'']) req p) \<and> st \<in> {401, 403, 503})"

lemma GET_user_answers:
  assumes "pipe raw = Inr i" "uuid_test i" "ue_fail env (user_stmts w) = None"
  shows "\<exists>st b. fst (GET_user verifier env pipe req raw w) = Inr (st, b) \<and> GET_status verifier req i (users_tbl w) st"
  using protected_roles(3)
proof (cases rule: canActivate_cases [where v = verifier and req = req and w = w])
  case (refused st m w')
  then show ?thesis
    by (auto simp: GET_user_def GET_status_def protected_roles
        serve_refused [where guard = "canActivate verifier users_get_roles undecorated req", OF refused(2)])
next
  case (passes p)
  let ?w = "w\<lparr>req_principal := Some p\<rparr>"
  have acc: "guard_accepts verifier (Some [''customer'', ''admin'']) req p" using passes(1) by (simp add: protected_roles)
  have res: "fst (users_controller_get env pipe raw p ?w) =
    (if isAdmin p \<or> sub p = toLowerCase i
     then (case find (\<lambda>r. user_id r = toLowerCase i) (users_tbl w) of
             Some r \<Rightarrow> Inr r | None \<Rightarrow> Inl (http_exception 404 ''User not found''))
     else Inl (http_exception 403 ''Forbidden''))"
    using users_get_run [where w = ?w and pipe = pipe, OF assms(1,2)] assms(3) by simp
  have found: "find (\<lambda>r. user_id r = toLowerCase i) (users_tbl w) = None \<longleftrightarrow> toLowerCase i \<notin> user_id ` set (users_tbl w)"
    by (force simp: find_None_iff image_iff)
  obtain r w1 where run: "users_controller_get env pipe raw p ?w = (r, w1)" by fastforce
  have filt: "filter_catch rid (http_exception st m) w1 = (Inr (http_exception st m), w1)" for rid st m
    using filter_catch_run [of rid "http_exception st m" w1] by auto
  have "\<exists>st b. fst (GET_user verifier env pipe req raw w) = Inr (st, b)
      \<and> st = (if isAdmin p \<or> sub p = toLowerCase i
             then (if toLowerCase i \<in> user_id ` set (users_tbl w) then 200 else 404) else 403)"
    using res run found
    by (auto simp: GET_user_def serve_admitted [where guard = "canActivate verifier users_get_roles undecorated req", OF passes(2)] filt split: if_splits option.splits)
  with acc show ?thesis unfolding GET_status_def by blast
qed

text \<open>\<open>GET /v1/users/:id\<close> with the database up: 200 exactly for an existing user asked for by that user or by
  an admin, and 404 for a missing one; every other admitted caller gets 403 whether the user exists or
  not, and a caller the guard refuses 401, 403 or 503.\<close>

lemma get_user_status:
  assumes "pipe raw = Inr i" "uuid_test i" "ue_fail env (user_stmts w) = None"
  shows "\<exists>st b. fst (GET_user verifier env pipe req raw w) = Inr (st, b) \<and> GET_status verifier req i (users_tbl w) st"
  using assms by (rule GET_user_answers)

section \<open>Runs\<close>

definition demo_user_env :: user_env where
  "demo_user_env = \<lparr>ue_fail = (\<lambda>_. None), ue_lost = (\<lambda>_. None), ue_now = (\<lambda>_. ''2024-01-01'')\<rparr>"

definition demo_user_world :: user_world where
  "demo_user_world = \<lparr>logs = [], counters = [], res_headers = [], req_principal = None,
     users_tbl = [\<lparr>user_id = sub demo_principal, user_email = ''a@example.com'', user_name = ''Ada'', user_createdAt = ''2024-01-01''\<rparr>],
     user_stmts = 0\<rparr>"

definition demo_user_dto :: create_user_dto where
  "demo_user_dto = \<lparr>new_id = ''3F6C1C2E-8A3B-4F0E-9D55-0C1D2E3F4A5B'', new_email = ''b@example.com'', new_name = ''Bob''\<rparr>"

lemma create_user_outcome_demo:
  "fst (users_create demo_user_env demo_user_dto demo_user_world) =
     Inl (http_exception 409 ''A user with this id already exists'')"
proof -
  have "uuid_test (new_id demo_user_dto)" "CHR 0x00 \<notin> set (new_email demo_user_dto) \<union> set (new_name demo_user_dto)"
    "toLowerCase (new_id demo_user_dto) \<in> user_id ` set (users_tbl demo_user_world)"
    by code_simp+
  then show ?thesis
    using create_user_outcome [of demo_user_dto demo_user_env demo_user_world]
    by (simp add: demo_user_env_def Let_def)
qed

lemma get_user_status_demo:
  "\<exists>st b. fst (GET_user demo_verifier demo_user_env Inr (demo_request (Some ''Bearer good'')) (sub demo_principal) demo_user_world)
     = Inr (st, b) \<and> GET_status demo_verifier (demo_request (Some ''Bearer good'')) (sub demo_principal) (users_tbl demo_user_world) st"
proof -
  have u: "uuid_test (sub demo_principal)" by code_simp
  have up: "ue_fail demo_user_env (user_stmts demo_user_world) = None" by (simp add: demo_user_env_def)
  show ?thesis
    by (rule get_user_status [where pipe = Inr, OF refl u up])
qed

end
