(* ===== verification/Env_Config.thy ===== *)
theory Env_Config
  imports JsConvert
begin

text \<open>
  The validation of the environment at startup: \<open>auth/auth.config.ts\<close> and \<open>config/env.ts\<close> of the four
  services. A raw value is \<open>undefined\<close>, a string, or whatever the configuration layer put there. The
  platform's URL parser is the parameter \<open>url_ok\<close>.
\<close>

type_synonym raw_env = "string \<Rightarrow> jsval"

section \<open>Shared checks\<close>

definition config_error :: "string \<Rightarrow> thrown" where
  "config_error msg = error_of PlainError msg"

fun required_value :: "jsval \<Rightarrow> string \<Rightarrow> thrown + string" where
  "required_value (JStr s) name = (if s = [] then Inl (config_error (name @ '' is required'')) else Inr s)"
| "required_value _ name = Inl (config_error (name @ '' is required''))"

definition required :: "raw_env \<Rightarrow> string \<Rightarrow> thrown + string" where
  "required raw name = required_value (raw name) name"

text \<open>\<open>positiveInt\<close> and \<open>intBetween\<close>: an integer from 1 to \<open>mx\<close>.\<close>

definition positiveInt :: "raw_env \<Rightarrow> string \<Rightarrow> int \<Rightarrow> int \<Rightarrow> thrown + int" where
  "positiveInt raw name fallback mx =
     (let err = Inl (config_error (name @ '' must be an integer between 1 and '' @ int_string mx)) in
      case js_Number (js_or (raw name) (JNum (Fin (of_int fallback)))) of
        Fin x \<Rightarrow> (if of_int \<lfloor>x\<rfloor> = x \<and> 1 \<le> x \<and> x \<le> of_int mx then Inr \<lfloor>x\<rfloor> else err)
      | _ \<Rightarrow> err)"

definition MAX_SAFE_INTEGER :: int where
  "MAX_SAFE_INTEGER = 9007199254740991"

definition log_level_of :: "raw_env \<Rightarrow> string" where
  "log_level_of raw = js_String (js_or (raw ''LOG_LEVEL'') (JStr ''info''))"

section \<open>Authentication\<close>

record auth_env =
  AUTH_ISSUER :: string
  AUTH_AUDIENCE :: string
  AUTH_JWKS_URL :: string
  AUTH_JWKS_TIMEOUT_MS :: int
  AUTH_JWKS_CACHE_SECONDS :: int
  AUTH_CLOCK_TOLERANCE_SECONDS :: int

definition validateAuthEnv :: "(string \<Rightarrow> bool) \<Rightarrow> raw_env \<Rightarrow> thrown + auth_env" where
  "validateAuthEnv url_ok raw =
     and_then (required raw ''AUTH_JWKS_URL'') (\<lambda>jwksUrl.
     if \<not> url_ok jwksUrl then Inl (config_error ''AUTH_JWKS_URL must be a valid URL'')
     else
     and_then (required raw ''AUTH_ISSUER'') (\<lambda>issuer.
     and_then (required raw ''AUTH_AUDIENCE'') (\<lambda>audience.
     and_then (positiveInt raw ''AUTH_JWKS_TIMEOUT_MS'' 2000 30000) (\<lambda>timeout.
     and_then (positiveInt raw ''AUTH_JWKS_CACHE_SECONDS'' 3600 86400) (\<lambda>cache.
     and_then (positiveInt raw ''AUTH_CLOCK_TOLERANCE_SECONDS'' 5 60) (\<lambda>tolerance.
       Inr \<lparr>AUTH_ISSUER = issuer, AUTH_AUDIENCE = audience, AUTH_JWKS_URL = jwksUrl, AUTH_JWKS_TIMEOUT_MS = timeout,
            AUTH_JWKS_CACHE_SECONDS = cache, AUTH_CLOCK_TOLERANCE_SECONDS = tolerance\<rparr>))))))"

section \<open>The services\<close>

record order_service_env =
  os_PORT :: int
  os_LOG_LEVEL :: string
  os_DATABASE_URL :: string
  os_REDIS_URL :: string
  os_RABBITMQ_URL :: string
  os_USER_SERVICE_URL :: string
  os_USER_LOOKUP_TIMEOUT_MS :: int
  os_USER_CACHE_TTL_SECONDS :: int
  os_auth :: auth_env

definition validateOrderEnv :: "(string \<Rightarrow> bool) \<Rightarrow> raw_env \<Rightarrow> thrown + order_service_env" where
  "validateOrderEnv url_ok raw =
     and_then (positiveInt raw ''PORT'' 3000 65535) (\<lambda>port.
     and_then (required raw ''DATABASE_URL'') (\<lambda>db.
     and_then (required raw ''REDIS_URL'') (\<lambda>redis.
     and_then (required raw ''RABBITMQ_URL'') (\<lambda>rabbit.
     and_then (required raw ''USER_SERVICE_URL'') (\<lambda>users.
     and_then (positiveInt raw ''USER_LOOKUP_TIMEOUT_MS'' 2000 MAX_SAFE_INTEGER) (\<lambda>timeout.
     and_then (positiveInt raw ''USER_CACHE_TTL_SECONDS'' 60 MAX_SAFE_INTEGER) (\<lambda>ttl.
     and_then (validateAuthEnv url_ok raw) (\<lambda>auth.
       Inr \<lparr>os_PORT = port, os_LOG_LEVEL = log_level_of raw, os_DATABASE_URL = db, os_REDIS_URL = redis,
            os_RABBITMQ_URL = rabbit, os_USER_SERVICE_URL = strip_slashes users, os_USER_LOOKUP_TIMEOUT_MS = timeout,
            os_USER_CACHE_TTL_SECONDS = ttl, os_auth = auth\<rparr>))))))))"

record worker_env =
  wk_PORT :: int
  wk_LOG_LEVEL :: string
  wk_DATABASE_URL :: string
  wk_RABBITMQ_URL :: string
  wk_WORKER_PREFETCH :: int
  wk_MAX_ATTEMPTS :: int
  wk_auth :: auth_env

definition validateWorkerEnv :: "(string \<Rightarrow> bool) \<Rightarrow> raw_env \<Rightarrow> thrown + worker_env" where
  "validateWorkerEnv url_ok raw =
     and_then (positiveInt raw ''PORT'' 3000 65535) (\<lambda>port.
     and_then (required raw ''DATABASE_URL'') (\<lambda>db.
     and_then (required raw ''RABBITMQ_URL'') (\<lambda>rabbit.
     and_then (positiveInt raw ''WORKER_PREFETCH'' 10 1000) (\<lambda>prefetch.
     and_then (positiveInt raw ''MAX_ATTEMPTS'' 3 100) (\<lambda>attempts.
     and_then (validateAuthEnv url_ok raw) (\<lambda>auth.
       Inr \<lparr>wk_PORT = port, wk_LOG_LEVEL = log_level_of raw, wk_DATABASE_URL = db, wk_RABBITMQ_URL = rabbit,
            wk_WORKER_PREFETCH = prefetch, wk_MAX_ATTEMPTS = attempts, wk_auth = auth\<rparr>))))))"

record gateway_env =
  ge_PORT :: int
  ge_LOG_LEVEL :: string
  ge_USER_SERVICE_URL :: string
  ge_ORDER_SERVICE_URL :: string
  ge_NOTIFICATION_WORKER_URL :: string
  ge_UPSTREAM_TIMEOUT_MS :: int
  ge_RATE_LIMIT_PER_MINUTE :: int
  ge_auth :: auth_env

definition url :: "(string \<Rightarrow> bool) \<Rightarrow> raw_env \<Rightarrow> string \<Rightarrow> thrown + string" where
  "url url_ok raw name =
     and_then (required raw name) (\<lambda>v.
       if url_ok v then Inr (strip_slashes v) else Inl (config_error (name @ '' must be a valid URL'')))"

definition validateGatewayEnv :: "(string \<Rightarrow> bool) \<Rightarrow> raw_env \<Rightarrow> thrown + gateway_env" where
  "validateGatewayEnv url_ok raw =
     and_then (positiveInt raw ''PORT'' 3000 65535) (\<lambda>port.
     and_then (url url_ok raw ''USER_SERVICE_URL'') (\<lambda>users.
     and_then (url url_ok raw ''ORDER_SERVICE_URL'') (\<lambda>orders.
     and_then (url url_ok raw ''NOTIFICATION_WORKER_URL'') (\<lambda>notifications.
     and_then (positiveInt raw ''UPSTREAM_TIMEOUT_MS'' 10000 MAX_SAFE_INTEGER) (\<lambda>timeout.
     and_then (positiveInt raw ''RATE_LIMIT_PER_MINUTE'' 120 MAX_SAFE_INTEGER) (\<lambda>limit.
     and_then (validateAuthEnv url_ok raw) (\<lambda>auth.
       Inr \<lparr>ge_PORT = port, ge_LOG_LEVEL = log_level_of raw, ge_USER_SERVICE_URL = users, ge_ORDER_SERVICE_URL = orders,
            ge_NOTIFICATION_WORKER_URL = notifications, ge_UPSTREAM_TIMEOUT_MS = timeout,
            ge_RATE_LIMIT_PER_MINUTE = limit, ge_auth = auth\<rparr>)))))))"

record user_service_env =
  us_PORT :: int
  us_LOG_LEVEL :: string
  us_DATABASE_URL :: string
  us_auth :: auth_env

definition validateUserEnv :: "(string \<Rightarrow> bool) \<Rightarrow> raw_env \<Rightarrow> thrown + user_service_env" where
  "validateUserEnv url_ok raw =
     and_then (required raw ''DATABASE_URL'') (\<lambda>db.
     and_then (positiveInt raw ''PORT'' 3000 65535) (\<lambda>port.
     and_then (validateAuthEnv url_ok raw) (\<lambda>auth.
       Inr \<lparr>us_PORT = port, us_LOG_LEVEL = log_level_of raw, us_DATABASE_URL = db, us_auth = auth\<rparr>)))"

section \<open>What a validated configuration guarantees\<close>

lemma required_InrD: "required raw name = Inr s \<Longrightarrow> raw name = JStr s \<and> s \<noteq> []"
  by (cases "raw name") (auto simp: required_def split: if_splits)

lemma positiveInt_InrD: "positiveInt raw name fb mx = Inr n \<Longrightarrow> 1 \<le> n \<and> n \<le> mx"
  by (auto simp: positiveInt_def Let_def le_floor_iff floor_le_iff split: jsnum.splits if_splits)

definition auth_env_ok :: "(string \<Rightarrow> bool) \<Rightarrow> auth_env \<Rightarrow> bool" where
  "auth_env_ok url_ok a \<longleftrightarrow>
     AUTH_ISSUER a \<noteq> [] \<and> AUTH_AUDIENCE a \<noteq> [] \<and> url_ok (AUTH_JWKS_URL a)
     \<and> 1 \<le> AUTH_JWKS_TIMEOUT_MS a \<and> AUTH_JWKS_TIMEOUT_MS a \<le> 30000
     \<and> 1 \<le> AUTH_JWKS_CACHE_SECONDS a \<and> AUTH_JWKS_CACHE_SECONDS a \<le> 86400
     \<and> 1 \<le> AUTH_CLOCK_TOLERANCE_SECONDS a \<and> AUTH_CLOCK_TOLERANCE_SECONDS a \<le> 60"

lemma validateAuthEnv_ok: "validateAuthEnv url_ok raw = Inr a \<Longrightarrow> auth_env_ok url_ok a"
  by (auto simp: validateAuthEnv_def and_then_Inr auth_env_ok_def dest!: required_InrD positiveInt_InrD split: if_splits)

text \<open>
  Which raw values pass: a required variable is a non-empty string, a number is absent or converts to an
  integer in its range.
\<close>

definition present :: "raw_env \<Rightarrow> string \<Rightarrow> bool" where
  "present raw name \<longleftrightarrow> (case raw name of JStr s \<Rightarrow> s \<noteq> [] | _ \<Rightarrow> False)"

definition int_or_absent :: "raw_env \<Rightarrow> string \<Rightarrow> int \<Rightarrow> bool" where
  "int_or_absent raw name mx \<longleftrightarrow>
     nullish (raw name) \<or> (\<exists>n. 1 \<le> n \<and> n \<le> mx \<and> js_Number (raw name) = Fin (of_int n))"

definition text_of :: "raw_env \<Rightarrow> string \<Rightarrow> string" where
  "text_of raw name = (case raw name of JStr s \<Rightarrow> s | _ \<Rightarrow> [])"

lemma required_present: "present raw name \<Longrightarrow> required raw name = Inr (text_of raw name)"
  by (cases "raw name") (auto simp: required_def present_def text_of_def)

lemma required_iff_present: "(\<exists>s. required raw name = Inr s) \<longleftrightarrow> present raw name"
  by (cases "raw name") (auto simp: required_def present_def)

lemma positiveInt_iff:
  assumes "1 \<le> fb" "fb \<le> mx"
  shows "(\<exists>n. positiveInt raw name fb mx = Inr n) \<longleftrightarrow> int_or_absent raw name mx"
proof (cases "js_Number (js_or (raw name) (JNum (Fin (of_int fb))))")
  case (Fin x)
  have "(of_int \<lfloor>x\<rfloor> = x \<and> 1 \<le> x \<and> x \<le> of_int mx) \<longleftrightarrow> (\<exists>n. 1 \<le> n \<and> n \<le> mx \<and> x = of_int n)" (is "?L \<longleftrightarrow> ?R")
  proof
    assume ?L then show ?R by (intro exI [of _ "\<lfloor>x\<rfloor>"]) (auto simp: le_floor_iff floor_le_iff)
  qed auto
  then show ?thesis using Fin assms
    by (auto simp: positiveInt_def int_or_absent_def js_or_def Let_def split: if_splits)
qed (use assms in \<open>auto simp: positiveInt_def int_or_absent_def js_or_def Let_def split: if_splits\<close>)

lemma positiveInt_default:
  "nullish (raw name) \<Longrightarrow> 1 \<le> fb \<Longrightarrow> fb \<le> mx \<Longrightarrow> positiveInt raw name fb mx = Inr fb"
  by (simp add: positiveInt_def js_or_def)

lemma positiveInt_decimal:
  assumes "raw name = JStr (nat_string n)" "1 \<le> n" "int n \<le> mx" "n < 2 ^ 52"
  shows "positiveInt raw name fb mx = Inr (int n)"
  using assms string_to_number_nat_string [OF assms(4)]
  by (simp add: positiveInt_def js_or_def del: of_nat_less_iff)

definition auth_vars_ok :: "(string \<Rightarrow> bool) \<Rightarrow> raw_env \<Rightarrow> bool" where
  "auth_vars_ok url_ok raw \<longleftrightarrow>
     present raw ''AUTH_JWKS_URL'' \<and> url_ok (text_of raw ''AUTH_JWKS_URL'')
     \<and> present raw ''AUTH_ISSUER'' \<and> present raw ''AUTH_AUDIENCE''
     \<and> int_or_absent raw ''AUTH_JWKS_TIMEOUT_MS'' 30000
     \<and> int_or_absent raw ''AUTH_JWKS_CACHE_SECONDS'' 86400
     \<and> int_or_absent raw ''AUTH_CLOCK_TOLERANCE_SECONDS'' 60"

lemma validateAuthEnv_iff: "(\<exists>a. validateAuthEnv url_ok raw = Inr a) \<longleftrightarrow> auth_vars_ok url_ok raw"
proof (cases "present raw ''AUTH_JWKS_URL''")
  case True
  then show ?thesis
    by (simp add: validateAuthEnv_def required_present and_then_iff required_iff_present positiveInt_iff auth_vars_ok_def)
next
  case False
  then have "\<nexists>s. required raw ''AUTH_JWKS_URL'' = Inr s" by (simp only: required_iff_present not_False_eq_True)
  with False show ?thesis by (auto simp: validateAuthEnv_def and_then_Inr auth_vars_ok_def)
qed

lemma url_iff: "(\<exists>u. url url_ok raw name = Inr u) \<longleftrightarrow> present raw name \<and> url_ok (text_of raw name)"
proof (cases "present raw name")
  case True
  then show ?thesis by (simp add: url_def required_present)
next
  case False
  then have "\<nexists>s. required raw name = Inr s" by (simp only: required_iff_present not_False_eq_True)
  with False show ?thesis by (auto simp: url_def and_then_Inr)
qed

lemmas env_iffs = and_then_iff required_iff_present positiveInt_iff url_iff validateAuthEnv_iff

text \<open>C36: a service starts exactly when its environment is complete and in range: every required variable is
  a non-empty string, \<open>AUTH_JWKS_URL\<close> and at the gateway the three upstream URLs are URLs to the parser (the other
  addresses need only be non-empty), and every number is absent (its default is used)
  or converts to an integer from 1 to its maximum. Each of the four validations refuses every other
  environment.\<close>
theorem services_start_iff:
  "((\<exists>e. validateOrderEnv url_ok raw = Inr e) \<longleftrightarrow>
      int_or_absent raw ''PORT'' 65535 \<and> list_all (present raw) [''DATABASE_URL'', ''REDIS_URL'', ''RABBITMQ_URL'', ''USER_SERVICE_URL'']
      \<and> int_or_absent raw ''USER_LOOKUP_TIMEOUT_MS'' MAX_SAFE_INTEGER
      \<and> int_or_absent raw ''USER_CACHE_TTL_SECONDS'' MAX_SAFE_INTEGER \<and> auth_vars_ok url_ok raw)
   \<and> ((\<exists>e. validateWorkerEnv url_ok raw = Inr e) \<longleftrightarrow>
      int_or_absent raw ''PORT'' 65535 \<and> list_all (present raw) [''DATABASE_URL'', ''RABBITMQ_URL'']
      \<and> int_or_absent raw ''WORKER_PREFETCH'' 1000 \<and> int_or_absent raw ''MAX_ATTEMPTS'' 100 \<and> auth_vars_ok url_ok raw)
   \<and> ((\<exists>e. validateGatewayEnv url_ok raw = Inr e) \<longleftrightarrow>
      int_or_absent raw ''PORT'' 65535
      \<and> list_all (\<lambda>n. present raw n \<and> url_ok (text_of raw n)) [''USER_SERVICE_URL'', ''ORDER_SERVICE_URL'', ''NOTIFICATION_WORKER_URL'']
      \<and> int_or_absent raw ''UPSTREAM_TIMEOUT_MS'' MAX_SAFE_INTEGER
      \<and> int_or_absent raw ''RATE_LIMIT_PER_MINUTE'' MAX_SAFE_INTEGER \<and> auth_vars_ok url_ok raw)
   \<and> ((\<exists>e. validateUserEnv url_ok raw = Inr e) \<longleftrightarrow>
      present raw ''DATABASE_URL'' \<and> int_or_absent raw ''PORT'' 65535 \<and> auth_vars_ok url_ok raw)"
proof (intro conjI, goal_cases)
  case 1 show ?case by (simp add: validateOrderEnv_def env_iffs MAX_SAFE_INTEGER_def)
next
  case 2 show ?case by (simp add: validateWorkerEnv_def env_iffs)
next
  case 3 show ?case by (simp add: validateGatewayEnv_def env_iffs MAX_SAFE_INTEGER_def)
next
  case 4 show ?case by (simp add: validateUserEnv_def env_iffs)
qed

text \<open>What the code downstream relies on in a validated configuration.\<close>

lemma validateWorkerEnv_ok:
  assumes "validateWorkerEnv url_ok raw = Inr env"
  shows "1 \<le> wk_PORT env" "wk_PORT env \<le> 65535" "1 \<le> wk_WORKER_PREFETCH env" "wk_WORKER_PREFETCH env \<le> 1000"
    "1 \<le> wk_MAX_ATTEMPTS env" "wk_MAX_ATTEMPTS env \<le> 100" "auth_env_ok url_ok (wk_auth env)"
  using assms
  by (auto simp: validateWorkerEnv_def and_then_Inr dest!: positiveInt_InrD validateAuthEnv_ok)

text \<open>What is written is what is configured. A number written in decimal in the worker's environment is
  read back as that number, a connection string unchanged, and the variables left out take their defaults
  (port 3000, prefetch 10, three attempts).\<close>
lemma worker_env_reads_back:
  assumes "raw ''PORT'' = JStr (nat_string port)" "1 \<le> port" "port \<le> 65535"
    and "raw ''MAX_ATTEMPTS'' = JStr (nat_string attempts)" "1 \<le> attempts" "attempts \<le> 100"
    and "nullish (raw ''WORKER_PREFETCH'')" "nullish (raw ''LOG_LEVEL'')"
    and "raw ''DATABASE_URL'' = JStr db" "db \<noteq> []" "raw ''RABBITMQ_URL'' = JStr rabbit" "rabbit \<noteq> []"
    and "validateAuthEnv url_ok raw = Inr auth"
  shows "validateWorkerEnv url_ok raw =
      Inr \<lparr>wk_PORT = int port, wk_LOG_LEVEL = ''info'', wk_DATABASE_URL = db, wk_RABBITMQ_URL = rabbit,
           wk_WORKER_PREFETCH = 10, wk_MAX_ATTEMPTS = int attempts, wk_auth = auth\<rparr>"
proof -
  have "positiveInt raw ''PORT'' 3000 65535 = Inr (int port)"
    by (rule positiveInt_decimal [where raw = raw, OF assms(1,2)]) (use assms(3) in simp_all)
  moreover have "positiveInt raw ''MAX_ATTEMPTS'' 3 100 = Inr (int attempts)"
    by (rule positiveInt_decimal [where raw = raw, OF assms(4,5)]) (use assms(6) in simp_all)
  moreover have "positiveInt raw ''WORKER_PREFETCH'' 10 1000 = Inr 10"
    by (rule positiveInt_default [where raw = raw, OF assms(7)]) simp_all
  moreover have "required raw ''DATABASE_URL'' = Inr db" "required raw ''RABBITMQ_URL'' = Inr rabbit"
    using assms(9-12) by (simp_all add: required_def)
  ultimately show ?thesis using assms(8,13) by (simp add: validateWorkerEnv_def log_level_of_def js_or_def)
qed

definition demo_worker_env :: raw_env where
  "demo_worker_env name =
     (if name = ''PORT'' then JStr ''3002'' else if name = ''MAX_ATTEMPTS'' then JStr ''5''
      else if name = ''DATABASE_URL'' then JStr ''postgres://db'' else if name = ''RABBITMQ_URL'' then JStr ''amqp://mq''
      else if name = ''AUTH_JWKS_URL'' then JStr ''http://idp/certs'' else if name = ''AUTH_ISSUER'' then JStr ''http://idp''
      else if name = ''AUTH_AUDIENCE'' then JStr ''platform'' else JUndefined)"

lemma demo_auth_env: "\<exists>auth. validateAuthEnv (\<lambda>_. True) demo_worker_env = Inr auth"
  by (simp add: validateAuthEnv_iff auth_vars_ok_def present_def int_or_absent_def demo_worker_env_def)

lemma demo_numbers: "''3002'' = nat_string 3002" "''5'' = nat_string 5"
  by code_simp+

lemma worker_env_reads_back_demo:
  "wk_MAX_ATTEMPTS (projr (validateWorkerEnv (\<lambda>_. True) demo_worker_env)) = 5"
proof -
  obtain auth where a: "validateAuthEnv (\<lambda>_. True) demo_worker_env = Inr auth" using demo_auth_env by blast
  show ?thesis
    by (subst worker_env_reads_back [of _ 3002 5 "''postgres://db''" "''amqp://mq''", OF _ _ _ _ _ _ _ _ _ _ _ _ a])
      (simp_all add: demo_worker_env_def demo_numbers)
qed

lemma demo_worker_config:
  "\<exists>cfg. validateWorkerEnv (\<lambda>_. True) demo_worker_env = Inr cfg \<and> wk_MAX_ATTEMPTS cfg = 5"
proof -
  obtain auth where a: "validateAuthEnv (\<lambda>_. True) demo_worker_env = Inr auth" using demo_auth_env by blast
  have "positiveInt demo_worker_env ''MAX_ATTEMPTS'' 3 100 = Inr (int 5)"
    by (rule positiveInt_decimal [where raw = demo_worker_env]) (simp_all add: demo_worker_env_def demo_numbers)
  moreover have "positiveInt demo_worker_env ''PORT'' 3000 65535 = Inr (int 3002)"
    by (rule positiveInt_decimal [where raw = demo_worker_env]) (simp_all add: demo_worker_env_def demo_numbers)
  moreover have "positiveInt demo_worker_env ''WORKER_PREFETCH'' 10 1000 = Inr 10"
    by (rule positiveInt_default [where raw = demo_worker_env]) (simp_all add: demo_worker_env_def)
  moreover have "required demo_worker_env ''DATABASE_URL'' = Inr ''postgres://db''" "required demo_worker_env ''RABBITMQ_URL'' = Inr ''amqp://mq''"
    by (simp_all add: required_def demo_worker_env_def)
  ultimately show ?thesis by (simp add: validateWorkerEnv_def a)
qed

end
