(* ===== verification/Composition.thy ===== *)
theory Composition
  imports Event_Publisher Consumer Users_Service Env_Config
begin

text \<open>
  Where the services meet: the event order-service publishes as notification-worker reads it, and
  user-service as the network behind order-service's user lookup. The properties over these definitions are
  in the root theory.
\<close>

section \<open>The event contract\<close>

text \<open>What the worker makes of an event of the publisher.\<close>

definition received_event :: "domain_event \<Rightarrow> order_created_event" where
  "received_event ev =
     \<lparr>oc_eventId = eventId ev, oc_correlationId = event_correlationId ev, oc_orderId = data_orderId (event_data ev),
      oc_userId = data_userId (event_data ev)\<rparr>"

definition event_ids_ok :: "domain_event \<Rightarrow> bool" where
  "event_ids_ok ev \<longleftrightarrow>
     event_type ev = ''order.created'' \<and> uuid_test (eventId ev) \<and> uuid_test (data_orderId (event_data ev))
     \<and> uuid_test (data_userId (event_data ev))"

text \<open>The first delivery of an event, with the worker's database up.\<close>

definition note_db_up :: "consumer_env \<Rightarrow> 'z consumer_world_scheme \<Rightarrow> bool" where
  "note_db_up env w \<longleftrightarrow>
     ne_fail (ce_notif env) (note_stmts w) = None \<and> ne_uuid (ce_notif env) (note_stmts w) \<notin> note_id ` set (note_rows w)"

text \<open>What the worker relies on in a publisher of events: it understands every well-formed event. The rest of what
  a delivery does follows for every such publisher.\<close>

locale event_contract =
  fixes content :: "'e \<Rightarrow> string" and well_formed :: "'e \<Rightarrow> bool" and view :: "'e \<Rightarrow> order_created_event"
  assumes understood: "well_formed e \<Longrightarrow> parseOrderCreated (content e) = Inr (view e)"
begin

lemma first_delivery:
  assumes "well_formed e" "msg_content msg = content e" "note_db_up env w" "\<not> recorded (view e) (note_rows w)"
  shows "\<exists>r. row_of (view e) r \<and> note_rows (snd (handleMessage env msg w)) = note_rows w @ [r]"
proof -
  have p: "parseOrderCreated (msg_content msg) = Inr (view e)" using understood [OF assms(1)] assms(2) by simp
  with parseOrderCreated_wf [OF p] assms(3,4) have "\<exists>r. row_of (view e) r \<and> note_rows (processed_world env msg w) = note_rows w @ [r]"
    by (auto simp: processed_world_def notifications_record_def note_query_def insert_notification_def pg_uuid_def event_wf_def
        note_db_up_def recorded_def row_of_def obs_defs io_defs Let_def split: option.split)
  then show ?thesis by (simp only: handleMessage_rows)
qed

lemma redelivery_is_ignored:
  assumes "well_formed e" "msg_content msg = content e" "recorded (view e) (note_rows w)"
  shows "note_rows (snd (handleMessage env msg w)) = note_rows w"
proof -
  have "parseOrderCreated (msg_content msg) = Inr (view e)" using understood [OF assms(1)] assms(2) by simp
  with processed_rows [of env msg w] assms(3) have "note_rows (processed_world env msg w) = note_rows w" by auto
  then show ?thesis by (simp only: handleMessage_rows)
qed

end

lemma event_json_ok: "json_ok (event_json ev)"
  by (simp add: event_json_def)

interpretation order_events: event_contract "\<lambda>ev. pm_content (event_message engine rk ev)" event_ids_ok received_event
  for engine rk
proof (unfold_locales, goal_cases)
  case (1 ev)
  with json_parse_string [OF event_json_ok [of ev]] show ?case
    by (simp add: parseOrderCreated_def event_message_def event_json_def received_event_def event_ids_ok_def)
qed

text \<open>What a create that stored an order published.\<close>

lemma create_published:
  assumes "orders_create env dto key c a w = (Inr (saved, True), w')"
  shows "publishes w' = publishes w @ [(''order.created'', created_event env saved c (length (publishes w)))]"
proof -
  from create_refines [of env dto c a w key] assms
  obtain known evs where "create_spec known (range (db_uuid (oe_db env))) dto key (tables w) (Inr (saved, True)) (tables w') evs"
    "publishes w' = publishes w @ announcements env c (length (publishes w)) evs"
    by (auto simp: create_outcome_def)
  then show ?thesis by (auto simp: announcements_def elim!: create_specE)
qed

section \<open>User-service behind the lookup\<close>

text \<open>The network that delivers a lookup to user-service: the authorization header is forwarded, the id is what
  follows the prefix of the URL, and the answer is the status.\<close>

definition forwarded_request :: "fetch_request \<Rightarrow> auth_request" where
  "forwarded_request r =
     \<lparr>req_id = None, x_request_id = map_of (fetch_headers r) ''x-request-id'', authorization = map_of (fetch_headers r) ''authorization'',
      req_method = ''GET'', req_route = ''/v1/users/:id''\<rparr>"

definition user_service_net ::
  "(string \<Rightarrow> thrown + principal) \<Rightarrow> user_env \<Rightarrow> (string \<Rightarrow> thrown + string) \<Rightarrow> directory_config \<Rightarrow> 'z user_world_scheme \<Rightarrow> fetch_env" where
  "user_service_net verifier env pipe cfg uw reqs =
     (let r = last reqs; raw = drop (length (USER_SERVICE_URL cfg @ ''/v1/users/'')) (fetch_url r)
      in map_sum id fst (fst (GET_user verifier env pipe (forwarded_request r) raw uw)))"

lemma lookup_forwarded:
  "map_of (fetch_headers (lookup_request cfg userId rid auth)) ''authorization'' = (if auth = Some [] then None else auth)"
  "drop (length (USER_SERVICE_URL cfg @ ''/v1/users/'')) (fetch_url (lookup_request cfg userId rid auth)) = userId"
  by (auto simp: lookup_request_def split: option.split)

text \<open>The status user-service answers to a caller who may ask.\<close>

lemma GET_user_status:
  assumes "pipe i = Inr i" "uuid_test i" "ue_fail env (user_stmts w) = None"
    and "guard_accepts verifier (Some [''customer'', ''admin'']) req p" "isAdmin p \<or> sub p = toLowerCase i"
  shows "map_sum id fst (fst (GET_user verifier env pipe req i w)) =
    Inr (if toLowerCase i \<in> user_id ` set (users_tbl w) then 200 else 404)"
proof -
  have only: "q = p" if "guard_accepts verifier (Some [''customer'', ''admin'']) req q" for q
    using that assms(4) by (auto simp: guard_accepts_def)
  obtain st b where st: "fst (GET_user verifier env pipe req i w) = Inr (st, b)" "GET_status verifier req i (users_tbl w) st"
    using GET_user_answers [where pipe = pipe and raw = i, OF assms(1-3)] by blast
  from st(2) assms(4) obtain q where q: "guard_accepts verifier (Some [''customer'', ''admin'']) req q"
      "st = (if isAdmin q \<or> sub q = toLowerCase i then (if toLowerCase i \<in> user_id ` set (users_tbl w) then 200 else 404) else 403)"
    unfolding GET_status_def by blast
  from q(2) assms(5) have "st = (if toLowerCase i \<in> user_id ` set (users_tbl w) then 200 else 404)"
    unfolding only [OF q(1)] by simp
  with st(1) show ?thesis by simp
qed

end
