(* ===== verification/Whole_System.thy ===== *)
theory Whole_System
  imports Orders_Concurrency Worker_Machine Composition
begin

text \<open>
  Order-service, its publisher, the broker and notification-worker as one system. The requests of order-service
  (\<open>Orders_Concurrency\<close>), the connection of the publisher (\<open>Event_Publisher\<close>) and the worker (\<open>Worker_Machine\<close>) take
  their steps in any order. They meet in two places: a request whose transaction has committed calls \<open>publish\<close>
  in the same step, and the broker delivers only what the publisher has sent to it, at any later time and any
  number of times.
\<close>

section \<open>The system\<close>

text \<open>The three machines and the events handed to the publisher so far.\<close>

record system =
  sy_orders :: "order_tables sys"
  sy_pub :: publisher
  sy_events :: "domain_event list"
  sy_worker :: worker

definition system_start :: "order_tables \<Rightarrow> notification list \<Rightarrow> system" where
  "system_start t rows =
     \<lparr>sy_orders = sys_init t, sy_pub = new_publisher, sy_events = [], sy_worker = new_worker rows\<rparr>"

text \<open>The step in which request \<open>n\<close> learns that its transaction has committed, with the order it saved: the source goes on
  with \<open>publishCreated\<close> without waiting for anything else.\<close>

definition commits :: "order_tables sys \<Rightarrow> order_tables sys \<Rightarrow> nat \<Rightarrow> order_row \<Rightarrow> bool" where
  "commits \<sigma> \<sigma>' n saved \<longleftrightarrow>
     n < length (sys_threads \<sigma>) \<and> th_pc (sys_threads \<sigma> ! n) = AtTx \<and> th_pc (sys_threads \<sigma>' ! n) = AtPublish saved"

definition event_content :: "(string \<Rightarrow> jsnum) \<Rightarrow> domain_event \<Rightarrow> string" where
  "event_content engine ev = pm_content (event_message engine ''order.created'' ev)"

text \<open>What the broker can deliver: a message with the content of one that was sent.\<close>

fun deliverable :: "publisher \<Rightarrow> wk_event \<Rightarrow> bool" where
  "deliverable p (Broker (Deliver ch msg)) = (\<exists>m\<in>set (map snd (pb_sent p)). msg_content msg = pm_content m)"
| "deliverable p _ = True"

fun is_call :: "pub_event \<Rightarrow> bool" where
  "is_call (PublishCall rk ev) = True"
| "is_call _ = False"

inductive system_reach ::
  "order_env \<Rightarrow> (string \<Rightarrow> jsnum) \<Rightarrow> worker_cfg \<Rightarrow> order_tables \<Rightarrow> notification list \<Rightarrow> system \<Rightarrow> bool"
  for oenv engine cfg t rows where
  start: "system_reach oenv engine cfg t rows (system_start t rows)"
| request: "system_reach oenv engine cfg t rows s \<Longrightarrow> orders_step (sy_orders s) \<sigma>' \<Longrightarrow>
    (\<And>n saved. \<not> commits (sy_orders s) \<sigma>' n saved) \<Longrightarrow>
    system_reach oenv engine cfg t rows (s\<lparr>sy_orders := \<sigma>'\<rparr>)"
| created: "system_reach oenv engine cfg t rows s \<Longrightarrow> orders_step (sy_orders s) \<sigma>' \<Longrightarrow>
    commits (sy_orders s) \<sigma>' n saved \<Longrightarrow> ev = created_event oenv saved c (length (sy_events s)) \<Longrightarrow>
    system_reach oenv engine cfg t rows
      (s\<lparr>sy_orders := \<sigma>', sy_pub := publisher_publish engine ''order.created'' ev (sy_pub s), sy_events := sy_events s @ [ev]\<rparr>)"
| publisher: "system_reach oenv engine cfg t rows s \<Longrightarrow> \<not> is_call x \<Longrightarrow> pub_step engine x (sy_pub s) = Some p' \<Longrightarrow>
    system_reach oenv engine cfg t rows (s\<lparr>sy_pub := p'\<rparr>)"
| worker: "system_reach oenv engine cfg t rows s \<Longrightarrow> deliverable (sy_pub s) e \<Longrightarrow> wk_step cfg e (sy_worker s) = Some w' \<Longrightarrow>
    system_reach oenv engine cfg t rows (s\<lparr>sy_worker := w'\<rparr>)"

section \<open>The parts\<close>

text \<open>The machines of the system run as they do alone.\<close>

lemma system_worker: "system_reach oenv engine cfg t rows s \<Longrightarrow> wk_reach cfg rows (sy_worker s)"
  by (induction rule: system_reach.induct) (auto simp: system_start_def intro: wk_reach.intros)

lemma system_publisher: "system_reach oenv engine cfg t rows s \<Longrightarrow> pub_reachable engine (sy_pub s)"
proof (induction rule: system_reach.induct)
  case (created s \<sigma>' n saved ev c)
  then show ?case by (auto intro: pub_reachable.step [of engine _ "PublishCall ''order.created'' ev"])
qed (auto simp: system_start_def intro: pub_reachable.intros)

lemma system_orders: "system_reach oenv engine cfg t rows s \<Longrightarrow> orders_reachable t (sy_orders s)"
  by (induction rule: system_reach.induct)
    (auto simp: system_start_def orders_reachable_def intro: rtranclp.rtrancl_into_rtrancl)

section \<open>Orders and events\<close>

text \<open>What a committed request leaves in the table: one more row, for the order it saved.\<close>

lemma step_keeps_orders:
  assumes "orders_step \<sigma> \<sigma>'"
  shows "set (orders_tbl (sys_store \<sigma>)) \<subseteq> set (orders_tbl (sys_store \<sigma>'))"
  using assms unfolding orders_step_def
proof cases
  case (resumes n th call ans s' evs)
  from resumes(5) have "set (orders_tbl (sys_store \<sigma>)) \<subseteq> set (orders_tbl s')"
    by (auto elim!: answersE dest!: order_tx_effect simp: tx_effect_def)
  with resumes(1) show ?thesis by simp
qed auto

lemma step_commits:
  assumes "orders_step \<sigma> \<sigma>'" "commits \<sigma> \<sigma>' n saved"
  shows "\<exists>row. orders_tbl (sys_store \<sigma>') = orders_tbl (sys_store \<sigma>) @ [row] \<and> ord_id row = ord_id saved
    \<and> ord_userId row = toLowerCase (ord_userId saved) \<and> uuid_test (ord_userId saved) \<and> canonical_uuid (ord_id saved)
    \<and> ord_id saved \<notin> ord_id ` set (orders_tbl (sys_store \<sigma>))"
  using assms(1) unfolding orders_step_def
proof cases
  case (arrives dto key)
  with assms(2) show ?thesis by (auto simp: commits_def nth_append)
next
  case (resumes m th call ans s' evs)
  with assms(2) have "m = n" by (cases "m = n") (auto simp: commits_def nth_list_update)
  with resumes assms(2) have th: "th_pc th = AtTx" "resume (th_dto th) (th_key th) AtTx ans = AtPublish saved"
    by (auto simp: commits_def)
  then have "call = AskTx" using resumes(4) by simp
  moreover have "ans = Committed saved" using th(2) by (cases ans) (auto split: if_splits)
  ultimately obtain i now where tx: "canonical_uuid i" "order_tx i now (th_dto th) (th_key th) (sys_store \<sigma>) = Inr (saved, s')"
    using resumes(5) by (auto elim!: answers_txE)
  from order_tx_effect [OF tx(2)] tx(1) resumes(1) show ?thesis by (auto simp: tx_effect_def)
qed

text \<open>The events are those of stored orders, one for each, numbered in the order they were handed over.\<close>

definition announces :: "order_env \<Rightarrow> order_tables \<Rightarrow> nat \<Rightarrow> domain_event \<Rightarrow> bool" where
  "announces oenv t k ev \<longleftrightarrow>
     (\<exists>saved c. ev = created_event oenv saved c k \<and> uuid_test (ord_userId saved) \<and> canonical_uuid (ord_id saved)
        \<and> (\<exists>row\<in>set (orders_tbl t). ord_id row = ord_id saved \<and> ord_userId row = toLowerCase (ord_userId saved)))"

definition events_ok :: "order_env \<Rightarrow> system \<Rightarrow> bool" where
  "events_ok oenv s \<longleftrightarrow>
     (\<forall>k<length (sy_events s). announces oenv (sys_store (sy_orders s)) k (sy_events s ! k))
     \<and> distinct (map (\<lambda>ev. data_orderId (event_data ev)) (sy_events s))"

lemma announces_mono: "announces oenv t k ev \<Longrightarrow> set (orders_tbl t) \<subseteq> set (orders_tbl t') \<Longrightarrow> announces oenv t' k ev"
  unfolding announces_def by blast

lemma announced_order: "announces oenv t k ev \<Longrightarrow> data_orderId (event_data ev) \<in> ord_id ` set (orders_tbl t)"
proof -
  assume "announces oenv t k ev"
  then obtain saved c row where "ev = created_event oenv saved c k" "row \<in> set (orders_tbl t)" "ord_id row = ord_id saved"
    unfolding announces_def by blast
  then show ?thesis by (intro image_eqI [of _ _ row]) (simp_all add: created_event_def)
qed

lemma created_events_ok:
  assumes "events_ok oenv s" "orders_step (sy_orders s) \<sigma>'" "commits (sy_orders s) \<sigma>' n saved"
  shows "events_ok oenv (s\<lparr>sy_orders := \<sigma>', sy_pub := p, sy_events := sy_events s @ [created_event oenv saved c (length (sy_events s))]\<rparr>)"
proof -
  let ?new = "created_event oenv saved c (length (sy_events s))"
  note row = step_commits [OF assms(2,3)]
  have "announces oenv (sys_store \<sigma>') (length (sy_events s)) ?new" using row unfolding announces_def by fastforce
  moreover have "announces oenv (sys_store \<sigma>') k (sy_events s ! k)" if "k < length (sy_events s)" for k
    using assms(1) that announces_mono step_keeps_orders [OF assms(2)] unfolding events_ok_def by blast
  moreover have "data_orderId (event_data ?new) \<notin> (\<lambda>ev. data_orderId (event_data ev)) ` set (sy_events s)"
  proof
    assume "data_orderId (event_data ?new) \<in> (\<lambda>ev. data_orderId (event_data ev)) ` set (sy_events s)"
    then obtain k where "k < length (sy_events s)" "data_orderId (event_data (sy_events s ! k)) = ord_id saved"
      by (auto simp: created_event_def in_set_conv_nth)
    with assms(1) announced_order have "ord_id saved \<in> ord_id ` set (orders_tbl (sys_store (sy_orders s)))"
      unfolding events_ok_def by metis
    with row show False by blast
  qed
  ultimately show ?thesis using assms(1) by (auto simp: events_ok_def nth_append less_Suc_eq)
qed

lemma system_events: "system_reach oenv engine cfg t rows s \<Longrightarrow> events_ok oenv s"
proof (induction rule: system_reach.induct)
  case (request s \<sigma>')
  then show ?case using announces_mono step_keeps_orders by (fastforce simp: events_ok_def)
next
  case (created s \<sigma>' n saved ev c)
  then show ?case using created_events_ok by blast
qed (simp_all add: events_ok_def system_start_def)

section \<open>Messages\<close>

lemma publish_calls: "map fst (pb_calls (publisher_publish engine rk ev w)) = map fst (pb_calls w) @ [event_message engine rk ev]"
  by (auto simp: publisher_publish_def getChannel_def Let_def split: option.split)

lemma answer_waiting_calls [simp]: "map fst (answer_waiting st cs) = map fst cs"
  by (simp add: answer_waiting_def)

lemma settle_same: "i < length cs \<Longrightarrow> map fst (cs[i := (fst (cs ! i), st)]) = map fst cs"
  by (simp add: map_update) (metis list_update_id nth_map)

lemma pub_step_calls:
  assumes "pub_step engine x w = Some w'" "\<not> is_call x"
  shows "map fst (pb_calls w') = map fst (pb_calls w)"
  using assms
  by (cases x)
    (auto simp: open_connected_def open_failed_def open_channel_def open_abandoned_def reject_waiting_def resolve_waiting_def
       settle_call_def on_conn_close_def on_chan_close_def pub_log_def publisher_onModuleDestroy_def destroy_settled_def settle_same confirming_def Let_def
     split: if_splits option.splits open_phase.splits)

lemma system_calls:
  "system_reach oenv engine cfg t rows s \<Longrightarrow> map fst (pb_calls (sy_pub s)) = map (event_message engine ''order.created'') (sy_events s)"
  by (induction rule: system_reach.induct) (simp_all add: system_start_def new_publisher_def publish_calls pub_step_calls)

text \<open>Whatever was sent is the message of an event.\<close>

lemma system_sent:
  assumes "system_reach oenv engine cfg t rows s" "m \<in> set (map snd (pb_sent (sy_pub s)))"
  shows "\<exists>ev\<in>set (sy_events s). pm_content m = event_content engine ev"
proof -
  have "set_mset (mset (map snd (pb_sent (sy_pub s)))) = set_mset (sent_msgs (pb_calls (sy_pub s)))"
    using pub_inv_reachable [OF system_publisher [OF assms(1)]] by (simp add: pub_inv_def sent_once_def)
  with assms(2) have "m \<in> set (map fst (pb_calls (sy_pub s)))" by (auto simp: sent_msgs_def)
  with system_calls [OF assms(1)] show ?thesis by (auto simp: event_content_def)
qed

lemma wk_step_received:
  assumes "wk_step cfg e w = Some w'"
  shows "received w' = received w \<or> (\<exists>ch msg. e = Broker (Deliver ch msg) \<and> received w' = received w @ [msg])"
proof (cases e)
  case (Loop x)
  with assms loop_handlers [of cfg x w w'] show ?thesis by (simp add: handler_part_def)
next
  case (Shutdown x)
  with assms destroy_handlers [of x w w'] show ?thesis by (simp add: handler_part_def)
next
  case (Handler i x)
  with assms job_step_received show ?thesis by simp
next
  case (Broker x)
  with assms have "broker_step cfg x w = Some w'" by simp
  then show ?thesis
  proof (cases rule: broker_step_cases)
    case (deliver ch msg)
    then show ?thesis using Broker start_job_received [of cfg ch msg w] by simp
  qed (simp_all add: end_consumer_def)
qed

text \<open>Whatever was delivered is the message of an event.\<close>

lemma system_received:
  "system_reach oenv engine cfg t rows s \<Longrightarrow> m \<in> set (received (sy_worker s)) \<Longrightarrow>
     \<exists>ev\<in>set (sy_events s). msg_content m = event_content engine ev"
proof (induction arbitrary: m rule: system_reach.induct)
  case (worker s e w')
  from wk_step_received [OF worker(3)] consider "m \<in> set (received (sy_worker s))" | ch where "e = Broker (Deliver ch m)"
    using worker(5) by (auto simp del: set_map list.set_map)
  then show ?case
  proof cases
    case 1
    then show ?thesis using worker(4) by simp
  next
    case 2
    with worker(2) obtain pm where "pm \<in> set (map snd (pb_sent (sy_pub s)))" "msg_content m = pm_content pm"
      by (auto simp del: set_map)
    with system_sent [OF worker(1)] show ?thesis by simp
  qed
qed (auto simp: system_start_def new_worker_def)

section \<open>Notifications and orders\<close>

text \<open>What the worker makes of the event with number \<open>k\<close>, if the generated ids are UUIDs.\<close>

lemma event_understood:
  assumes "announces oenv t k ev" "uuid_test (oe_randomUUID oenv k)"
  shows "parseOrderCreated (event_content engine ev) = Inr (received_event ev)"
    "eventId ev = oe_randomUUID oenv k" "toLowerCase (data_orderId (event_data ev)) = data_orderId (event_data ev)"
proof -
  have "event_ids_ok ev" using assms by (auto simp: announces_def event_ids_ok_def created_event_def canonical_uuid_def)
  from order_events.understood [OF this] show "parseOrderCreated (event_content engine ev) = Inr (received_event ev)"
    by (simp add: event_content_def)
qed (use assms in \<open>auto simp: announces_def created_event_def canonical_uuid_def\<close>)

definition notified :: "system \<Rightarrow> nat \<Rightarrow> notification \<Rightarrow> bool" where
  "notified s k x \<longleftrightarrow> k < length (sy_events s) \<and> row_of (received_event (sy_events s ! k)) x"

lemma new_rows_notified:
  assumes "system_reach oenv engine cfg t rows s" "notes_ok rows" "\<And>k. uuid_test (oe_randomUUID oenv k)"
  obtains new where "note_rows (sy_worker s) = rows @ new" "notes_ok (rows @ new)" "\<And>x. x \<in> set new \<Longrightarrow> \<exists>k. notified s k x"
proof -
  from reach_rows_ok [OF system_worker [OF assms(1)] assms(2)] obtain new where new: "note_rows (sy_worker s) = rows @ new"
    "notes_ok (note_rows (sy_worker s))"
    and src: "\<And>x. x \<in> set new \<Longrightarrow> \<exists>m\<in>set (received (sy_worker s)). \<exists>oc. parseOrderCreated (msg_content m) = Inr oc \<and> row_of oc x"
    unfolding rows_ok_def by blast
  have "\<exists>k. notified s k x" if x: "x \<in> set new" for x
  proof -
    obtain m oc where m: "m \<in> set (received (sy_worker s))" "parseOrderCreated (msg_content m) = Inr oc" "row_of oc x"
      using src [OF x] by blast
    obtain k where k: "k < length (sy_events s)" "msg_content m = event_content engine (sy_events s ! k)"
      using system_received [OF assms(1) m(1)] by (auto simp: in_set_conv_nth)
    have "announces oenv (sys_store (sy_orders s)) k (sy_events s ! k)"
      using system_events [OF assms(1)] k(1) by (simp add: events_ok_def)
    from event_understood(1) [OF this assms(3), of engine] m(2,3) k show ?thesis by (auto simp: notified_def)
  qed
  with new that show thesis by simp
qed

lemma notified_order:
  assumes "events_ok oenv s" "notified s k x" "uuid_test (oe_randomUUID oenv k)"
  shows "note_orderId x = data_orderId (event_data (sy_events s ! k))"
    "\<exists>ord\<in>set (orders_tbl (sys_store (sy_orders s))). note_orderId x = ord_id ord \<and> note_userId x = ord_userId ord"
proof -
  have ann: "announces oenv (sys_store (sy_orders s)) k (sy_events s ! k)"
    using assms(1,2) by (simp add: events_ok_def notified_def)
  show id: "note_orderId x = data_orderId (event_data (sy_events s ! k))"
    using event_understood(3) [OF ann assms(3)] assms(2) by (simp add: notified_def row_of_def received_event_def)
  from ann obtain saved c ord where "sy_events s ! k = created_event oenv saved c k"
    "ord \<in> set (orders_tbl (sys_store (sy_orders s)))" "ord_id ord = ord_id saved" "ord_userId ord = toLowerCase (ord_userId saved)"
    unfolding announces_def by blast
  with id assms(2) have "note_orderId x = ord_id ord \<and> note_userId x = ord_userId ord"
    by (simp add: notified_def row_of_def received_event_def created_event_def)
  with \<open>ord \<in> _\<close> show "\<exists>ord\<in>set (orders_tbl (sys_store (sy_orders s))). note_orderId x = ord_id ord \<and> note_userId x = ord_userId ord"
    by blast
qed

text \<open>Two notifications of the same order are the same: the order has one event, the event one row.\<close>

lemma one_notification_per_order:
  assumes "events_ok oenv s" "\<And>k. uuid_test (oe_randomUUID oenv k)" "inj_on note_eventId (set new)"
    and "\<And>x. x \<in> set new \<Longrightarrow> \<exists>k. notified s k x"
  shows "inj_on note_orderId (set new)"
proof (rule inj_onI)
  fix x y
  assume xy: "x \<in> set new" "y \<in> set new" "note_orderId x = note_orderId y"
  then obtain k j where n: "notified s k x" "notified s j y" using assms(4) by blast
  then have "k < length (sy_events s)" "j < length (sy_events s)" by (simp_all add: notified_def)
  moreover have "data_orderId (event_data (sy_events s ! k)) = data_orderId (event_data (sy_events s ! j))"
    using notified_order(1) [OF assms(1) n(1) assms(2)] notified_order(1) [OF assms(1) n(2) assms(2)] xy(3) by simp
  ultimately have "k = j" using assms(1) unfolding events_ok_def by (simp add: distinct_conv_nth) metis
  with n have "note_eventId x = note_eventId y" by (simp add: notified_def row_of_def)
  with assms(3) xy show "x = y" by (simp add: inj_on_eq_iff)
qed

text \<open>C1: every notification belongs to an order, and no order has two. However requests, outages of the broker
  and the databases, reconnects, redeliveries and handlers interleave, in every state of the system the
  notifications the worker has stored since it started are for orders that are in order-service's table, with the user
  of the order, and at most one for each order.\<close>

theorem notifications_match_orders:
  assumes "system_reach oenv engine cfg t rows s" "notes_ok rows" "\<And>k. uuid_test (oe_randomUUID oenv k)"
  shows "\<exists>new. note_rows (sy_worker s) = rows @ new \<and> distinct (map note_orderId new)
    \<and> (\<forall>x\<in>set new. \<exists>ord\<in>set (orders_tbl (sys_store (sy_orders s))). note_orderId x = ord_id ord \<and> note_userId x = ord_userId ord)"
proof -
  obtain new where new: "note_rows (sy_worker s) = rows @ new" "notes_ok (rows @ new)"
    and src: "\<And>x. x \<in> set new \<Longrightarrow> \<exists>k. notified s k x" by (rule new_rows_notified [OF assms]) blast
  have ev: "events_ok oenv s" by (rule system_events [OF assms(1)])
  have "distinct new" "inj_on note_eventId (set new)" using new(2) by (auto simp: notes_ok_def distinct_map inj_on_Un)
  then have "distinct (map note_orderId new)"
    using one_notification_per_order [OF ev assms(3) _ src] by (simp add: distinct_map)
  with new(1) src notified_order(2) [OF ev _ assms(3)] show ?thesis by blast
qed

section \<open>Acknowledged messages\<close>

lemma acked_safe:
  assumes "wk_reach cfg rows w" "(i, Ack m) \<in> set (wk_ops w)"
  shows "i < length (wk_jobs w) \<and> m = job_msg (wk_jobs w ! i) \<and> safe w i"
proof -
  have ok: "handlers_ok w" by (rule reach_handlers_ok [OF assms(1)])
  with assms(2) have i: "i < length (wk_jobs w)" by (auto simp: handlers_ok_def)
  have "Ack m \<in> set (settles w i)" using assms(2) by (force simp: settles_def is_settlement_def)
  moreover have "job_ok w i" using ok i by (simp add: handlers_ok_def)
  ultimately have "settles w i = [Ack (job_msg (wk_jobs w ! i))] \<and> m = job_msg (wk_jobs w ! i) \<and> safe w i"
    by (cases "(job_msg (wk_jobs w ! i), job_phase (wk_jobs w ! i))" rule: settlements.cases) (auto simp: job_ok_def Let_def)
  with i show ?thesis by blast
qed

text \<open>C2: an order is not lost by being acknowledged. When the worker has acknowledged a message, the message is the
  event of an order in order-service's table, and the notification of that order is stored, with its user, or the broker has
  confirmed a copy of the message in the dead letter queue. The ids \<open>randomUUID\<close> gives are taken to differ from each
  other and from those of earlier runs.\<close>

theorem acknowledged_orders_are_kept:
  assumes "system_reach oenv engine cfg t rows s" "notes_ok rows" "\<And>k. uuid_test (oe_randomUUID oenv k)"
    and "inj_on (\<lambda>k. toLowerCase (oe_randomUUID oenv k)) {..<length (sy_events s)}"
    and "\<And>k. toLowerCase (oe_randomUUID oenv k) \<notin> note_eventId ` set rows"
    and "(i, Ack m) \<in> set (wk_ops (sy_worker s))"
  shows "\<exists>ev\<in>set (sy_events s). msg_content m = event_content engine ev
    \<and> data_orderId (event_data ev) \<in> ord_id ` set (orders_tbl (sys_store (sy_orders s)))
    \<and> ((\<exists>x\<in>set (note_rows (sy_worker s)). note_orderId x = data_orderId (event_data ev)
          \<and> note_userId x = toLowerCase (data_userId (event_data ev)))
       \<or> i \<in> set (wk_confirmed (sy_worker s)) \<and> copied (sy_worker s) i)"
proof -
  let ?w = "sy_worker s"
  have ack: "i < length (wk_jobs ?w)" "m = job_msg (wk_jobs ?w ! i)" "safe ?w i"
    using acked_safe [OF system_worker [OF assms(1)] assms(6)] by auto
  then have "m \<in> set (received ?w)" by simp
  then obtain k where k: "k < length (sy_events s)" "msg_content m = event_content engine (sy_events s ! k)"
    using system_received [OF assms(1)] by (metis in_set_conv_nth)
  have ev: "events_ok oenv s" by (rule system_events [OF assms(1)])
  then have ann: "announces oenv (sys_store (sy_orders s)) j (sy_events s ! j)" if "j < length (sy_events s)" for j
    using that by (simp add: events_ok_def)
  note understood = event_understood [OF ann [OF k(1)] assms(3)]
  have "\<exists>x\<in>set (note_rows ?w). note_orderId x = data_orderId (event_data (sy_events s ! k))
      \<and> note_userId x = toLowerCase (data_userId (event_data (sy_events s ! k)))" if "stored (msg_content m) ?w"
  proof -
    from that k(2) understood(1) obtain x where x: "x \<in> set (note_rows ?w)" "note_eventId x = toLowerCase (oe_randomUUID oenv k)"
      using understood(2) by (auto simp: stored_def recorded_def received_event_def)
    obtain new where "note_rows ?w = rows @ new" "\<And>x. x \<in> set new \<Longrightarrow> \<exists>j. notified s j x"
      by (rule new_rows_notified [OF assms(1-3)]) blast
    moreover from this x assms(5) [of k] have "x \<in> set new" by (auto simp: image_iff)
    ultimately obtain j where j: "notified s j x" by blast
    then have "j < length (sy_events s)" "toLowerCase (oe_randomUUID oenv j) = toLowerCase (oe_randomUUID oenv k)"
      using event_understood(2) [OF ann assms(3), of j] x(2) by (auto simp: notified_def row_of_def received_event_def)
    with assms(4) k(1) have "j = k" by (auto simp: inj_on_def)
    with j x(1) notified_order(1) [OF ev j assms(3)] show ?thesis
      by (auto simp: notified_def row_of_def received_event_def)
  qed
  moreover have "stored (msg_content m) ?w \<or> i \<in> set (wk_confirmed ?w) \<and> copied ?w i" using ack(2,3) by (simp add: safe_def)
  ultimately show ?thesis using k announced_order [OF ann [OF k(1)]] by (meson nth_mem)
qed

section \<open>A run\<close>

lemma system_run_worker:
  "system_reach oenv engine cfg t rows s \<Longrightarrow> list_all (deliverable (sy_pub s)) es \<Longrightarrow> wk_run cfg es (sy_worker s) = Some w' \<Longrightarrow>
     system_reach oenv engine cfg t rows (s\<lparr>sy_worker := w'\<rparr>)"
proof (induction es arbitrary: s)
  case (Cons e es)
  from Cons.prems obtain w1 where w1: "wk_step cfg e (sy_worker s) = Some w1" "wk_run cfg es w1 = Some w'"
    by (auto split: option.splits)
  have "system_reach oenv engine cfg t rows (s\<lparr>sy_worker := w1\<rparr>)"
    using Cons.prems(1,2) w1(1) by (auto intro: system_reach.worker)
  from Cons.IH [OF this] Cons.prems(2) w1(2) show ?case by simp
next
  case (Nil s)
  then have "s\<lparr>sy_worker := w'\<rparr> = s" by simp
  with Nil(1) show ?case by simp
qed

lemma system_run_publisher:
  "system_reach oenv engine cfg t rows s \<Longrightarrow> list_all (\<lambda>x. \<not> is_call x) xs \<Longrightarrow> pub_run engine xs (sy_pub s) = Some p' \<Longrightarrow>
     system_reach oenv engine cfg t rows (s\<lparr>sy_pub := p'\<rparr>)"
proof (induction xs arbitrary: s)
  case (Cons x xs)
  from Cons.prems obtain p1 where p1: "pub_step engine x (sy_pub s) = Some p1" "pub_run engine xs p1 = Some p'"
    by (auto split: option.splits)
  have "system_reach oenv engine cfg t rows (s\<lparr>sy_pub := p1\<rparr>)"
    using Cons.prems(1,2) p1(1) by (auto intro: system_reach.publisher)
  from Cons.IH [OF this] Cons.prems(2) p1(2) show ?case by simp
next
  case (Nil s)
  then have "s\<lparr>sy_pub := p'\<rparr> = s" by simp
  with Nil(1) show ?case by simp
qed

text \<open>One request, from its arrival to the acknowledged message.\<close>

definition demo_threads :: "pc \<Rightarrow> order_tables \<Rightarrow> order_tables sys" where
  "demo_threads p store =
     \<lparr>sys_store = store, sys_threads = [\<lparr>th_dto = demo_dto, th_key = None, th_pc = p\<rparr>], sys_announced = []\<rparr>"

definition demo_stored :: order_tables where
  "demo_stored = \<lparr>orders_tbl = [demo_order], keys_tbl = []\<rparr>"

lemma demo_tx_plain: "order_tx demo_order_id ''2024-01-01 00:00:00'' demo_dto None no_orders = Inr (demo_order, demo_stored)"
  by code_simp

lemma demo_request:
  "orders_step (sys_init no_orders) (demo_threads AtUser no_orders)"
  "orders_step (demo_threads AtUser no_orders) (demo_threads AtTx no_orders)"
  "orders_step (demo_threads AtTx no_orders) (demo_threads (AtPublish demo_order) demo_stored)"
proof -
  show "orders_step (sys_init no_orders) (demo_threads AtUser no_orders)"
    using sys_step.arrives [of find_key find_order order_tx "sys_init no_orders" demo_dto None]
    by (simp add: orders_step_def sys_init_def start_def keyed_def demo_threads_def)
  show "orders_step (demo_threads AtUser no_orders) (demo_threads AtTx no_orders)"
    using sys_step.resumes [of 0 "demo_threads AtUser no_orders" _ AskUser find_key find_order order_tx "UserKnown True" no_orders "[]"]
      answers.user_known [of find_key find_order order_tx demo_dto None no_orders True]
    by (simp add: orders_step_def demo_threads_def)
  show "orders_step (demo_threads AtTx no_orders) (demo_threads (AtPublish demo_order) demo_stored)"
    using sys_step.resumes [of 0 "demo_threads AtTx no_orders" _ AskTx find_key find_order order_tx "Committed demo_order" demo_stored "[]"]
      answers.committed [where tx = order_tx and findKey = find_key and findOrder = find_order, OF canonical_demo(1) demo_tx_plain]
    by (simp add: orders_step_def demo_threads_def)
qed

definition demo_created :: domain_event where
  "demo_created = created_event demo_env demo_order ''r1'' 0"

definition demo_delivery :: message where
  "demo_delivery = \<lparr>msg_content = event_content no_engine demo_created, msg_contentType = Some ''application/json'',
     msg_messageId = None, msg_correlationId = None, msg_headers = []\<rparr>"

lemma demo_published:
  obtains p where "system_reach demo_env no_engine demo_cfg no_orders []
      \<lparr>sy_orders = demo_threads (AtPublish demo_order) demo_stored, sy_pub = p, sy_events = [demo_created], sy_worker = new_worker []\<rparr>"
    "pb_sent p = [(0, event_message no_engine ''order.created'' demo_created)]"
proof -
  let ?S = "\<lambda>\<sigma> p evs. \<lparr>sy_orders = \<sigma>, sy_pub = p, sy_events = evs, sy_worker = new_worker []\<rparr>"
  let ?R = "system_reach demo_env no_engine demo_cfg no_orders []"
  have quiet: "\<not> commits (sys_init no_orders) \<sigma> n saved" "\<not> commits (demo_threads AtUser no_orders) \<sigma> n saved" for \<sigma> n saved
    by (auto simp: commits_def sys_init_def demo_threads_def less_Suc_eq)
  have "?R (?S (sys_init no_orders) new_publisher [])"
    using system_reach.start [of demo_env no_engine demo_cfg no_orders "[]"] by (simp add: system_start_def)
  from system_reach.request [OF this, simplified, OF demo_request(1) quiet(1)]
  have "?R (?S (demo_threads AtUser no_orders) new_publisher [])" .
  from system_reach.request [OF this, simplified, OF demo_request(2) quiet(2)]
  have "?R (?S (demo_threads AtTx no_orders) new_publisher [])" .
  moreover have "commits (demo_threads AtTx no_orders) (demo_threads (AtPublish demo_order) demo_stored) 0 demo_order"
    by (simp add: commits_def demo_threads_def)
  ultimately have "?R (?S (demo_threads (AtPublish demo_order) demo_stored)
      (publisher_publish no_engine ''order.created'' demo_created new_publisher) [demo_created])"
    using system_reach.created [where ev = demo_created and c = "''r1''", OF _ _ _] demo_request(3)
    by (fastforce simp: demo_created_def)
  moreover obtain p where p: "pub_run no_engine [Connected, ChannelCreated]
      (publisher_publish no_engine ''order.created'' demo_created new_publisher) = Some p"
    "pb_sent p = [(0, event_message no_engine ''order.created'' demo_created)]"
    by (simp add: pub_run_simps)
  ultimately have "?R (?S (demo_threads (AtPublish demo_order) demo_stored) p [demo_created])"
    using system_run_publisher [where xs = "[Connected, ChannelCreated]" and p' = p] by fastforce
  then show thesis using p(2) by (rule that)
qed

lemma demo_uuid: "uuid_test (oe_randomUUID demo_env k)"
  by (simp add: demo_env_def) code_simp

lemma demo_understood: "parseOrderCreated (event_content no_engine demo_created) = Inr (received_event demo_created)"
proof (rule event_understood(1))
  show "announces demo_env demo_stored 0 demo_created"
    unfolding announces_def
    by (rule exI [of _ demo_order], rule exI [of _ "''r1''"])
      (use canonical_demo in \<open>auto simp: demo_created_def demo_stored_def demo_order_def canonical_uuid_def\<close>)
qed (rule demo_uuid)

text \<open>The worker connects, gets the message, stores the notification and acknowledges.\<close>

lemma demo_consumed:
  obtains w where "wk_run demo_cfg [Loop Bootstrap, Loop Connect, Loop Channel, Loop Prefetched, Loop (Consume ''tag''), Loop Resume,
      Broker (Deliver 0 demo_delivery), Handler 0 InsertRun, Handler 0 InsertAnswer] (new_worker []) = Some w"
    "length (note_rows w) = 1" "wk_ops w = [(0, Ack demo_delivery)]" "wk_confirmed w = []"
proof -
  have p: "parseOrderCreated (msg_content demo_delivery) = Inr (received_event demo_created)"
    by (simp add: demo_delivery_def demo_understood)
  from parseOrderCreated_wf [OF p] have "event_wf (received_event demo_created)" .
  with p that show thesis
    by (simp add: new_worker_def demo_cfg_def demo_notif_env_def loop_head_def session_ready_def usable_def unsettled_on_def start_job_def
        job_step.simps run_insert_def insert_answered_def notifications_record_def note_query_def insert_notification_def pg_uuid_def
        event_wf_def job_end_def job_op_def set_phase_def io_defs obs_defs Let_def)
qed

lemma demo_system:
  obtains s where "system_reach demo_env no_engine demo_cfg no_orders [] s" "sy_events s = [demo_created]"
    "length (note_rows (sy_worker s)) = 1" "wk_ops (sy_worker s) = [(0, Ack demo_delivery)]" "wk_confirmed (sy_worker s) = []"
    "orders_tbl (sys_store (sy_orders s)) = [demo_order]"
proof -
  obtain p where p: "system_reach demo_env no_engine demo_cfg no_orders []
      \<lparr>sy_orders = demo_threads (AtPublish demo_order) demo_stored, sy_pub = p, sy_events = [demo_created], sy_worker = new_worker []\<rparr>"
    "pb_sent p = [(0, event_message no_engine ''order.created'' demo_created)]" by (rule demo_published)
  obtain w where w: "wk_run demo_cfg [Loop Bootstrap, Loop Connect, Loop Channel, Loop Prefetched, Loop (Consume ''tag''), Loop Resume,
      Broker (Deliver 0 demo_delivery), Handler 0 InsertRun, Handler 0 InsertAnswer] (new_worker []) = Some w"
    "length (note_rows w) = 1" "wk_ops w = [(0, Ack demo_delivery)]" "wk_confirmed w = []" by (rule demo_consumed)
  from system_run_worker [OF p(1), simplified, OF _ w(1)] p(2) have "system_reach demo_env no_engine demo_cfg no_orders []
      \<lparr>sy_orders = demo_threads (AtPublish demo_order) demo_stored, sy_pub = p, sy_events = [demo_created], sy_worker = w\<rparr>"
    by (simp add: demo_delivery_def event_content_def)
  then show thesis by (rule that) (simp_all add: w demo_threads_def demo_stored_def)
qed

theorem notifications_match_orders_witness:
  "\<exists>s x. system_reach demo_env no_engine demo_cfg no_orders [] s \<and> note_rows (sy_worker s) = [x]
     \<and> note_orderId x = ord_id demo_order \<and> note_userId x = ord_userId demo_order"
proof -
  obtain s where s: "system_reach demo_env no_engine demo_cfg no_orders [] s" "length (note_rows (sy_worker s)) = 1"
    "orders_tbl (sys_store (sy_orders s)) = [demo_order]" by (rule demo_system)
  have "notes_ok []" by (simp add: notes_ok_def)
  from notifications_match_orders [OF s(1) this demo_uuid] s(2,3) s(1) show ?thesis
    by (auto simp: length_Suc_conv)
qed

theorem acknowledged_orders_are_kept_witness:
  "\<exists>s x. system_reach demo_env no_engine demo_cfg no_orders [] s \<and> note_rows (sy_worker s) = [x]
     \<and> (0, Ack demo_delivery) \<in> set (wk_ops (sy_worker s)) \<and> note_orderId x = data_orderId (event_data demo_created)"
proof -
  obtain s where s: "system_reach demo_env no_engine demo_cfg no_orders [] s" "sy_events s = [demo_created]"
    "length (note_rows (sy_worker s)) = 1" "wk_ops (sy_worker s) = [(0, Ack demo_delivery)]" "wk_confirmed (sy_worker s) = []"
    by (rule demo_system)
  have "notes_ok []" by (simp add: notes_ok_def)
  from acknowledged_orders_are_kept [OF s(1) this demo_uuid, of 0 demo_delivery] s show ?thesis
    by (auto simp: length_Suc_conv inj_on_def)
qed

end
