(* ===== verification/Gateway.thy ===== *)
theory Gateway
  imports Auth_Guard JsValue Json
begin

text \<open>
  \<open>api-gateway/src/gateway/gateway.ts\<close> and the part of \<open>app.module.ts\<close> that configures it: the chain of
  handlers a request goes through (request id, rate limit, authentication and routing) and what the
  gateway answers when the upstream fails. The rate limiter's counters and the proxy are libraries; what
  they decide for a request is part of the environment.
\<close>

section \<open>Requests, responses, environment\<close>

record gw_request =
  originalUrl :: string
  gw_x_request_id :: "string option"
  gw_assigned_id :: "string option"
  gw_authorization :: "string option"

text \<open>What is sent to an upstream.\<close>

record forwarded =
  fw_target :: string
  fw_url :: string
  fw_request_id :: string
  fw_authorization :: "string option"

record gw_world = obs +
  res_statusCode :: nat
  gw_res_headers :: "(string \<times> string) list"
  res_body :: "string option"
  headersSent :: bool
  res_ended :: bool
  sent_upstream :: "forwarded list"
  verifications :: nat

text \<open>How proxying ends: the upstream's answer is relayed; or the proxy reports an error (with the error's
  \<open>code\<close>) at a time, before anything was relayed, or after the status, the headers and a part of the body were.\<close>

record upstream_answer =
  ua_status :: nat
  ua_headers :: "(string \<times> string) list"
  ua_body :: string

datatype proxied = Relayed upstream_answer | Broken upstream_answer "string option" int | ProxyError "string option" int

record gw_config =
  routes :: "(string \<times> string) list"
  upstreamTimeoutMs :: int
  gw_verifier :: "string \<Rightarrow> thrown + principal"

record gw_env =
  gw_cfg :: gw_config
  over_limit :: "gw_request \<Rightarrow> bool"
  gw_randomUUID :: string
  gw_entered :: int
  gw_upstream :: "forwarded \<Rightarrow> proxied"

section \<open>Helpers\<close>

definition STATUS_TEXT :: "nat \<Rightarrow> string" where
  "STATUS_TEXT s =
     (if s = 401 then ''Unauthorized'' else if s = 429 then ''Too Many Requests'' else if s = 502 then ''Bad Gateway''
      else if s = 503 then ''Service Unavailable'' else if s = 504 then ''Gateway Timeout'' else ''undefined'')"

definition isHealth :: "gw_request \<Rightarrow> bool" where
  "isHealth req = prefix ''/health'' (originalUrl req)"

definition pathOf :: "gw_request \<Rightarrow> string" where
  "pathOf req = before_query (originalUrl req)"

definition gw_header :: "string \<Rightarrow> string \<Rightarrow> ('z gw_world_scheme, unit) io" where
  "gw_header k v = modify_io (\<lambda>w. w\<lparr>gw_res_headers := obj_set k v (gw_res_headers w)\<rparr>)"

text \<open>The body is \<open>JSON.stringify\<close> of the three fields; the messages need no escaping.\<close>

definition error_body :: "nat \<Rightarrow> string \<Rightarrow> string" where
  "error_body status message =
     [CHR ''{'', CHR 0x22] @ ''statusCode'' @ [CHR 0x22, CHR '':''] @ nat_string status @ [CHR '','', CHR 0x22] @ ''error''
     @ [CHR 0x22, CHR '':'', CHR 0x22] @ STATUS_TEXT status @ [CHR 0x22, CHR '','', CHR 0x22] @ ''message''
     @ [CHR 0x22, CHR '':'', CHR 0x22] @ message @ [CHR 0x22, CHR ''}'']"

definition fail :: "nat \<Rightarrow> string \<Rightarrow> ('z gw_world_scheme, unit) io" where
  "fail status message =
     bind_io (gets_io headersSent) (\<lambda>sent.
       if sent then modify_io (\<lambda>w. w\<lparr>res_ended := True\<rparr>)
       else seq_io (modify_io (\<lambda>w. w\<lparr>res_statusCode := status\<rparr>))
         (seq_io (gw_header ''content-type'' ''application/json; charset=utf-8'')
           (modify_io (\<lambda>w. w\<lparr>res_body := Some (error_body status message), headersSent := True, res_ended := True\<rparr>))))"

section \<open>The handlers\<close>

text \<open>What a handler does with the request: pass it to the next one, answer it, or hand it to the proxy.\<close>

datatype handled = Next | Answered | Proxied

text \<open>\<open>genReqId\<close> of \<open>app.module.ts\<close>, which the logger runs first; its result is the request's \<open>id\<close>.\<close>

definition genReqId :: "gw_env \<Rightarrow> gw_request \<Rightarrow> ('z gw_world_scheme, string) io" where
  "genReqId env req =
     (let i = (case gw_x_request_id req of Some s \<Rightarrow> (if s \<noteq> [] then s else gw_randomUUID env) | None \<Rightarrow> gw_randomUUID env)
      in seq_io (gw_header ''x-request-id'' i) (return_io i))"

definition requestId :: "gw_env \<Rightarrow> gw_request \<Rightarrow> ('z gw_world_scheme, gw_request) io" where
  "requestId env req =
     (let i = (case gw_assigned_id req of
                 Some a \<Rightarrow> a
               | None \<Rightarrow> (case gw_x_request_id req of
                   Some s \<Rightarrow> (if s \<noteq> [] then s else gw_randomUUID env)
                 | None \<Rightarrow> gw_randomUUID env))
      in seq_io (gw_header ''x-request-id'' i) (return_io (req\<lparr>gw_x_request_id := Some i\<rparr>)))"

definition limiter :: "gw_env \<Rightarrow> gw_request \<Rightarrow> ('z gw_world_scheme, handled) io" where
  "limiter env req =
     (if isHealth req then return_io Next
      else if over_limit env req then seq_io (fail 429 ''Too many requests, retry later'') (return_io Answered)
      else return_io Next)"

definition gw_request_id :: "gw_request \<Rightarrow> string" where
  "gw_request_id req = (case gw_x_request_id req of Some i \<Rightarrow> i | None \<Rightarrow> ''undefined'')"

definition gw_reject :: "string \<Rightarrow> string \<Rightarrow> ('z gw_world_scheme, unit) io" where
  "gw_reject rid reason =
     seq_io (recordAuthRejection reason)
     (seq_io (log_io Warn (''auth.rejected requestId='' @ rid @ '' reason='' @ reason))
     (seq_io (gw_header ''www-authenticate'' ''Bearer'') (fail 401 ''Invalid or missing token'')))"

fun gw_unverified :: "string \<Rightarrow> thrown \<Rightarrow> ('z gw_world_scheme, unit) io" where
  "gw_unverified rid (Thrown (TokenInvalid reason) _ _ _ _ _) = gw_reject rid (reason_name reason)"
| "gw_unverified rid err =
     seq_io (recordAuthRejection ''keys_unavailable'')
     (seq_io (log_io Error (''auth.keys_unavailable requestId='' @ rid @ '' cause=''
        @ (if has_class KeysUnavailable err then message_of err else ''unexpected'')))
       (fail 503 ''Authentication is temporarily unavailable''))"

definition gw_verify :: "gw_env \<Rightarrow> string \<Rightarrow> ('z gw_world_scheme, principal) io" where
  "gw_verify env t =
     seq_io (modify_io (\<lambda>w. w\<lparr>verifications := Suc (verifications w)\<rparr>)) (lift_io (gw_verifier (gw_cfg env) t))"

definition authenticate :: "gw_env \<Rightarrow> gw_request \<Rightarrow> ('z gw_world_scheme, handled) io" where
  "authenticate env req =
     (let rid = gw_request_id req in
      case bearer_token (case gw_authorization req of Some h \<Rightarrow> h | None \<Rightarrow> []) of
        None \<Rightarrow> seq_io (gw_reject rid ''missing'') (return_io Answered)
      | Some t \<Rightarrow>
          attempt_io (gw_verify env t) (\<lambda>_. return_io Next)
            (\<lambda>err. seq_io (gw_unverified rid err) (return_io Answered)))"

definition on_proxy_error :: "gw_env \<Rightarrow> gw_request \<Rightarrow> string \<Rightarrow> string option \<Rightarrow> int \<Rightarrow> ('z gw_world_scheme, unit) io" where
  "on_proxy_error env req target code now =
     (let timedOut = (upstreamTimeoutMs (gw_cfg env) - 50 \<le> now - gw_entered env) in
      seq_io (log_io Error (''gateway.upstream_error requestId='' @ gw_request_id req @ '' target='' @ target @ '' code=''
         @ (case code of Some c \<Rightarrow> c | None \<Rightarrow> ''unknown'') @ '' timedOut='' @ (if timedOut then ''true'' else ''false'')))
        (fail (if timedOut then 504 else 502)
           (if timedOut then ''Upstream did not respond in time'' else ''Upstream service unavailable'')))"

text \<open>The library copies the upstream's status and headers onto the response, over those set before, and pipes the body.\<close>

definition relay :: "upstream_answer \<Rightarrow> bool \<Rightarrow> ('z gw_world_scheme, unit) io" where
  "relay a ended = modify_io (\<lambda>w. w\<lparr>res_statusCode := ua_status a,
     gw_res_headers := fold (\<lambda>(k, v). obj_set k v) (ua_headers a) (gw_res_headers w),
     res_body := Some (ua_body a), headersSent := True, res_ended := ended\<rparr>)"

definition proxy :: "gw_env \<Rightarrow> gw_request \<Rightarrow> string \<Rightarrow> ('z gw_world_scheme, unit) io" where
  "proxy env req target =
     (let fw = \<lparr>fw_target = target, fw_url = originalUrl req, fw_request_id = gw_request_id req,
                fw_authorization = gw_authorization req\<rparr> in
      seq_io (modify_io (\<lambda>w. w\<lparr>sent_upstream := sent_upstream w @ [fw]\<rparr>))
        (case gw_upstream env fw of
           Relayed a \<Rightarrow> relay a True
         | Broken a code now \<Rightarrow> seq_io (relay a False) (on_proxy_error env req target code now)
         | ProxyError code now \<Rightarrow> on_proxy_error env req target code now))"

definition route_of :: "(string \<times> string) list \<Rightarrow> string \<Rightarrow> (string \<times> string) option" where
  "route_of rs path = find (\<lambda>(pre, _). path = pre \<or> prefix (pre @ ''/'') path) rs"

definition router :: "gw_env \<Rightarrow> gw_request \<Rightarrow> ('z gw_world_scheme, handled) io" where
  "router env req =
     (if isHealth req then return_io Next
      else (case route_of (routes (gw_cfg env)) (pathOf req) of
        None \<Rightarrow> return_io Next
      | Some (pre, target) \<Rightarrow>
          bind_io (authenticate env req) (\<lambda>h.
            if h = Next then seq_io (proxy env req target) (return_io Proxied) else return_io h)))"

text \<open>\<open>createGateway\<close>: the three handlers in order.\<close>

definition createGateway :: "gw_env \<Rightarrow> gw_request \<Rightarrow> ('z gw_world_scheme, handled) io" where
  "createGateway env req =
     bind_io (requestId env req) (\<lambda>req'.
       bind_io (limiter env req') (\<lambda>h. if h = Next then router env req' else return_io h))"

text \<open>The routes \<open>AppModule.configure\<close> sets up.\<close>

definition gateway_routes :: "string \<Rightarrow> string \<Rightarrow> string \<Rightarrow> (string \<times> string) list" where
  "gateway_routes users orders notifications =
     [(''/v1/users'', users), (''/v1/orders'', orders), (''/v1/notifications'', notifications)]"

section \<open>What the gateway lets through\<close>

lemmas gw_defs = gw_header_def gw_reject_def recordAuthRejection_def fail_def obs_defs io_defs

text \<open>The request as the handlers after \<open>requestId\<close> see it.\<close>

definition identified :: "gw_env \<Rightarrow> gw_request \<Rightarrow> gw_request" where
  "identified env req = req\<lparr>gw_x_request_id := Some
     (case gw_assigned_id req of
        Some a \<Rightarrow> a
      | None \<Rightarrow> (case gw_x_request_id req of
          Some s \<Rightarrow> (if s \<noteq> [] then s else gw_randomUUID env)
        | None \<Rightarrow> gw_randomUUID env))\<rparr>"

definition gw_token :: "gw_request \<Rightarrow> string option" where
  "gw_token req = bearer_token (case gw_authorization req of Some h \<Rightarrow> h | None \<Rightarrow> [])"

text \<open>The verdict on the token a request carries: \<open>None\<close> where there is none.\<close>

definition token_verdict :: "gw_env \<Rightarrow> gw_request \<Rightarrow> (thrown + principal) option" where
  "token_verdict env req = map_option (gw_verifier (gw_cfg env)) (gw_token req)"

definition forward_of :: "gw_request \<Rightarrow> string \<Rightarrow> forwarded" where
  "forward_of req target =
     \<lparr>fw_target = target, fw_url = originalUrl req, fw_request_id = gw_request_id req, fw_authorization = gw_authorization req\<rparr>"

text \<open>The specification: what happens to a request, from the request and the environment alone.\<close>

datatype gw_fate = Passed | Refused nat string | Sent forwarded

fun refusal_of :: "thrown \<Rightarrow> nat \<times> string" where
  "refusal_of (Thrown (TokenInvalid _) _ _ _ _ _) = (401, ''Invalid or missing token'')"
| "refusal_of _ = (503, ''Authentication is temporarily unavailable'')"

definition fate :: "gw_env \<Rightarrow> gw_request \<Rightarrow> gw_fate" where
  "fate env req =
     (let req' = identified env req in
      if isHealth req then Passed
      else if over_limit env req' then Refused 429 ''Too many requests, retry later''
      else (case route_of (routes (gw_cfg env)) (pathOf req) of
        None \<Rightarrow> Passed
      | Some (_, target) \<Rightarrow>
          (case token_verdict env req of
             None \<Rightarrow> Refused 401 ''Invalid or missing token''
           | Some (Inl e) \<Rightarrow> Refused (fst (refusal_of e)) (snd (refusal_of e))
           | Some (Inr _) \<Rightarrow> Sent (forward_of req' target))))"

lemma identified_simps [simp]:
  "originalUrl (identified env req) = originalUrl req" "gw_authorization (identified env req) = gw_authorization req"
  by (simp_all add: identified_def)

text \<open>How a response looks after a refusal.\<close>

definition refused_with :: "nat \<Rightarrow> string \<Rightarrow> 'z gw_world_scheme \<Rightarrow> 'z gw_world_scheme \<Rightarrow> bool" where
  "refused_with st m w w' \<longleftrightarrow>
     sent_upstream w' = sent_upstream w \<and> res_statusCode w' = st \<and> res_body w' = Some (error_body st m)
     \<and> res_ended w' \<and> map_of (gw_res_headers w') ''x-request-id'' = map_of (gw_res_headers w) ''x-request-id''"

lemma fail_run: "\<not> headersSent w \<Longrightarrow> \<exists>w'. fail st m w = (Inr (), w') \<and> refused_with st m w w' \<and> verifications w' = verifications w"
  by (simp add: gw_defs refused_with_def)

lemma gw_reject_run:
  "\<not> headersSent w \<Longrightarrow> \<exists>w'. gw_reject rid reason w = (Inr (), w') \<and> refused_with 401 ''Invalid or missing token'' w w'"
  by (simp add: gw_defs refused_with_def)

lemma gw_unverified_run:
  "\<not> headersSent w \<Longrightarrow> \<exists>w'. gw_unverified rid e w = (Inr (), w') \<and> refused_with (fst (refusal_of e)) (snd (refusal_of e)) w w'"
  by (cases "(rid, e)" rule: gw_unverified.cases) (simp_all add: gw_reject_run, simp_all add: gw_defs refused_with_def)

lemma gw_verify_run: "gw_verify env t w = (gw_verifier (gw_cfg env) t, w\<lparr>verifications := Suc (verifications w)\<rparr>)"
  by (simp add: gw_verify_def io_defs)

definition id_header :: "gw_request \<Rightarrow> 'z gw_world_scheme \<Rightarrow> 'z gw_world_scheme" where
  "id_header req w = w\<lparr>gw_res_headers := obj_set ''x-request-id'' (gw_request_id req) (gw_res_headers w)\<rparr>"

lemma requestId_run: "requestId env req w = (Inr (identified env req), id_header (identified env req) w)"
  by (simp add: requestId_def identified_def id_header_def gw_request_id_def gw_header_def io_defs Let_def)

lemma createGateway_eq:
  "createGateway env req w =
     bind_io (limiter env (identified env req))
       (\<lambda>h. if h = Next then router env (identified env req) else return_io h) (id_header (identified env req) w)"
  by (simp add: createGateway_def bind_io_def [of "requestId _ _"] requestId_run)

lemma authenticate_run:
  assumes "\<not> headersSent w"
  shows "case token_verdict env req of
      Some (Inr _) \<Rightarrow> authenticate env req w = (Inr Next, w\<lparr>verifications := Suc (verifications w)\<rparr>)
    | Some (Inl e) \<Rightarrow> (\<exists>w'. authenticate env req w = (Inr Answered, w')
        \<and> refused_with (fst (refusal_of e)) (snd (refusal_of e)) w w')
    | None \<Rightarrow> (\<exists>w'. authenticate env req w = (Inr Answered, w') \<and> refused_with 401 ''Invalid or missing token'' w w')"
proof (cases "gw_token req")
  case None
  with gw_reject_run [OF assms, of "gw_request_id req" "''missing''"] show ?thesis
    by (auto simp: authenticate_def gw_token_def token_verdict_def seq_io_def bind_io_def return_io_def)
next
  case (Some t)
  show ?thesis
  proof (cases "gw_verifier (gw_cfg env) t")
    case (Inr p)
    with Some show ?thesis
      by (simp add: authenticate_def gw_token_def token_verdict_def gw_verify_def io_defs)
  next
    case (Inl e)
    let ?w = "w\<lparr>verifications := Suc (verifications w)\<rparr>"
    obtain w' where run: "gw_unverified (gw_request_id req) e ?w = (Inr (), w')"
      "refused_with (fst (refusal_of e)) (snd (refusal_of e)) ?w w'"
      using gw_unverified_run [of ?w "gw_request_id req" e] assms by auto
    then have "authenticate env req w = (Inr Answered, w')"
      using Some Inl by (simp add: authenticate_def gw_token_def gw_verify_def attempt_io_def seq_io_def bind_io_def
          modify_io_def lift_io_def return_io_def)
    with run(2) Some Inl show ?thesis by (simp add: token_verdict_def refused_with_def)
  qed
qed

text \<open>What the client gets for a request that was sent upstream.\<close>

fun upstream_head :: "proxied \<Rightarrow> upstream_answer option" where
  "upstream_head (Relayed a) = Some a"
| "upstream_head (Broken a _ _) = Some a"
| "upstream_head (ProxyError _ _) = None"

text \<open>The request id on the response: the upstream's, where its answer names one.\<close>

definition answered_id :: "gw_env \<Rightarrow> forwarded \<Rightarrow> string" where
  "answered_id env fw =
     (case upstream_head (gw_upstream env fw) of
        Some a \<Rightarrow> (case map_of (rev (ua_headers a)) ''x-request-id'' of Some i \<Rightarrow> i | None \<Rightarrow> fw_request_id fw)
      | None \<Rightarrow> fw_request_id fw)"

definition timed_out :: "gw_env \<Rightarrow> int \<Rightarrow> bool" where
  "timed_out env now \<longleftrightarrow> upstreamTimeoutMs (gw_cfg env) - 50 \<le> now - gw_entered env"

definition relayed_or_error :: "gw_env \<Rightarrow> forwarded \<Rightarrow> 'z gw_world_scheme \<Rightarrow> bool" where
  "relayed_or_error env fw w' \<longleftrightarrow> res_ended w' \<and>
     (case gw_upstream env fw of
        Relayed a \<Rightarrow> res_statusCode w' = ua_status a \<and> res_body w' = Some (ua_body a)
      | Broken a code now \<Rightarrow> res_statusCode w' = ua_status a \<and> res_body w' = Some (ua_body a)
      | ProxyError code now \<Rightarrow>
          (if timed_out env now
           then res_statusCode w' = 504 \<and> res_body w' = Some (error_body 504 ''Upstream did not respond in time'')
           else res_statusCode w' = 502 \<and> res_body w' = Some (error_body 502 ''Upstream service unavailable'')))"

lemma map_of_relayed: "map_of (fold (\<lambda>(k, v). obj_set k v) hs ps) = map_of ps ++ map_of (rev hs)"
  by (induction hs arbitrary: ps) (auto simp: fun_eq_iff map_add_def split: option.splits)

text \<open>The response after proxying, field by field. After a broken answer nothing of the error is on it.\<close>

definition proxied_headers :: "gw_env \<Rightarrow> forwarded \<Rightarrow> (string \<times> string) list \<Rightarrow> (string \<times> string) list" where
  "proxied_headers env fw hs =
     (case upstream_head (gw_upstream env fw) of
        Some a \<Rightarrow> fold (\<lambda>(k, v). obj_set k v) (ua_headers a) hs
      | None \<Rightarrow> obj_set ''content-type'' ''application/json; charset=utf-8'' hs)"

lemma proxy_run:
  assumes "\<not> headersSent w"
  shows "\<exists>w'. proxy env req target w = (Inr (), w') \<and> sent_upstream w' = sent_upstream w @ [forward_of req target]
    \<and> relayed_or_error env (forward_of req target) w'
    \<and> gw_res_headers w' = proxied_headers env (forward_of req target) (gw_res_headers w)"
proof (cases "gw_upstream env (forward_of req target)")
  case (Relayed a)
  then show ?thesis
    by (simp add: proxy_def forward_of_def [symmetric] relayed_or_error_def proxied_headers_def relay_def io_defs)
next
  case (Broken a code now)
  then show ?thesis
    by (simp add: proxy_def forward_of_def [symmetric] relayed_or_error_def proxied_headers_def relay_def on_proxy_error_def Let_def gw_defs)
next
  case (ProxyError code now)
  let ?late = "upstreamTimeoutMs (gw_cfg env) - 50 \<le> now - gw_entered env"
  have "\<exists>w'. on_proxy_error env req target code now w1 = (Inr (), w') \<and> sent_upstream w' = sent_upstream w1 \<and> res_ended w'
    \<and> res_statusCode w' = (if ?late then 504 else 502)
    \<and> res_body w' = Some (error_body (if ?late then 504 else 502)
        (if ?late then ''Upstream did not respond in time'' else ''Upstream service unavailable''))
    \<and> gw_res_headers w' = obj_set ''content-type'' ''application/json; charset=utf-8'' (gw_res_headers w1)"
    if "\<not> headersSent w1" for w1 :: "'a gw_world_scheme"
    using that by (simp add: on_proxy_error_def gw_defs Let_def)
  from this [of "w\<lparr>sent_upstream := sent_upstream w @ [forward_of req target]\<rparr>"] ProxyError assms show ?thesis
    by (auto simp: proxy_def forward_of_def [symmetric] relayed_or_error_def proxied_headers_def timed_out_def seq_io_def bind_io_def modify_io_def)
qed

lemma router_run:
  assumes "\<not> headersSent w" "\<not> isHealth req"
  shows "case route_of (routes (gw_cfg env)) (pathOf req) of
      None \<Rightarrow> router env req w = (Inr Next, w)
    | Some (_, target) \<Rightarrow>
        (case token_verdict env req of
           None \<Rightarrow> (\<exists>w'. router env req w = (Inr Answered, w') \<and> refused_with 401 ''Invalid or missing token'' w w')
         | Some (Inl e) \<Rightarrow> (\<exists>w'. router env req w = (Inr Answered, w')
             \<and> refused_with (fst (refusal_of e)) (snd (refusal_of e)) w w')
         | Some (Inr _) \<Rightarrow> (\<exists>w'. router env req w = (Inr Proxied, w')
             \<and> sent_upstream w' = sent_upstream w @ [forward_of req target]
             \<and> relayed_or_error env (forward_of req target) w'
             \<and> gw_res_headers w' = proxied_headers env (forward_of req target) (gw_res_headers w)))"
proof (cases "route_of (routes (gw_cfg env)) (pathOf req)")
  case None
  with assms show ?thesis by (simp add: router_def return_io_def)
next
  case (Some pt)
  obtain pre target where pt: "pt = (pre, target)" by fastforce
  have run: "router env req = bind_io (authenticate env req) (\<lambda>h.
      if h = Next then seq_io (proxy env req target) (return_io Proxied) else return_io h)"
    using Some pt assms(2) by (simp add: router_def)
  note auth = authenticate_run [OF assms(1), of env req]
  consider "token_verdict env req = None" | e where "token_verdict env req = Some (Inl e)"
    | p where "token_verdict env req = Some (Inr p)"
    by (metis old.sum.exhaust option.exhaust)
  then show ?thesis
  proof cases
    case 1
    with auth Some pt show ?thesis by (auto simp: run bind_io_def return_io_def)
  next
    case (2 e)
    with auth Some pt show ?thesis by (auto simp: run bind_io_def return_io_def)
  next
    case (3 p)
    with auth Some pt proxy_run [of "w\<lparr>verifications := Suc (verifications w)\<rparr>" env req target] assms(1) show ?thesis
      by (auto simp: run bind_io_def seq_io_def return_io_def)
  qed
qed

lemma proxied_id:
  "fw_request_id fw = i \<Longrightarrow>
    map_of (proxied_headers env fw (obj_set ''x-request-id'' i hs)) ''x-request-id'' = Some (answered_id env fw)"
  by (auto simp: proxied_headers_def answered_id_def map_of_relayed map_add_def split: option.split)

lemma identified_verdict [simp]:
  "token_verdict env (identified env' req) = token_verdict env req" "isHealth (identified env' req) = isHealth req"
  "pathOf (identified env' req) = pathOf req"
  by (simp_all add: token_verdict_def gw_token_def isHealth_def pathOf_def)

text \<open>The chain of handlers, by the fate of the request.\<close>

lemma createGateway_outcome:
  assumes "\<not> headersSent w"
  shows "map_of (gw_res_headers (snd (createGateway env req w))) ''x-request-id'' =
      Some (case fate env req of Sent fw \<Rightarrow> answered_id env fw | _ \<Rightarrow> gw_request_id (identified env req))
    \<and> (case fate env req of
         Passed \<Rightarrow> fst (createGateway env req w) = Inr Next
           \<and> sent_upstream (snd (createGateway env req w)) = sent_upstream w
           \<and> \<not> headersSent (snd (createGateway env req w))
       | Refused st m \<Rightarrow> fst (createGateway env req w) = Inr Answered
           \<and> sent_upstream (snd (createGateway env req w)) = sent_upstream w
           \<and> res_statusCode (snd (createGateway env req w)) = st
           \<and> res_body (snd (createGateway env req w)) = Some (error_body st m)
       | Sent fw \<Rightarrow> fst (createGateway env req w) = Inr Proxied
           \<and> sent_upstream (snd (createGateway env req w)) = sent_upstream w @ [fw]
           \<and> relayed_or_error env fw (snd (createGateway env req w))
           \<and> gw_res_headers (snd (createGateway env req w)) = proxied_headers env fw (obj_set ''x-request-id'' (fw_request_id fw) (gw_res_headers w)))"
proof -
  let ?r = "identified env req"
  let ?w = "id_header ?r w"
  have idh: "map_of (gw_res_headers ?w) ''x-request-id'' = Some (gw_request_id ?r)" "\<not> headersSent ?w"
    "sent_upstream ?w = sent_upstream w"
    using assms by (simp_all add: id_header_def)
  show ?thesis
  proof (cases "isHealth req")
    case True
    then have "createGateway env req w = (Inr Next, ?w)"
      by (simp add: createGateway_eq limiter_def router_def bind_io_def return_io_def)
    with True idh show ?thesis by (simp add: fate_def)
  next
    case False
    show ?thesis
    proof (cases "over_limit env ?r")
      case True
      obtain w' where "fail 429 ''Too many requests, retry later'' ?w = (Inr (), w')"
        "refused_with 429 ''Too many requests, retry later'' ?w w'"
        using fail_run [OF idh(2)] by blast
      with True False idh show ?thesis
        by (simp add: createGateway_eq limiter_def bind_io_def seq_io_def return_io_def fate_def refused_with_def)
    next
      case under: False
      have gw: "createGateway env req w = router env ?r ?w"
        using False under by (simp add: createGateway_eq limiter_def)
      have "\<not> isHealth ?r" using False by simp
      note run = router_run [OF idh(2) this, of env]
      consider "route_of (routes (gw_cfg env)) (pathOf req) = None"
        | pre tgt where "route_of (routes (gw_cfg env)) (pathOf req) = Some (pre, tgt)" "token_verdict env req = None"
        | pre tgt e where "route_of (routes (gw_cfg env)) (pathOf req) = Some (pre, tgt)" "token_verdict env req = Some (Inl e)"
        | pre tgt p where "route_of (routes (gw_cfg env)) (pathOf req) = Some (pre, tgt)" "token_verdict env req = Some (Inr p)"
        by (metis old.sum.exhaust option.exhaust surj_pair)
      then show ?thesis
        using run idh False under unfolding gw
        by cases (auto simp: fate_def refused_with_def Let_def proxied_id id_header_def forward_of_def)
    qed
  qed
qed

text \<open>C10: the gateway does to each request what its specification says. Probes and unknown paths pass to the
  framework; a client over the limit gets 429; a routed request without a valid token gets the generic
  401, or 503 when tokens cannot be verified, and is not sent anywhere; a routed request with a valid
  token is sent, with its authorization and its request id, to the upstream of its route, once, and the
  client gets the upstream's answer (what there is of it when it breaks off), or 504 or 502 when there is none. Every response is
  ended and carries the request id, or the one the upstream put in its place.\<close>

theorem gateway_meets_spec:
  assumes "\<not> headersSent w"
  shows "map_of (gw_res_headers (snd (createGateway env req w))) ''x-request-id'' =
      Some (case fate env req of Sent fw \<Rightarrow> answered_id env fw | _ \<Rightarrow> gw_request_id (identified env req))
    \<and> (case fate env req of
         Passed \<Rightarrow> fst (createGateway env req w) = Inr Next
           \<and> sent_upstream (snd (createGateway env req w)) = sent_upstream w
           \<and> \<not> headersSent (snd (createGateway env req w))
       | Refused st m \<Rightarrow> fst (createGateway env req w) = Inr Answered
           \<and> sent_upstream (snd (createGateway env req w)) = sent_upstream w
           \<and> res_statusCode (snd (createGateway env req w)) = st
           \<and> res_body (snd (createGateway env req w)) = Some (error_body st m)
       | Sent fw \<Rightarrow> fst (createGateway env req w) = Inr Proxied
           \<and> sent_upstream (snd (createGateway env req w)) = sent_upstream w @ [fw]
           \<and> relayed_or_error env fw (snd (createGateway env req w)))"
  using createGateway_outcome [OF assms, of env req] by (simp split: gw_fate.splits)

definition demo_gw_env :: gw_env where
  "demo_gw_env = \<lparr>gw_cfg = \<lparr>routes = gateway_routes ''http://user-service:3000'' ''http://order-service:3000'' ''http://worker:3000'',
       upstreamTimeoutMs = 10000, gw_verifier = demo_verifier\<rparr>,
     over_limit = (\<lambda>_. False), gw_randomUUID = ''fresh-id'', gw_entered = 0, gw_upstream = (\<lambda>fw. Relayed \<lparr>ua_status = 201, ua_headers = [(''x-request-id'', fw_request_id fw)], ua_body = ''{}''\<rparr>)\<rparr>"

definition demo_gw_request :: gw_request where
  "demo_gw_request = \<lparr>originalUrl = ''/v1/orders?x=1'', gw_x_request_id = Some ''abc'', gw_assigned_id = None,
     gw_authorization = Some ''Bearer good''\<rparr>"

definition demo_gw_world :: gw_world where
  "demo_gw_world = \<lparr>logs = [], counters = [], res_statusCode = 200, gw_res_headers = [], res_body = None,
     headersSent = False, res_ended = False, sent_upstream = [], verifications = 0\<rparr>"

theorem gateway_meets_spec_witness:
  "sent_upstream (snd (createGateway demo_gw_env demo_gw_request demo_gw_world)) =
     [\<lparr>fw_target = ''http://order-service:3000'', fw_url = ''/v1/orders?x=1'', fw_request_id = ''abc'',
       fw_authorization = Some ''Bearer good''\<rparr>]"
proof -
  have "fate demo_gw_env demo_gw_request = Sent
      \<lparr>fw_target = ''http://order-service:3000'', fw_url = ''/v1/orders?x=1'', fw_request_id = ''abc'',
       fw_authorization = Some ''Bearer good''\<rparr>"
    by code_simp
  then show ?thesis
    using gateway_meets_spec [of demo_gw_world demo_gw_env demo_gw_request] by (simp add: demo_gw_world_def)
qed

section \<open>What the gateway does not tell\<close>

text \<open>The two bodies of a failed upstream, as JSON.\<close>

definition failure_json :: "nat \<Rightarrow> string \<Rightarrow> string \<Rightarrow> jsval" where
  "failure_json status name message =
     JObj [(''statusCode'', JNum (Fin (of_nat status))), (''error'', JStr name), (''message'', JStr message)]"

lemma failure_bodies:
  "json_parse (error_body 504 ''Upstream did not respond in time'') =
     Some (failure_json 504 ''Gateway Timeout'' ''Upstream did not respond in time'')"
  "json_parse (error_body 502 ''Upstream service unavailable'') =
     Some (failure_json 502 ''Bad Gateway'' ''Upstream service unavailable'')"
  by code_simp+



lemma fail_verifications: "fst (fail st m w) = Inr () \<and> verifications (snd (fail st m w)) = verifications w"
  by (simp add: gw_defs)

lemma unverified_verifications:
  "fst (gw_unverified rid e w) = Inr () \<and> verifications (snd (gw_unverified rid e w)) = verifications w"
  by (cases "(rid, e)" rule: gw_unverified.cases) (simp_all add: gw_defs)

lemma proxy_verifications: "verifications (snd (proxy env req target w)) = verifications w"
  by (simp add: proxy_def on_proxy_error_def relay_def gw_defs Let_def split: proxied.split)

lemma authenticate_verifications:
  "\<exists>h w'. authenticate env req w = (Inr h, w') \<and> verifications w' = verifications w + (if gw_token req \<noteq> None then 1 else 0)"
proof (cases "gw_token req")
  case None
  then show ?thesis by (simp add: authenticate_def gw_token_def gw_defs)
next
  case (Some t)
  let ?w = "w\<lparr>verifications := Suc (verifications w)\<rparr>"
  have "authenticate env req w = (case gw_verifier (gw_cfg env) t of
      Inr _ \<Rightarrow> (Inr Next, ?w)
    | Inl e \<Rightarrow> seq_io (gw_unverified (gw_request_id req) e) (return_io Answered) ?w)"
    using Some by (simp add: authenticate_def gw_token_def attempt_io_def gw_verify_run return_io_def Let_def split: sum.split)
  moreover have "seq_io (gw_unverified rid e) (return_io Answered) ?w =
      (Inr Answered, snd (gw_unverified rid e ?w))" for rid e
    using unverified_verifications [of rid e ?w] by (cases "gw_unverified rid e ?w") (auto simp: seq_io_def bind_io_def return_io_def)
  ultimately show ?thesis
    using Some unverified_verifications [of _ _ ?w] by (cases "gw_verifier (gw_cfg env) t") simp_all
qed

text \<open>A throttled request costs no token verification; only a routed, unthrottled request with a bearer token
  is verified, and exactly once.\<close>

lemma throttled_before_verification:
  "verifications (snd (createGateway env req w)) =
     verifications w
     + (if \<not> isHealth req \<and> \<not> over_limit env (identified env req)
           \<and> route_of (routes (gw_cfg env)) (pathOf req) \<noteq> None \<and> gw_token req \<noteq> None then 1 else 0)"
proof -
  let ?r = "identified env req" and ?w = "id_header (identified env req) w"
  have tok: "gw_token ?r = gw_token req" by (simp add: gw_token_def)
  have idw: "verifications ?w = verifications w" by (simp add: id_header_def)
  consider "isHealth req" | "\<not> isHealth req" "over_limit env ?r"
    | "\<not> isHealth req" "\<not> over_limit env ?r" "route_of (routes (gw_cfg env)) (pathOf req) = None"
    | pre tgt where "\<not> isHealth req" "\<not> over_limit env ?r" "route_of (routes (gw_cfg env)) (pathOf req) = Some (pre, tgt)"
    by (metis option.exhaust surj_pair)
  then show ?thesis
  proof cases
    case 2
    then show ?thesis
      using fail_verifications [of 429 "''Too many requests, retry later''" ?w] idw
      by (cases "fail 429 ''Too many requests, retry later'' ?w")
        (simp add: createGateway_eq limiter_def bind_io_def seq_io_def return_io_def)
  next
    case 4
    obtain h w' where auth: "authenticate env ?r ?w = (Inr h, w')"
      "verifications w' = verifications w + (if gw_token req \<noteq> None then 1 else 0)"
      using authenticate_verifications [of env ?r ?w] by (auto simp: tok idw)
    have seq: "verifications (snd (seq_io (proxy env ?r tgt) (return_io Proxied) w')) = verifications w'"
      using proxy_verifications [of env ?r tgt w']
      by (cases "proxy env ?r tgt w'") (auto simp: seq_io_def bind_io_def return_io_def split: sum.split)
    have "createGateway env req w =
        (if h = Next then seq_io (proxy env ?r tgt) (return_io Proxied) w' else (Inr h, w'))"
      using 4 auth by (simp add: createGateway_eq limiter_def router_def bind_io_def [of "authenticate _ _"])
        (simp add: return_io_def)
    with 4 auth seq show ?thesis by simp
  qed (use idw in \<open>simp_all add: createGateway_eq limiter_def router_def bind_io_def return_io_def\<close>)
qed

section \<open>Timeouts\<close>

text \<open>A refused connection counts as a timeout when the configured bound is at most 50 ms, or whenever the
  request has spent the bound less 50 ms in the gateway before.\<close>

lemma refused_connection_reported_as_timeout:
  assumes "upstreamTimeoutMs (gw_cfg env) \<le> 50" "gw_entered env \<le> now" "\<not> headersSent w"
  shows "res_statusCode (snd (on_proxy_error env req target (Some ''ECONNREFUSED'') now w)) = 504"
  using assms by (simp add: on_proxy_error_def gw_defs Let_def)

end
