(* ===== verification/Request_Path.thy ===== *)
theory Request_Path
  imports Gateway Database_Filter Orders_Service Notifications
begin

text \<open>
  The way of a request through the system: the gateway's application (the logger assigns the request id, then
  the chain of \<open>gateway.ts\<close>), the request as order-service receives it (the same logger configuration in
  every \<open>app.module.ts\<close>), and the routes of order-service and notification-worker with guard, validation, controller
  and filter. The locale \<open>owned_resource\<close> is what a route relies on in its handler to serve only its owner; it is
  interpreted on the three handlers.
\<close>

section \<open>The gateway's application\<close>

text \<open>The logger's middleware runs before the gateway's handlers and leaves the id on the request.\<close>

definition gateway_app :: "gw_env \<Rightarrow> gw_request \<Rightarrow> ('z gw_world_scheme, handled) io" where
  "gateway_app env req = bind_io (genReqId env req) (\<lambda>i. createGateway env (req\<lparr>gw_assigned_id := Some i\<rparr>))"

text \<open>\<open>genReqId\<close>, the same in all four services: the caller's id where it is a non-empty string, else a fresh one.\<close>

definition gen_req_id :: "string \<Rightarrow> string option \<Rightarrow> string" where
  "gen_req_id fresh incoming = (case incoming of Some s \<Rightarrow> (if s \<noteq> [] then s else fresh) | None \<Rightarrow> fresh)"

section \<open>Order-service\<close>

text \<open>A forwarded request as the service's logger and guard see it.\<close>

definition upstream_request :: "string \<Rightarrow> forwarded \<Rightarrow> string \<Rightarrow> string \<Rightarrow> auth_request" where
  "upstream_request fresh fw meth path =
     \<lparr>req_id = Some (gen_req_id fresh (Some (fw_request_id fw))), x_request_id = Some (fw_request_id fw),
      authorization = fw_authorization fw, req_method = meth, req_route = path\<rparr>"

text \<open>An exception goes through the filter and becomes a status. The request's context (guard, filter) and the
  service's state are two parts of the world.\<close>

definition answer_error :: "auth_request \<Rightarrow> thrown \<Rightarrow> http_ctx \<Rightarrow> nat \<times> http_ctx" where
  "answer_error req e h =
     (case filter_catch (request_id_of req) e h of
        (Inr e', h') \<Rightarrow> (status_of e', h')
      | (Inl e', h') \<Rightarrow> (status_of e', h'))"

definition string_id :: "auth_request \<Rightarrow> string" where
  "string_id req = (case req_id req of Some i \<Rightarrow> i | None \<Rightarrow> ''undefined'')"

text \<open>A route: the guard attaches the principal, the handler runs for it, and what either throws goes through the
  filter. The handler gives the status with the body.\<close>

definition route ::
  "(string \<Rightarrow> thrown + principal) \<Rightarrow> decorators \<Rightarrow> auth_request \<Rightarrow> (principal \<Rightarrow> ('w, nat \<times> 'a) io)
   \<Rightarrow> http_ctx \<times> 'w \<Rightarrow> (nat \<times> 'a option) \<times> (http_ctx \<times> 'w)" where
  "route verifier meta req handler hw =
     (case hw of (h, w) \<Rightarrow>
      (case canActivate verifier meta undecorated req h of
        (Inl e, h1) \<Rightarrow> (case answer_error req e h1 of (st, h2) \<Rightarrow> ((st, None), (h2, w)))
      | (Inr _, h1) \<Rightarrow>
          (case handler (the (req_principal h1)) w of
             (Inr (st, a), w1) \<Rightarrow> ((st, Some a), (h1, w1))
           | (Inl e, w1) \<Rightarrow> (case answer_error req e h1 of (st, h2) \<Rightarrow> ((st, None), (h2, w1))))))"

text \<open>The handlers: the body is validated before the controller runs.\<close>

definition post_handler ::
  "validators \<Rightarrow> order_env \<Rightarrow> auth_request \<Rightarrow> create_order_dto \<Rightarrow> string option \<Rightarrow> principal \<Rightarrow> ('z order_world_scheme, nat \<times> order_row) io" where
  "post_handler v env req dto key p =
     (if CreateOrderDto_valid v dto then orders_post env dto key (authorization req) p (string_id req)
      else throw_io (http_exception 400 ''Bad Request''))"

definition POST_orders ::
  "(string \<Rightarrow> thrown + principal) \<Rightarrow> validators \<Rightarrow> order_env \<Rightarrow> auth_request \<Rightarrow> create_order_dto \<Rightarrow> string option
   \<Rightarrow> http_ctx \<times> 'z order_world_scheme \<Rightarrow> (nat \<times> order_row option) \<times> (http_ctx \<times> 'z order_world_scheme)" where
  "POST_orders verifier v env req dto key = route verifier orders_controller_roles req (post_handler v env req dto key)"

definition get_handler ::
  "order_env \<Rightarrow> (string \<Rightarrow> thrown + string) \<Rightarrow> string \<Rightarrow> principal \<Rightarrow> ('z order_world_scheme, nat \<times> order_row) io" where
  "get_handler env pipe raw p = bind_io (orders_get env pipe raw p) (\<lambda>ord. return_io (200, ord))"

definition GET_order ::
  "(string \<Rightarrow> thrown + principal) \<Rightarrow> order_env \<Rightarrow> (string \<Rightarrow> thrown + string) \<Rightarrow> auth_request \<Rightarrow> string
   \<Rightarrow> http_ctx \<times> 'z order_world_scheme \<Rightarrow> (nat \<times> order_row option) \<times> (http_ctx \<times> 'z order_world_scheme)" where
  "GET_order verifier env pipe req raw = route verifier orders_controller_roles req (get_handler env pipe raw)"

definition notifications_controller_roles :: decorators where
  "notifications_controller_roles = Roles [''customer'', ''admin''] undecorated"

definition notes_handler ::
  "notif_env \<Rightarrow> (string \<Rightarrow> thrown + string) \<Rightarrow> string \<Rightarrow> principal \<Rightarrow> ('z notif_world_scheme, nat \<times> notification list) io" where
  "notes_handler env pipe raw p = bind_io (byOrder env pipe raw p) (\<lambda>ns. return_io (200, ns))"

definition GET_notifications ::
  "(string \<Rightarrow> thrown + principal) \<Rightarrow> notif_env \<Rightarrow> (string \<Rightarrow> thrown + string) \<Rightarrow> auth_request \<Rightarrow> string
   \<Rightarrow> http_ctx \<times> 'z notif_world_scheme \<Rightarrow> (nat \<times> notification list option) \<times> (http_ctx \<times> 'z notif_world_scheme)" where
  "GET_notifications verifier env pipe req raw = route verifier notifications_controller_roles req (notes_handler env pipe raw)"

section \<open>What a route does\<close>

lemma orders_protected:
  "override_meta (public_meta orders_controller_roles) (public_meta undecorated) \<noteq> Some True"
  "override_meta (roles_meta orders_controller_roles) (roles_meta undecorated) = Some [''customer'', ''admin'']"
  by (simp_all add: orders_controller_roles_def Roles_def undecorated_def override_meta_def)

lemma notifications_protected: "notifications_controller_roles = orders_controller_roles"
  by (simp add: notifications_controller_roles_def orders_controller_roles_def)

lemma answer_http: "answer_error req (http_exception st m) h = (st, h)"
  using filter_catch_run [of "request_id_of req" "http_exception st m" h] by (auto simp: answer_error_def)

lemma route_cases:
  fixes w :: 'w
  obtains (refused) st h' where "\<And>p. \<not> guard_accepts verifier (Some [''customer'', ''admin'']) req p"
      "route verifier orders_controller_roles req handler (h, w) = ((st, None), (h', w))" "st \<in> {401, 403, 503}"
  | (failed) p e w' h' where "guard_accepts verifier (Some [''customer'', ''admin'']) req p" "handler p w = (Inl e, w')"
      "route verifier orders_controller_roles req handler (h, w) =
         ((fst (answer_error req e (h\<lparr>req_principal := Some p\<rparr>)), None), (h', w'))"
  | (served) p st a w' where "guard_accepts verifier (Some [''customer'', ''admin'']) req p" "handler p w = (Inr (st, a), w')"
      "route verifier orders_controller_roles req handler (h, w) = ((st, Some a), (h\<lparr>req_principal := Some p\<rparr>, w'))"
  using orders_protected(1)
proof (cases rule: canActivate_cases [where v = verifier and req = req and w = h])
  case (passes p)
  then have g: "guard_accepts verifier (Some [''customer'', ''admin'']) req p"
    and run: "canActivate verifier orders_controller_roles undecorated req h = (Inr True, h\<lparr>req_principal := Some p\<rparr>)"
    by (simp_all only: orders_protected)
  obtain r w' where hd: "handler p w = (r, w')" by fastforce
  show thesis
  proof (cases r)
    case (Inl e)
    obtain st h' where "answer_error req e (h\<lparr>req_principal := Some p\<rparr>) = (st, h')" by fastforce
    with Inl run hd failed [OF g, of e w' h'] show thesis by (simp add: route_def)
  next
    case (Inr so)
    obtain st a where "so = (st, a)" by fastforce
    with Inr run hd served [OF g, of st a w'] show thesis by (simp add: route_def)
  qed
next
  case (refused st m h')
  then show thesis using that(1) [of st h'] by (simp add: route_def answer_http orders_protected)
qed

section \<open>Routes serve the owner\<close>

text \<open>What a route relies on in its handler: what it serves belongs to the principal it runs for, and it leaves
  the state alone for a principal who may not change it.\<close>

locale owned_resource =
  fixes handler :: "principal \<Rightarrow> ('w, nat \<times> 'a) io"
    and belongs :: "principal \<Rightarrow> 'a \<Rightarrow> bool"
    and may_change :: "principal \<Rightarrow> bool"
    and state :: "'w \<Rightarrow> 's"
  assumes serves_own: "handler p w = (Inr (st, a), w') \<Longrightarrow> belongs p a"
    and changes_allowed: "handler p w = (r, w') \<Longrightarrow> may_change p \<or> state w' = state w"
begin

lemma route_serves_own:
  assumes "route verifier orders_controller_roles req handler (h, w) = ((st, Some a), (h', w'))"
  shows "\<exists>p. guard_accepts verifier (Some [''customer'', ''admin'']) req p \<and> belongs p a"
  using assms serves_own
  by (cases rule: route_cases [of verifier req handler h w]) auto

lemma route_changes_allowed:
  assumes "route verifier orders_controller_roles req handler (h, w) = (r, (h', w'))" "state w' \<noteq> state w"
  shows "\<exists>p. guard_accepts verifier (Some [''customer'', ''admin'']) req p \<and> may_change p"
  using assms
  by (cases rule: route_cases [of verifier req handler h w]) (auto dest: changes_allowed)

end

definition own_order :: "principal \<Rightarrow> order_row \<Rightarrow> bool" where
  "own_order p ord \<longleftrightarrow> isAdmin p \<or> sub p = toLowerCase (ord_userId ord)"

definition own_notes :: "principal \<Rightarrow> notification list \<Rightarrow> bool" where
  "own_notes p ns \<longleftrightarrow> list_all (\<lambda>r. isAdmin p \<or> note_userId r = toLowerCase (sub p)) ns"

interpretation post_orders: owned_resource "post_handler v env req dto key" own_order
    "\<lambda>p. CreateOrderDto_valid v dto \<and> (isAdmin p \<or> sub p = toLowerCase (dto_userId dto))"
    "\<lambda>w :: 'z order_world_scheme. (tables w, publishes w)"
  for v env req dto key
proof (unfold_locales, goal_cases)
  case (1 p w st a w')
  with orders_post_outcome [where env = env and dto = dto and key = key and auth = "authorization req" and p = p
      and rid = "string_id req" and w = w] show ?case
    by (auto simp: post_handler_def own_order_def throw_io_def split: if_splits)
next
  case (2 p w r w')
  with orders_post_outcome [where env = env and dto = dto and key = key and auth = "authorization req" and p = p
      and rid = "string_id req" and w = w] show ?case
    by (cases r) (auto simp: post_handler_def throw_io_def split: if_splits)
qed

lemma orders_get_keeps:
  "preserves (\<lambda>w :: 'z order_world_scheme. (tables w, publishes w) = s) (orders_get env pipe raw p)"
proof -
  have own: "preserves (\<lambda>w :: 'z order_world_scheme. (tables w, publishes w) = s) (ownerOrNotFound p u m)" for u m
    using owner_check_frame(2) [of _ p u m] by (auto simp: preserves_def same_store_def)
  have "preserves (\<lambda>w :: 'z order_world_scheme. (tables w, publishes w) = s) (orders_findOneBy db i)" for db i
    by (auto simp: preserves_def orders_findOneBy_def db_query_def split: option.split)
  then have "preserves (\<lambda>w :: 'z order_world_scheme. (tables w, publishes w) = s) (orders_findOne env i)" for i
    unfolding orders_findOne_def by (intro preserves_bind) (auto split: option.split)
  with own show ?thesis unfolding orders_get_def by (intro preserves_bind preserves_seq) auto
qed

interpretation get_order: owned_resource "get_handler env pipe raw" own_order "\<lambda>_. False"
    "\<lambda>w :: 'z order_world_scheme. (tables w, publishes w)"
  for env pipe raw
proof (unfold_locales, goal_cases)
  case (1 p w st a w')
  then have "fst (orders_get env pipe raw p w) = Inr a"
    by (cases "orders_get env pipe raw p w") (auto simp: get_handler_def bind_io_def return_io_def split: sum.splits)
  then show ?case
    by (auto simp: orders_get_answer own_order_def split: sum.splits option.splits if_splits)
next
  case (2 p w r w')
  have "preserves (\<lambda>v :: 'z order_world_scheme. (tables v, publishes v) = (tables w, publishes w)) (get_handler env pipe raw p)"
    unfolding get_handler_def by (intro preserves_bind orders_get_keeps) simp
  from this [unfolded preserves_def, THEN spec, of w] 2 show ?case by simp
qed

lemma findByOrder_rows:
  fixes w :: "'z notif_world_scheme"
  shows "note_rows (snd (findByOrder env i u w)) = note_rows w"
  by (cases "select_notifications i u (note_rows w)")
    (auto simp: findByOrder_def note_query_def Let_def split: option.split)

lemma byOrder_run:
  fixes w :: "'z notif_world_scheme"
  shows "note_rows (snd (byOrder env pipe raw p w)) = note_rows w
    \<and> (\<forall>rs. fst (byOrder env pipe raw p w) = Inr rs \<longrightarrow> own_notes p rs)"
proof
  show "note_rows (snd (byOrder env pipe raw p w)) = note_rows w"
    by (auto simp: byOrder_def bind_io_def lift_io_def findByOrder_rows split: sum.split)
  show "\<forall>rs. fst (byOrder env pipe raw p w) = Inr rs \<longrightarrow> own_notes p rs"
  proof (intro allI impI)
    fix rs assume rs: "fst (byOrder env pipe raw p w) = Inr rs"
    then obtain i where "pipe raw = Inr i" by (cases "pipe raw") (auto simp: byOrder_def io_defs)
    from visible_rows [OF this rs] show "own_notes p rs" by (auto simp: own_notes_def list_all_iff)
  qed
qed

interpretation get_notifications: owned_resource "notes_handler env pipe raw" own_notes "\<lambda>_. False"
    "\<lambda>w :: 'z notif_world_scheme. note_rows w"
  for env pipe raw
proof (unfold_locales, goal_cases)
  case (1 p w st a w')
  then have "fst (byOrder env pipe raw p w) = Inr a"
    by (cases "byOrder env pipe raw p w") (auto simp: notes_handler_def bind_io_def return_io_def split: sum.splits)
  with byOrder_run [of env pipe raw p w] show ?case by blast
next
  case (2 p w r w')
  with byOrder_run [of env pipe raw p w] show ?case
    by (cases "byOrder env pipe raw p w") (auto simp: notes_handler_def bind_io_def return_io_def split: sum.splits)
qed

text \<open>C21: the routes serve only the owner. Whatever the tokens, ids and failures: if \<open>POST /v1/orders\<close> or \<open>GET /v1/orders/:id\<close>
  answers with an order, or \<open>GET /v1/notifications\<close> with notifications, then the verifier accepted the request's
  bearer token for a customer or an admin, and what is in the answer is that principal's own, or the
  principal is an admin; and the two reading routes change nothing.\<close>

theorem routes_serve_the_owner:
  "(case POST_orders verifier v env req dto key (h, w) of
      ((st, Some ord), _) \<Rightarrow> \<exists>p. guard_accepts verifier (Some [''customer'', ''admin'']) req p \<and> own_order p ord
    | _ \<Rightarrow> True)
   \<and> (case GET_order verifier env pipe req raw (h, w) of
        ((st, body), (_, w')) \<Rightarrow> tables w' = tables w \<and> publishes w' = publishes w
          \<and> (case body of
               Some ord \<Rightarrow> \<exists>p. guard_accepts verifier (Some [''customer'', ''admin'']) req p \<and> own_order p ord
             | None \<Rightarrow> True))
   \<and> (case GET_notifications verifier nenv pipe req raw (h, nw) of
        ((st, body), (_, nw')) \<Rightarrow> note_rows nw' = note_rows nw
          \<and> (case body of
               Some ns \<Rightarrow> \<exists>p. guard_accepts verifier (Some [''customer'', ''admin'']) req p \<and> own_notes p ns
             | None \<Rightarrow> True))"
proof (intro conjI)
  show "case POST_orders verifier v env req dto key (h, w) of
      ((st, Some ord), _) \<Rightarrow> \<exists>p. guard_accepts verifier (Some [''customer'', ''admin'']) req p \<and> own_order p ord
    | _ \<Rightarrow> True"
    using post_orders.route_serves_own [of verifier req v env req dto key h w]
    by (auto simp: POST_orders_def split: prod.splits option.splits)
  show "case GET_order verifier env pipe req raw (h, w) of
        ((st, body), (_, w')) \<Rightarrow> tables w' = tables w \<and> publishes w' = publishes w
          \<and> (case body of
               Some ord \<Rightarrow> \<exists>p. guard_accepts verifier (Some [''customer'', ''admin'']) req p \<and> own_order p ord
             | None \<Rightarrow> True)"
    using get_order.route_serves_own [of verifier req env pipe raw h w]
      get_order.route_changes_allowed [of verifier req env pipe raw h w]
    by (fastforce simp: GET_order_def split: prod.splits option.splits)
  show "case GET_notifications verifier nenv pipe req raw (h, nw) of
        ((st, body), (_, nw')) \<Rightarrow> note_rows nw' = note_rows nw
          \<and> (case body of
               Some ns \<Rightarrow> \<exists>p. guard_accepts verifier (Some [''customer'', ''admin'']) req p \<and> own_notes p ns
             | None \<Rightarrow> True)"
    using get_notifications.route_serves_own [of verifier req nenv pipe raw h nw]
      get_notifications.route_changes_allowed [of verifier req nenv pipe raw h nw]
    by (fastforce simp: GET_notifications_def notifications_protected split: prod.splits option.splits)
qed

text \<open>The outcomes of the route.\<close>

lemma POST_orders_outcome:
  "case POST_orders verifier v env req dto key (h, w) of
     ((st, body), (h', w')) \<Rightarrow>
       (tables w' = tables w \<and> publishes w' = publishes w
        \<or> (\<exists>p. guard_accepts verifier (Some [''customer'', ''admin'']) req p \<and> CreateOrderDto_valid v dto
             \<and> (isAdmin p \<or> sub p = toLowerCase (dto_userId dto))))
       \<and> (case body of
            Some ord \<Rightarrow> ord_userId ord = dto_userId dto
              \<and> (st = 201 \<and> tables w' \<noteq> tables w
                   \<and> publishes w' = publishes w @ [(''order.created'', created_event env ord (string_id req) (length (publishes w)))]
                 \<or> st = 200 \<and> tables w' = tables w \<and> publishes w' = publishes w)
          | None \<Rightarrow> publishes w' = publishes w)"
proof (cases rule: route_cases [of verifier req "post_handler v env req dto key" h w])
  case (refused st h')
  then show ?thesis by (simp add: POST_orders_def)
next
  case (failed p e w' h')
  with orders_post_outcome [where env = env and dto = dto and key = key and auth = "authorization req" and p = p
      and rid = "string_id req" and w = w] show ?thesis
    by (auto simp: POST_orders_def post_handler_def throw_io_def split: if_splits)
next
  case (served p st ord w')
  with orders_post_outcome [where env = env and dto = dto and key = key and auth = "authorization req" and p = p
      and rid = "string_id req" and w = w] show ?thesis
    by (auto simp: POST_orders_def post_handler_def throw_io_def split: if_splits)
qed

text \<open>C8: order-service stores and announces an order only for a request that may order. Whatever the tokens, bodies and
  failures, if \<open>POST /v1/orders\<close> changed a table or published anything, then the verifier accepted the
  request's bearer token for a customer or an admin, the body passed validation, and the caller is the user
  who orders or an admin. An answer with a body is 201 with the order just announced under the request's own id,
  or 200 with nothing stored or announced; every other answer announced nothing.\<close>

theorem order_stored_only_when_allowed:
  "case POST_orders verifier v env req dto key (h, w) of
     ((st, body), (h', w')) \<Rightarrow>
       (tables w' = tables w \<and> publishes w' = publishes w
        \<or> (\<exists>p. guard_accepts verifier (Some [''customer'', ''admin'']) req p \<and> CreateOrderDto_valid v dto
             \<and> (isAdmin p \<or> sub p = toLowerCase (dto_userId dto))))
       \<and> (case body of
            Some ord \<Rightarrow> ord_userId ord = dto_userId dto
              \<and> (st = 201 \<and> tables w' \<noteq> tables w
                   \<and> publishes w' = publishes w @ [(''order.created'', created_event env ord (string_id req) (length (publishes w)))]
                 \<or> st = 200 \<and> tables w' = tables w \<and> publishes w' = publishes w)
          | None \<Rightarrow> publishes w' = publishes w)"
  by (rule POST_orders_outcome)

section \<open>From the gateway to the service\<close>

lemma genReqId_run:
  "genReqId env req w = (Inr (gen_req_id (gw_randomUUID env) (gw_x_request_id req)),
     w\<lparr>gw_res_headers := obj_set ''x-request-id'' (gen_req_id (gw_randomUUID env) (gw_x_request_id req)) (gw_res_headers w)\<rparr>)"
  by (simp add: genReqId_def gen_req_id_def gw_header_def io_defs Let_def)

lemma gateway_app_eq:
  "gateway_app env req w = createGateway env (req\<lparr>gw_assigned_id := Some (gen_req_id (gw_randomUUID env) (gw_x_request_id req))\<rparr>)
     (w\<lparr>gw_res_headers := obj_set ''x-request-id'' (gen_req_id (gw_randomUUID env) (gw_x_request_id req)) (gw_res_headers w)\<rparr>)"
  by (simp add: gateway_app_def bind_io_def genReqId_run)

lemma gen_req_id_nonempty: "fresh \<noteq> [] \<Longrightarrow> gen_req_id fresh incoming \<noteq> []"
  by (simp add: gen_req_id_def split: option.split)

lemma gen_req_id_keeps: "i \<noteq> [] \<Longrightarrow> gen_req_id fresh (Some i) = i"
  by (simp add: gen_req_id_def)

lemma fate_Sent:
  assumes "fate env req = Sent fw"
  obtains target p where "fw = forward_of (identified env req) target" "token_verdict env req = Some (Inr p)"
  using assms by (auto simp: fate_def Let_def split: if_splits option.splits sum.splits prod.splits)

text \<open>What the service makes of a request the gateway sent on: the same token, the same id.\<close>

lemma forwarded_request_seen:
  assumes "fate env (req\<lparr>gw_assigned_id := Some i\<rparr>) = Sent fw" "i \<noteq> []"
  shows "req_id (upstream_request fresh fw meth path) = Some i"
    and "presented_token (upstream_request fresh fw meth path) = gw_token req"
    and "\<exists>p. token_verdict env req = Some (Inr p)"
proof -
  from fate_Sent [OF assms(1)] obtain target p where fw: "fw = forward_of (identified env (req\<lparr>gw_assigned_id := Some i\<rparr>)) target"
    and v: "token_verdict env (req\<lparr>gw_assigned_id := Some i\<rparr>) = Some (Inr p)" by blast
  have "fw_request_id fw = i" "fw_authorization fw = gw_authorization req"
    by (simp_all add: fw forward_of_def identified_def gw_request_id_def)
  then show "req_id (upstream_request fresh fw meth path) = Some i"
    "presented_token (upstream_request fresh fw meth path) = gw_token req"
    using assms(2) by (simp_all add: upstream_request_def gen_req_id_keeps presented_token_def gw_token_def)
  show "\<exists>p. token_verdict env req = Some (Inr p)" using v by (auto simp: token_verdict_def gw_token_def)
qed

text \<open>What the guard of the service does with it, by the service's own verdict on the token.\<close>

lemma forwarded_request_guarded:
  assumes "fate env (req\<lparr>gw_assigned_id := Some i\<rparr>) = Sent fw" "i \<noteq> []"
    and "override_meta (public_meta meta) (public_meta cl) \<noteq> Some True" "gw_token req = Some t"
  shows "verifier t = Inr p \<Longrightarrow> case canActivate verifier meta cl (upstream_request fresh fw meth path) h of
      (Inr _, h') \<Rightarrow> req_principal h' = Some p
    | (Inl e, _) \<Rightarrow> e = http_exception 403 ''Forbidden''
        \<and> (\<exists>rs. override_meta (roles_meta meta) (roles_meta cl) = Some rs \<and> (\<forall>r\<in>set rs. r \<notin> set (roles p)))"
    and "verifier t = Inl err \<Longrightarrow>
      canActivate verifier meta cl (upstream_request fresh fw meth path) h =
        reject_unverified (request_id_of (upstream_request fresh fw meth path)) err h"
proof -
  let ?s = "upstream_request fresh fw meth path" and ?rs = "override_meta (roles_meta meta) (roles_meta cl)"
  have t: "presented_token ?s = Some t" using forwarded_request_seen(2) [OF assms(1,2)] assms(4) by simp
  show "case canActivate verifier meta cl ?s h of
      (Inr _, h') \<Rightarrow> req_principal h' = Some p
    | (Inl e, _) \<Rightarrow> e = http_exception 403 ''Forbidden'' \<and> (\<exists>rs. ?rs = Some rs \<and> (\<forall>r\<in>set rs. r \<notin> set (roles p)))"
    if "verifier t = Inr p"
    unfolding canActivate_verified [where v = verifier and w = h, OF assms(3) t that]
    by (auto simp: check_roles_def list_ex_iff guard_defs split: option.splits if_splits)
  show "canActivate verifier meta cl ?s h = reject_unverified (request_id_of ?s) err h" if "verifier t = Inl err"
    using that t assms(3) by (simp add: canActivate_def presented_token_def Let_def split: option.splits)
qed

end
