(* ===== verification/Schema.thy ===== *)
theory Schema
  imports Notifications Users_Service
begin

text \<open>
  The migrations of the three services that keep tables (\<open>src/migrations/1700000000000-*.ts\<close>), as the statements they run.
  \<open>exec_ddl\<close> is what the database does with a \<open>CREATE TABLE\<close>, \<open>CREATE INDEX\<close> or \<open>DROP TABLE\<close>, and \<open>pg_insert\<close> what it does with
  an \<open>INSERT\<close> on the tables so declared: bind and coerce the values, then the constraints in the order PostgreSQL
  checks them. The inserts of \<open>Orders_Store\<close>, \<open>Users_Service\<close> and \<open>Notifications\<close>, written out for each table, are
  shown to be \<open>pg_insert\<close> on the declared schema.
\<close>

section \<open>Declarations\<close>

datatype col_type = UUID | NUMERIC_12_2 | VARCHAR "nat option" | TIMESTAMP

datatype col_opt =
    PrimaryKey
  | NotNull
  | UniqueCol
  | CheckPositive
  | References string string
  | DefaultUuid
  | DefaultNow
  | DefaultText string

record column =
  col_name :: string
  col_type :: col_type
  col_opts :: "col_opt list"

definition column_of :: "string \<Rightarrow> col_type \<Rightarrow> col_opt list \<Rightarrow> column" where
  "column_of n ty opts = \<lparr>col_name = n, col_type = ty, col_opts = opts\<rparr>"

datatype ddl =
    CreateTable string "column list"
  | CreateIndex string string string
  | DropTable string

text \<open>The tables with their columns, and the indexes with the table and the column each is on.\<close>

record schema =
  sch_tables :: "(string \<times> column list) list"
  sch_indexes :: "(string \<times> string \<times> string) list"

definition no_schema :: schema where
  "no_schema = \<lparr>sch_tables = [], sch_indexes = []\<rparr>"

definition references :: "column list \<Rightarrow> string list" where
  "references cols = concat (map (\<lambda>c. concat (map (\<lambda>o1. case o1 of References t _ \<Rightarrow> [t] | _ \<Rightarrow> []) (col_opts c))) cols)"

text \<open>A table can be created once and refer only to tables that are there or to itself; it can be dropped when no
  other table refers to it, and its indexes go with it.\<close>

fun exec_ddl :: "ddl \<Rightarrow> schema \<Rightarrow> thrown + schema" where
  "exec_ddl (CreateTable t cols) s =
     (if t \<in> fst ` set (sch_tables s) then Inl (pg_error ''42P07'' None ''relation already exists'')
      else if \<not> set (references cols) \<subseteq> insert t (fst ` set (sch_tables s))
        then Inl (pg_error ''42P01'' None ''relation does not exist'')
      else Inr (s\<lparr>sch_tables := sch_tables s @ [(t, cols)]\<rparr>))"
| "exec_ddl (CreateIndex i t c) s =
     (if i \<in> fst ` set (sch_indexes s) then Inl (pg_error ''42P07'' None ''relation already exists'')
      else (case map_of (sch_tables s) t of
              None \<Rightarrow> Inl (pg_error ''42P01'' None ''relation does not exist'')
            | Some cols \<Rightarrow>
                if c \<in> col_name ` set cols then Inr (s\<lparr>sch_indexes := sch_indexes s @ [(i, t, c)]\<rparr>)
                else Inl (pg_error ''42703'' None ''column does not exist'')))"
| "exec_ddl (DropTable t) s =
     (if t \<notin> fst ` set (sch_tables s) then Inl (pg_error ''42P01'' None ''table does not exist'')
      else if \<exists>(t', cols)\<in>set (sch_tables s). t' \<noteq> t \<and> t \<in> set (references cols)
        then Inl (pg_error ''2BP01'' None ''cannot drop table because other objects depend on it'')
      else Inr (s\<lparr>sch_tables := filter (\<lambda>(t', _). t' \<noteq> t) (sch_tables s),
                  sch_indexes := filter (\<lambda>(_, t', _). t' \<noteq> t) (sch_indexes s)\<rparr>))"

fun exec_all :: "ddl list \<Rightarrow> schema \<Rightarrow> thrown + schema" where
  "exec_all [] s = Inr s"
| "exec_all (d # ds) s = (case exec_ddl d s of Inl e \<Rightarrow> Inl e | Inr s' \<Rightarrow> exec_all ds s')"

section \<open>The migrations\<close>

definition orders_columns :: "column list" where
  "orders_columns =
     [column_of ''id'' UUID [PrimaryKey, DefaultUuid],
      column_of ''user_id'' UUID [NotNull],
      column_of ''amount'' NUMERIC_12_2 [NotNull, CheckPositive],
      column_of ''description'' (VARCHAR None) [NotNull],
      column_of ''status'' (VARCHAR None) [NotNull, DefaultText ''CREATED''],
      column_of ''created_at'' TIMESTAMP [NotNull, DefaultNow]]"

definition idempotency_keys_columns :: "column list" where
  "idempotency_keys_columns =
     [column_of ''key'' (VARCHAR (Some 200)) [PrimaryKey],
      column_of ''order_id'' UUID [NotNull, References ''orders'' ''id''],
      column_of ''created_at'' TIMESTAMP [NotNull, DefaultNow]]"

definition CreateOrders_up :: "ddl list" where
  "CreateOrders_up = [CreateTable ''orders'' orders_columns, CreateTable ''idempotency_keys'' idempotency_keys_columns]"

definition CreateOrders_down :: "ddl list" where
  "CreateOrders_down = [DropTable ''idempotency_keys'', DropTable ''orders'']"

definition users_columns :: "column list" where
  "users_columns =
     [column_of ''id'' UUID [PrimaryKey, DefaultUuid],
      column_of ''email'' (VARCHAR None) [NotNull, UniqueCol],
      column_of ''name'' (VARCHAR None) [NotNull],
      column_of ''created_at'' TIMESTAMP [NotNull, DefaultNow]]"

definition CreateUsers_up :: "ddl list" where
  "CreateUsers_up = [CreateTable ''users'' users_columns]"

definition CreateUsers_down :: "ddl list" where
  "CreateUsers_down = [DropTable ''users'']"

definition notifications_columns :: "column list" where
  "notifications_columns =
     [column_of ''id'' UUID [PrimaryKey, DefaultUuid],
      column_of ''event_id'' UUID [NotNull, UniqueCol],
      column_of ''order_id'' UUID [NotNull],
      column_of ''user_id'' UUID [NotNull],
      column_of ''created_at'' TIMESTAMP [NotNull, DefaultNow]]"

definition CreateNotifications_up :: "ddl list" where
  "CreateNotifications_up =
     [CreateTable ''notifications'' notifications_columns,
      CreateIndex ''notifications_order_id_idx'' ''notifications'' ''order_id'']"

definition CreateNotifications_down :: "ddl list" where
  "CreateNotifications_down = [DropTable ''notifications'']"

section \<open>Inserting\<close>

datatype sql_value = SqlNull | Text string | Numeric rat | Stamp string

type_synonym sql_db = "string \<Rightarrow> sql_value list list"

text \<open>Binding a parameter to a column reads its text; a text with a zero byte is refused.\<close>

fun bind_value :: "col_type \<Rightarrow> sql_value \<Rightarrow> thrown + sql_value" where
  "bind_value UUID (Text s) = map_sum id Text (pg_uuid s)"
| "bind_value ty (Text s) =
     (if CHR 0x00 \<in> set s then Inl (pg_error ''22021'' None ''invalid byte sequence for encoding'') else Inr (Text s))"
| "bind_value ty v = Inr v"

text \<open>The coercion to the declared precision or length.\<close>

fun coerce_value :: "col_type \<Rightarrow> sql_value \<Rightarrow> thrown + sql_value" where
  "coerce_value NUMERIC_12_2 (Numeric x) =
     (if 10 ^ 10 \<le> \<bar>pg_numeric_12_2 x\<bar> then Inl (pg_error ''22003'' None ''numeric field overflow'')
      else Inr (Numeric (pg_numeric_12_2 x)))"
| "coerce_value (VARCHAR (Some n)) (Text s) =
     (if n < characters s
      then Inl (pg_error ''22001'' None (''value too long for type character varying('' @ nat_string n @ '')''))
      else Inr (Text s))"
| "coerce_value ty v = Inr v"

text \<open>The value of a column that the statement does not name.\<close>

fun default_value :: "string \<Rightarrow> string \<Rightarrow> col_opt list \<Rightarrow> sql_value" where
  "default_value uuid now [] = SqlNull"
| "default_value uuid now (DefaultUuid # _) = Text uuid"
| "default_value uuid now (DefaultNow # _) = Stamp now"
| "default_value uuid now (DefaultText s # _) = Text s"
| "default_value uuid now (_ # opts) = default_value uuid now opts"

fun traverse :: "('a \<Rightarrow> thrown + 'b) \<Rightarrow> 'a list \<Rightarrow> thrown + 'b list" where
  "traverse f [] = Inr []"
| "traverse f (x # xs) =
     (case f x of Inl e \<Rightarrow> Inl e | Inr y \<Rightarrow> (case traverse f xs of Inl e \<Rightarrow> Inl e | Inr ys \<Rightarrow> Inr (y # ys)))"

definition given_value :: "string \<Rightarrow> string \<Rightarrow> (string \<times> sql_value) list \<Rightarrow> column \<Rightarrow> thrown + sql_value" where
  "given_value uuid now given c =
     (case map_of given (col_name c) of
        Some v \<Rightarrow> bind_value (col_type c) v
      | None \<Rightarrow> Inr (default_value uuid now (col_opts c)))"

text \<open>The constraints of a column against the value it is to get: first \<open>NOT NULL\<close> and \<open>CHECK\<close>, then the unique indexes, then the
  foreign keys. The names are those the database gives to unnamed constraints.\<close>

definition not_null_ok :: "column \<times> sql_value \<Rightarrow> thrown + unit" where
  "not_null_ok cv =
     (if snd cv = SqlNull \<and> (NotNull \<in> set (col_opts (fst cv)) \<or> PrimaryKey \<in> set (col_opts (fst cv)))
      then Inl (pg_error ''23502'' None ''null value violates not-null constraint'') else Inr ())"

definition check_ok :: "string \<Rightarrow> column \<times> sql_value \<Rightarrow> thrown + unit" where
  "check_ok t cv =
     (if CheckPositive \<in> set (col_opts (fst cv)) \<and> (case snd cv of Numeric x \<Rightarrow> \<not> 0 < x | _ \<Rightarrow> False)
      then Inl (pg_error ''23514'' (Some (t @ ''_'' @ col_name (fst cv) @ ''_check'')) ''violates check constraint'') else Inr ())"

definition taken :: "sql_value list list \<Rightarrow> nat \<Rightarrow> sql_value \<Rightarrow> bool" where
  "taken rows k v \<longleftrightarrow> v \<noteq> SqlNull \<and> v \<in> (\<lambda>r. r ! k) ` set rows"

definition unique_ok :: "string \<Rightarrow> sql_value list list \<Rightarrow> nat \<times> column \<times> sql_value \<Rightarrow> thrown + unit" where
  "unique_ok t rows kcv =
     (case kcv of (k, c, v) \<Rightarrow>
      if taken rows k v \<and> PrimaryKey \<in> set (col_opts c)
        then Inl (pg_error ''23505'' (Some (t @ ''_pkey'')) ''duplicate key value'')
      else if taken rows k v \<and> UniqueCol \<in> set (col_opts c)
        then Inl (pg_error ''23505'' (Some (t @ ''_'' @ col_name c @ ''_key'')) ''duplicate key value'')
      else Inr ())"

fun position :: "string \<Rightarrow> column list \<Rightarrow> nat" where
  "position n [] = 0"
| "position n (c # cs) = (if col_name c = n then 0 else Suc (position n cs))"

definition reference_ok :: "schema \<Rightarrow> sql_db \<Rightarrow> string \<Rightarrow> column \<times> sql_value \<Rightarrow> thrown + unit" where
  "reference_ok s db t cv =
     (if list_all (\<lambda>o1. case o1 of
          References t' n \<Rightarrow> snd cv = SqlNull \<or> taken (db t') (position n (the (map_of (sch_tables s) t'))) (snd cv)
        | _ \<Rightarrow> True) (col_opts (fst cv))
      then Inr ()
      else Inl (pg_error ''23503'' (Some (t @ ''_'' @ col_name (fst cv) @ ''_fkey'')) ''violates foreign key constraint''))"

definition conflicts :: "column list \<Rightarrow> sql_value list \<Rightarrow> sql_value list list \<Rightarrow> string option \<Rightarrow> bool" where
  "conflicts cols vals rows target =
     (case target of None \<Rightarrow> False | Some n \<Rightarrow> taken rows (position n cols) (vals ! position n cols))"

text \<open>\<open>INSERT INTO t\<close> with the values given, for the id and the time the server would generate; with \<open>ON CONFLICT (c) DO NOTHING\<close> where
  a column is named. The answer is the new row, or none if there was a conflict.\<close>

definition pg_insert ::
  "schema \<Rightarrow> string \<Rightarrow> string option \<Rightarrow> (string \<times> sql_value) list \<Rightarrow> string \<Rightarrow> string \<Rightarrow> sql_db \<Rightarrow> thrown + sql_value list option \<times> sql_db" where
  "pg_insert s t target given uuid now db =
     (case map_of (sch_tables s) t of
        None \<Rightarrow> Inl (pg_error ''42P01'' None ''relation does not exist'')
      | Some cols \<Rightarrow>
          (case traverse (given_value uuid now given) cols of
             Inl e \<Rightarrow> Inl e
           | Inr bound \<Rightarrow>
               (case traverse (\<lambda>(c, v). coerce_value (col_type c) v) (zip cols bound) of
                  Inl e \<Rightarrow> Inl e
                | Inr vals \<Rightarrow>
                    (case (traverse not_null_ok (zip cols vals), traverse (check_ok t) (zip cols vals)) of
                       (Inl e, _) \<Rightarrow> Inl e
                     | (_, Inl e) \<Rightarrow> Inl e
                     | _ \<Rightarrow>
                         if conflicts cols vals (db t) target then Inr (None, db)
                         else (case (traverse (unique_ok t (db t)) (zip [0..<length cols] (zip cols vals)),
                                     traverse (reference_ok s db t) (zip cols vals)) of
                                 (Inl e, _) \<Rightarrow> Inl e
                               | (_, Inl e) \<Rightarrow> Inl e
                               | _ \<Rightarrow> Inr (Some vals, db(t := db t @ [vals])))))))"

section \<open>Up and down\<close>

definition migrated :: "ddl list \<Rightarrow> schema" where
  "migrated up = (case exec_all up no_schema of Inr s \<Rightarrow> s | Inl _ \<Rightarrow> no_schema)"

lemma exec_all_append: "exec_all (xs @ ys) s = (case exec_all xs s of Inl e \<Rightarrow> Inl e | Inr s' \<Rightarrow> exec_all ys s')"
  by (induction xs arbitrary: s) (auto split: sum.split)

lemma references_declared [simp]:
  "references orders_columns = []" "references idempotency_keys_columns = [''orders'']" "references users_columns = []"
  "references notifications_columns = []"
  by (simp_all add: references_def orders_columns_def idempotency_keys_columns_def users_columns_def notifications_columns_def
      column_of_def)

lemma order_id_column: "''order_id'' \<in> col_name ` set notifications_columns"
  by (simp add: notifications_columns_def column_of_def)

text \<open>A schema in which the tables and the index of the migrations are not there and nobody refers to them.\<close>

definition free_of :: "string list \<Rightarrow> schema \<Rightarrow> bool" where
  "free_of ts s \<longleftrightarrow>
     (\<forall>t\<in>set ts. t \<notin> fst ` set (sch_tables s) \<and> t \<notin> (fst \<circ> snd) ` set (sch_indexes s) \<and> t \<notin> fst ` set (sch_indexes s)
        \<and> (\<forall>(_, cols)\<in>set (sch_tables s). t \<notin> set (references cols)))"

lemma free_filter [simp]:
  assumes "t \<notin> fst ` set (sch_tables s)" "t \<notin> (fst \<circ> snd) ` set (sch_indexes s)"
  shows "filter (\<lambda>(t', _). t' \<noteq> t) (sch_tables s) = sch_tables s" "filter (\<lambda>(_, t', _). t' \<noteq> t) (sch_indexes s) = sch_indexes s"
  using assms by (force simp: filter_id_conv)+

lemma orders_revert:
  assumes "free_of [''orders'', ''idempotency_keys''] s"
  shows "exec_all (CreateOrders_up @ CreateOrders_down) s = Inr s"
    "\<exists>e. exec_all (CreateOrders_up @ rev CreateOrders_down) s = Inl e"
  using assms by (auto simp: CreateOrders_up_def CreateOrders_down_def free_of_def)

lemma users_revert: "free_of [''users''] s \<Longrightarrow> exec_all (CreateUsers_up @ CreateUsers_down) s = Inr s"
  by (auto simp: CreateUsers_up_def CreateUsers_down_def free_of_def)

lemma notifications_revert:
  assumes "free_of [''notifications'', ''notifications_order_id_idx''] s"
  shows "exec_all (CreateNotifications_up @ CreateNotifications_down) s = Inr s"
proof -
  have "map_of (sch_tables s @ [(''notifications'', notifications_columns)]) ''notifications'' = Some notifications_columns"
  proof -
    have "map_of (sch_tables s) ''notifications'' = None" using assms by (simp add: free_of_def map_of_eq_None_iff)
    then show ?thesis by (simp add: map_add_def)
  qed
  with assms order_id_column show ?thesis
    by (auto simp: CreateNotifications_up_def CreateNotifications_down_def free_of_def simp del: map_of_append)
qed

text \<open>C37: every migration can be reverted. On a database that has none of the service's tables, running \<open>up\<close> and then \<open>down\<close>
  succeeds and leaves the schema as it was, and for order-service only in the order the migration drops its tables:
  the other way round the foreign key refuses the first drop.\<close>

theorem migrations_revert:
  assumes "free_of [''orders'', ''idempotency_keys'', ''users'', ''notifications'', ''notifications_order_id_idx''] s"
  shows "exec_all (CreateOrders_up @ CreateOrders_down) s = Inr s
    \<and> exec_all (CreateUsers_up @ CreateUsers_down) s = Inr s
    \<and> exec_all (CreateNotifications_up @ CreateNotifications_down) s = Inr s
    \<and> (\<exists>e. exec_all (CreateOrders_up @ rev CreateOrders_down) s = Inl e)"
proof -
  have "free_of [''orders'', ''idempotency_keys''] s" "free_of [''users''] s"
    "free_of [''notifications'', ''notifications_order_id_idx''] s" using assms by (simp_all add: free_of_def)
  then show ?thesis using orders_revert users_revert notifications_revert by blast
qed

theorem migrations_revert_witness:
  "exec_all (CreateOrders_up @ CreateOrders_down) no_schema = Inr no_schema
    \<and> (\<exists>e. exec_all (CreateOrders_up @ rev CreateOrders_down) no_schema = Inl e)"
  using migrations_revert [of no_schema] by (simp add: free_of_def no_schema_def)

section \<open>The inserts of the services\<close>

text \<open>The rows of the models as rows of the declared tables.\<close>

definition order_cells :: "order_row \<Rightarrow> sql_value list" where
  "order_cells r = [Text (ord_id r), Text (ord_userId r), Numeric (ord_amount r), Text (ord_description r), Text (ord_status r),
     Stamp (ord_createdAt r)]"

definition key_cells :: "key_row \<Rightarrow> sql_value list" where
  "key_cells r = [Text (idem_key r), Text (idem_orderId r), Stamp (idem_createdAt r)]"

definition user_cells :: "user_row \<Rightarrow> sql_value list" where
  "user_cells r = [Text (user_id r), Text (user_email r), Text (user_name r), Stamp (user_createdAt r)]"

definition note_cells :: "notification \<Rightarrow> sql_value list" where
  "note_cells r = [Text (note_id r), Text (note_eventId r), Text (note_orderId r), Text (note_userId r),
     Stamp (nat_string (note_createdAt r))]"

definition orders_db :: "order_tables \<Rightarrow> sql_db" where
  "orders_db t = (\<lambda>_. [])(''orders'' := map order_cells (orders_tbl t), ''idempotency_keys'' := map key_cells (keys_tbl t))"

definition users_db :: "user_row list \<Rightarrow> sql_db" where
  "users_db us = (\<lambda>_. [])(''users'' := map user_cells us)"

definition notes_db :: "notification list \<Rightarrow> sql_db" where
  "notes_db ns = (\<lambda>_. [])(''notifications'' := map note_cells ns)"

text \<open>The values the statements name: \<open>m.save(m.create(Order, ...))\<close>, \<open>m.insert(IdempotencyKey, ...)\<close>, \<open>repo.insert(user)\<close> and the text of
  \<open>NotificationsService.record\<close>.\<close>

definition order_values :: "create_order_dto \<Rightarrow> (string \<times> sql_value) list" where
  "order_values dto =
     [(''user_id'', Text (dto_userId dto)), (''amount'', Numeric (dto_amount dto)), (''description'', Text (dto_description dto)),
      (''status'', Text ''CREATED'')]"

definition key_values :: "string \<Rightarrow> string \<Rightarrow> (string \<times> sql_value) list" where
  "key_values key orderId = [(''key'', Text key), (''order_id'', Text orderId)]"

definition user_values :: "create_user_dto \<Rightarrow> (string \<times> sql_value) list" where
  "user_values dto = [(''id'', Text (new_id dto)), (''email'', Text (new_email dto)), (''name'', Text (new_name dto))]"

definition note_values :: "order_created_event \<Rightarrow> (string \<times> sql_value) list" where
  "note_values ev = [(''event_id'', Text (oc_eventId ev)), (''order_id'', Text (oc_orderId ev)), (''user_id'', Text (oc_userId ev))]"

lemma migrated_tables:
  "sch_tables (migrated CreateOrders_up) = [(''orders'', orders_columns), (''idempotency_keys'', idempotency_keys_columns)]"
  "sch_tables (migrated CreateUsers_up) = [(''users'', users_columns)]"
  "sch_tables (migrated CreateNotifications_up) = [(''notifications'', notifications_columns)]"
  using order_id_column
  by (simp_all add: migrated_def CreateOrders_up_def CreateUsers_up_def CreateNotifications_up_def no_schema_def)

lemma taken_map:
  "taken (map order_cells rs) 0 (Text i) \<longleftrightarrow> i \<in> ord_id ` set rs"
  "taken (map key_cells ks) 0 (Text i) \<longleftrightarrow> i \<in> idem_key ` set ks"
  "taken (map user_cells us) 0 (Text i) \<longleftrightarrow> i \<in> user_id ` set us"
  "taken (map user_cells us) (Suc 0) (Text i) \<longleftrightarrow> i \<in> user_email ` set us"
  "taken (map note_cells ns) 0 (Text i) \<longleftrightarrow> i \<in> note_id ` set ns"
  "taken (map note_cells ns) (Suc 0) (Text i) \<longleftrightarrow> i \<in> note_eventId ` set ns"
  by (auto simp: taken_def order_cells_def key_cells_def user_cells_def note_cells_def image_image)

lemmas column_defs = orders_columns_def idempotency_keys_columns_def users_columns_def notifications_columns_def column_of_def

lemmas insert_checks = given_value_def not_null_ok_def check_ok_def unique_ok_def reference_ok_def conflicts_def upt_rec

lemma insert_order_declared:
  "pg_insert (migrated CreateOrders_up) ''orders'' None (order_values dto) i now (orders_db t) =
     (case insert_order i now dto t of
        Inl e \<Rightarrow> Inl e
      | Inr (saved, t') \<Rightarrow> Inr (Some (order_cells (last (orders_tbl t'))), orders_db t'))"
  by (simp add: pg_insert_def migrated_tables column_defs insert_checks order_values_def orders_db_def taken_map insert_order_def
      pg_uuid_def Let_def) (auto simp: order_cells_def)

lemma nat_string_200: "nat_string 200 = ''200''"
  by code_simp

lemma insert_key_declared:
  assumes "CHR 0x00 \<notin> set key" "canonical_uuid orderId"
  shows "pg_insert (migrated CreateOrders_up) ''idempotency_keys'' None (key_values key orderId) i now (orders_db t) =
     (case insert_key key orderId now t of
        Inl e \<Rightarrow> Inl e
      | Inr t' \<Rightarrow> Inr (Some (key_cells (last (keys_tbl t'))), orders_db t'))"
  using assms
  by (simp add: pg_insert_def migrated_tables column_defs insert_checks key_values_def orders_db_def taken_map insert_key_def
      pg_uuid_def canonical_uuid_def nat_string_200 Let_def) (auto simp: key_cells_def)

lemma insert_user_declared:
  "pg_insert (migrated CreateUsers_up) ''users'' None (user_values dto) i now (users_db us) =
     (case insert_user now dto us of
        Inl e \<Rightarrow> Inl e
      | Inr (u, us') \<Rightarrow> Inr (Some (user_cells (last us')), users_db us'))"
  by (simp add: pg_insert_def migrated_tables column_defs insert_checks user_values_def users_db_def taken_map insert_user_def
      pg_uuid_def Let_def) (auto simp: user_cells_def)

lemma insert_notification_declared:
  "pg_insert (migrated CreateNotifications_up) ''notifications'' (Some ''event_id'') (note_values ev) i (nat_string now) (notes_db ns) =
     (case insert_notification i now ev ns of
        Inl e \<Rightarrow> Inl e
      | Inr (ids, ns') \<Rightarrow> Inr (if ids = [] then None else Some (note_cells (last ns')), notes_db ns'))"
  by (simp add: pg_insert_def migrated_tables column_defs insert_checks note_values_def notes_db_def taken_map insert_notification_def
      pg_uuid_def Let_def) (auto simp: note_cells_def)

text \<open>C24: the services' inserts are what the migrations declare. For every table that \<open>up\<close> creates, the insert of the model,
  on which the other properties rest, is the database's \<open>INSERT\<close> on the declared columns: it stores the same row, and it is
  refused for the same reason with the same code and constraint name, for every input and every content of the
  tables. For an idempotency key the input is what the service can pass: a header has no zero byte, and the order id
  is one the database generated.\<close>

theorem inserts_follow_the_migrations:
  assumes "CHR 0x00 \<notin> set key" "canonical_uuid orderId"
  shows "pg_insert (migrated CreateOrders_up) ''orders'' None (order_values dto) i now (orders_db t) =
      (case insert_order i now dto t of
         Inl e \<Rightarrow> Inl e
       | Inr (saved, t') \<Rightarrow> Inr (Some (order_cells (last (orders_tbl t'))), orders_db t'))
    \<and> pg_insert (migrated CreateOrders_up) ''idempotency_keys'' None (key_values key orderId) i now (orders_db t) =
      (case insert_key key orderId now t of
         Inl e \<Rightarrow> Inl e
       | Inr t' \<Rightarrow> Inr (Some (key_cells (last (keys_tbl t'))), orders_db t'))
    \<and> pg_insert (migrated CreateUsers_up) ''users'' None (user_values udto) i now (users_db us) =
      (case insert_user now udto us of
         Inl e \<Rightarrow> Inl e
       | Inr (u, us') \<Rightarrow> Inr (Some (user_cells (last us')), users_db us'))
    \<and> pg_insert (migrated CreateNotifications_up) ''notifications'' (Some ''event_id'') (note_values ev) i (nat_string ms) (notes_db ns) =
      (case insert_notification i ms ev ns of
         Inl e \<Rightarrow> Inl e
       | Inr (ids, ns') \<Rightarrow> Inr (if ids = [] then None else Some (note_cells (last ns')), notes_db ns'))"
  using insert_order_declared insert_key_declared [OF assms] insert_user_declared insert_notification_declared by blast

theorem inserts_follow_the_migrations_witness:
  "pg_insert (migrated CreateOrders_up) ''idempotency_keys'' None (key_values ''k1'' (sub demo_principal)) ''i'' ''now'' (orders_db no_orders) =
     Inl (pg_error ''23503'' (Some ''idempotency_keys_order_id_fkey'') ''violates foreign key constraint'')"
proof -
  have "CHR 0x00 \<notin> set ''k1''" "canonical_uuid (sub demo_principal)" "characters ''k1'' \<le> 200" by code_simp+
  with inserts_follow_the_migrations [of "''k1''" "sub demo_principal"] show ?thesis
    by (simp add: insert_key_def no_orders_def)
qed

section \<open>The entities\<close>

text \<open>The columns as the entities map them: the name in the table, the type, whether it is a primary key, whether it is
  unique, and its default.\<close>

record entity_column =
  ec_name :: string
  ec_type :: col_type
  ec_primary :: bool
  ec_unique :: bool
  ec_default :: "col_opt option"

definition plain_column :: "string \<Rightarrow> col_type \<Rightarrow> entity_column" where
  "plain_column n ty = \<lparr>ec_name = n, ec_type = ty, ec_primary = False, ec_unique = False, ec_default = None\<rparr>"

definition CreateDateColumn :: entity_column where
  "CreateDateColumn = (plain_column ''created_at'' TIMESTAMP)\<lparr>ec_default := Some DefaultNow\<rparr>"

definition Order_entity :: "entity_column list" where
  "Order_entity =
     [(plain_column ''id'' UUID)\<lparr>ec_primary := True, ec_default := Some DefaultUuid\<rparr>,
      plain_column ''user_id'' UUID,
      plain_column ''amount'' NUMERIC_12_2,
      plain_column ''description'' (VARCHAR None),
      (plain_column ''status'' (VARCHAR None))\<lparr>ec_default := Some (DefaultText ''CREATED'')\<rparr>,
      CreateDateColumn]"

definition IdempotencyKey_entity :: "entity_column list" where
  "IdempotencyKey_entity =
     [(plain_column ''key'' (VARCHAR (Some 200)))\<lparr>ec_primary := True\<rparr>, plain_column ''order_id'' UUID, CreateDateColumn]"

definition User_entity :: "entity_column list" where
  "User_entity =
     [(plain_column ''id'' UUID)\<lparr>ec_primary := True\<rparr>,
      (plain_column ''email'' (VARCHAR None))\<lparr>ec_unique := True\<rparr>,
      plain_column ''name'' (VARCHAR None),
      CreateDateColumn]"

text \<open>A declared column serves an entity's: same name and type, not null, primary or unique where the entity says so and
  only there, and with the default the entity leaves to the database.\<close>

definition column_serves :: "entity_column \<Rightarrow> column \<Rightarrow> bool" where
  "column_serves e c \<longleftrightarrow>
     ec_name e = col_name c \<and> ec_type e = col_type c
     \<and> (PrimaryKey \<in> set (col_opts c)) = ec_primary e \<and> (UniqueCol \<in> set (col_opts c)) = ec_unique e
     \<and> (ec_primary e \<or> NotNull \<in> set (col_opts c))
     \<and> (case ec_default e of None \<Rightarrow> True | Some d \<Rightarrow> d \<in> set (col_opts c))"

lemma entities_match_migrations:
  "list_all2 column_serves Order_entity orders_columns"
  "list_all2 column_serves IdempotencyKey_entity idempotency_keys_columns"
  "list_all2 column_serves User_entity users_columns"
  by (simp_all add: column_serves_def Order_entity_def IdempotencyKey_entity_def User_entity_def plain_column_def CreateDateColumn_def
      column_defs)

end
