(* ===== verification/Telemetry.thy ===== *)
theory Telemetry
  imports Consumer_Session
begin

text \<open>
  \<open>telemetry.ts\<close> of the four services: what the OpenTelemetry SDK is configured with, what the process observes of
  itself, and the bounded flush at shutdown. The SDK is a library; its options are data here. The services differ in the
  modules they instrument and in the bound of the flush.
\<close>

section \<open>Configuration of the SDK\<close>

text \<open>The instrumentations; \<open>PgInstrumentation\<close> with its \<open>enhancedDatabaseReporting\<close>.\<close>

datatype instrumentation =
    HttpInstrumentation
  | ExpressInstrumentation
  | NestInstrumentation
  | PgInstrumentation bool
  | AmqplibInstrumentation
  | IORedisInstrumentation
  | UndiciInstrumentation
  | PinoInstrumentation
  | RuntimeNodeInstrumentation

record sdk_options =
  trace_timeoutMillis :: nat
  metric_timeoutMillis :: nat
  exportIntervalMillis :: nat
  metric_exportTimeoutMillis :: nat
  log_timeoutMillis :: nat
  maxQueueSize :: nat
  log_exportTimeoutMillis :: nat
  ignoreIncomingRequestHook :: "string option \<Rightarrow> bool"
  instrumentations :: "instrumentation list"

definition EXPORT_TIMEOUT_MS :: nat where "EXPORT_TIMEOUT_MS = 3000"
definition METRIC_INTERVAL_MS :: nat where "METRIC_INTERVAL_MS = 15000"

text \<open>\<open>isProbe\<close>, and \<open>process.env.OTEL_SDK_DISABLED === 'true'\<close>.\<close>

definition isProbe :: "string option \<Rightarrow> bool" where
  "isProbe u = (case u of Some s \<Rightarrow> s = ''/health'' \<or> prefix ''/health/'' s | None \<Rightarrow> False)"

definition disabled :: "string option \<Rightarrow> bool" where
  "disabled v = (v = Some ''true'')"

definition sdk_with :: "instrumentation list \<Rightarrow> sdk_options" where
  "sdk_with is =
     \<lparr>trace_timeoutMillis = EXPORT_TIMEOUT_MS, metric_timeoutMillis = EXPORT_TIMEOUT_MS,
      exportIntervalMillis = METRIC_INTERVAL_MS, metric_exportTimeoutMillis = EXPORT_TIMEOUT_MS,
      log_timeoutMillis = EXPORT_TIMEOUT_MS, maxQueueSize = 2048, log_exportTimeoutMillis = EXPORT_TIMEOUT_MS,
      ignoreIncomingRequestHook = isProbe, instrumentations = is\<rparr>"

text \<open>The variable \<open>sdk\<close> of each service: none when telemetry is switched off.\<close>

definition order_sdk :: "string option \<Rightarrow> sdk_options option" where
  "order_sdk v =
     (if disabled v then None
      else Some (sdk_with [HttpInstrumentation, ExpressInstrumentation, NestInstrumentation, PgInstrumentation False,
        AmqplibInstrumentation, IORedisInstrumentation, UndiciInstrumentation, PinoInstrumentation, RuntimeNodeInstrumentation]))"

definition user_sdk :: "string option \<Rightarrow> sdk_options option" where
  "user_sdk v =
     (if disabled v then None
      else Some (sdk_with [HttpInstrumentation, ExpressInstrumentation, NestInstrumentation, PgInstrumentation False,
        PinoInstrumentation, RuntimeNodeInstrumentation]))"

definition worker_sdk :: "string option \<Rightarrow> sdk_options option" where
  "worker_sdk v =
     (if disabled v then None
      else Some (sdk_with [HttpInstrumentation, ExpressInstrumentation, NestInstrumentation, PgInstrumentation False,
        AmqplibInstrumentation, PinoInstrumentation, RuntimeNodeInstrumentation]))"

definition gateway_sdk :: "string option \<Rightarrow> sdk_options option" where
  "gateway_sdk v =
     (if disabled v then None
      else Some (sdk_with [HttpInstrumentation, ExpressInstrumentation, PinoInstrumentation, RuntimeNodeInstrumentation]))"

text \<open>What the callbacks of the process instruments observe, from the resident set size in bytes and the CPU times in
  microseconds.\<close>

definition observe_process :: "rat \<Rightarrow> rat \<Rightarrow> rat \<Rightarrow> (string \<times> rat \<times> (string \<times> string) list) list" where
  "observe_process rss user system =
     [(''process.memory.usage'', rss, []),
      (''process.cpu.time'', user / 1000000, [(''cpu.mode'', ''user'')]),
      (''process.cpu.time'', system / 1000000, [(''cpu.mode'', ''system'')])]"

section \<open>The flush\<close>

text \<open>\<open>shutdownTelemetry\<close> for a service's bound: nothing to do without an SDK, else the shutdown of the SDK, whose rejection is
  swallowed, raced against a timer.\<close>

definition flush_within :: "nat \<Rightarrow> sdk_options option \<Rightarrow> settle \<Rightarrow> nat" where
  "flush_within bound sdk s =
     (case sdk of
        None \<Rightarrow> 0
      | Some _ \<Rightarrow> (case s of Never \<Rightarrow> bound | Resolves t \<Rightarrow> min t bound | Rejects t _ \<Rightarrow> min t bound))"

text \<open>Order-service's bound; api-gateway and user-service have the same, notification-worker's is in \<open>Consumer_Session\<close>.\<close>

definition ORDER_SHUTDOWN_TIMEOUT_MS :: nat where "ORDER_SHUTDOWN_TIMEOUT_MS = 5000"

lemma flush_within_bound: "flush_within b sdk s \<le> b"
  by (auto simp: flush_within_def split: option.split settle.split)

text \<open>The worker's own definition is the same flush.\<close>

lemma shutdownTelemetry_flush:
  "shutdownTelemetry (map_option (\<lambda>_. s) sdk) = flush_within SHUTDOWN_TIMEOUT_MS sdk s"
  by (simp add: shutdownTelemetry_def flush_within_def split: option.split settle.split)

section \<open>Bounded and discreet\<close>

text \<open>An SDK that cannot stall a service and records no statement parameters and no probes: every export times out before
  the next one is due, and the queue is capped.\<close>

definition sdk_ok :: "sdk_options \<Rightarrow> bool" where
  "sdk_ok s \<longleftrightarrow>
     list_all (\<lambda>t. 0 < t \<and> t < exportIntervalMillis s)
       [trace_timeoutMillis s, metric_timeoutMillis s, metric_exportTimeoutMillis s, log_timeoutMillis s, log_exportTimeoutMillis s]
     \<and> 0 < maxQueueSize s \<and> PgInstrumentation True \<notin> set (instrumentations s)
     \<and> ignoreIncomingRequestHook s (Some ''/health/live'') \<and> ignoreIncomingRequestHook s (Some ''/health/ready'')
     \<and> \<not> ignoreIncomingRequestHook s (Some ''/v1/orders'')"

lemma sdk_with_ok: "PgInstrumentation True \<notin> set is \<Longrightarrow> sdk_ok (sdk_with is)"
  by (simp add: sdk_ok_def sdk_with_def EXPORT_TIMEOUT_MS_def METRIC_INTERVAL_MS_def isProbe_def)

lemma telemetry_is_bounded:
  assumes "sdk \<in> {order_sdk v, user_sdk v, worker_sdk v, gateway_sdk v}"
  shows "sdk = None \<longleftrightarrow> v = Some ''true''" and "\<And>s. sdk = Some s \<Longrightarrow> sdk_ok s"
  using assms
  by (auto simp: order_sdk_def user_sdk_def worker_sdk_def gateway_sdk_def disabled_def intro!: sdk_with_ok split: if_splits)

text \<open>A trace crosses the services: the publisher and the consumer of the events instrument the broker's client, and every
  service instruments its HTTP server.\<close>

lemma traces_continue:
  assumes "order_sdk v = Some a" "worker_sdk v' = Some b" "user_sdk u = Some c" "gateway_sdk u' = Some d"
  shows "AmqplibInstrumentation \<in> set (instrumentations a) \<inter> set (instrumentations b)"
    and "UndiciInstrumentation \<in> set (instrumentations a)"
    and "HttpInstrumentation \<in> set (instrumentations a) \<inter> set (instrumentations b) \<inter> set (instrumentations c) \<inter> set (instrumentations d)"
  using assms
  by (auto simp: order_sdk_def user_sdk_def worker_sdk_def gateway_sdk_def sdk_with_def split: if_splits)

end
