(* ===== verification/Service_Lifecycle.thy ===== *)
theory Service_Lifecycle
  imports Worker_Machine Database_Filter Telemetry
begin

text \<open>
  What the services show to their operator: the health controllers (\<open>health/health.controller.ts\<close> of the four services), the
  requests telemetry and the access log leave out (\<open>telemetry.ts\<close>, \<open>app.module.ts\<close>), and how long a service takes to stop
  (\<open>onModuleDestroy\<close> of its providers, then the flush of \<open>telemetry.lifecycle.ts\<close>). The health library's \<open>check\<close> and the ping of the
  database are parameters.
\<close>

section \<open>Probes\<close>

text \<open>What the access log leaves out (\<open>autoLogging.ignore\<close>).\<close>

definition log_ignores :: "string option \<Rightarrow> bool" where
  "log_ignores u = (case u of Some s \<Rightarrow> prefix ''/health'' s | None \<Rightarrow> False)"

text \<open>An indicator: its name, whether it is up, and the message it adds. \<open>check\<close> runs the indicators and gives the status of
  the response.\<close>

type_synonym indicator = "string \<times> bool \<times> string option"
type_synonym health_check = "indicator list \<Rightarrow> nat"

text \<open>What the documentation of the library says: 200 when every indicator is up, else 503.\<close>

definition terminus :: "health_check \<Rightarrow> bool" where
  "terminus check \<longleftrightarrow> (\<forall>is. check is = (if list_all (\<lambda>(_, up, _). up) is then 200 else 503))"

text \<open>\<open>live\<close> of all four controllers: a constant.\<close>

definition live_answer :: "nat \<times> jsval" where
  "live_answer = (200, JObj [(''status'', JStr ''ok'')])"

text \<open>\<open>pingCheck\<close>: the answer of the database within the time given.\<close>

definition pingCheck :: "(nat \<Rightarrow> bool) \<Rightarrow> string \<Rightarrow> nat \<Rightarrow> indicator" where
  "pingCheck ping name ms = (name, ping ms, None)"

text \<open>\<open>ready\<close> of order-service and user-service, and of notification-worker.\<close>

definition ready :: "health_check \<Rightarrow> (nat \<Rightarrow> bool) \<Rightarrow> nat" where
  "ready check ping = check [pingCheck ping ''database'' 2000]"

definition worker_ready :: "health_check \<Rightarrow> (nat \<Rightarrow> bool) \<Rightarrow> worker \<Rightarrow> nat" where
  "worker_ready check ping w =
     check [pingCheck ping ''database'' 2000,
            if worker_isConnected w then (''consumer'', True, None) else (''consumer'', False, Some ''not consuming'')]"

text \<open>The controllers are \<open>Public\<close>.\<close>

definition health_controller :: decorators where
  "health_controller = Public undecorated"

lemma probes_need_no_token: "canActivate verifier undecorated health_controller req w = (Inr True, w)"
  by (simp add: canActivate_def health_controller_def Public_def undecorated_def override_meta_def return_io_def)

lemma probes_are_not_logged: "isProbe u \<Longrightarrow> log_ignores u"
  by (auto simp: isProbe_def log_ignores_def prefix_def split: option.splits)

text \<open>C20: a worker that reports ready is consuming. In every state the worker can get into, \<open>/health/ready\<close> answers 200 exactly
  if the database answers its ping within two seconds and the service reports a session; the session it
  reports is then the one its loop waits on, on a channel of the connection it holds, the worker is not stopping,
  and no other channel can bring it a message. Otherwise the answer is 503; liveness depends on nothing.\<close>

theorem ready_worker_consumes:
  assumes "terminus check" "wk_reach cfg rows w"
  shows "worker_ready check ping w = (if ping 2000 \<and> worker_isConnected w then 200 else 503)
    \<and> (worker_isConnected w \<longrightarrow> \<not> wk_stopping w
         \<and> (\<exists>c ch. wk_loop w = LAwaitingClose c ch \<and> wk_conn w = Some c \<and> wk_channel w = Some ch
              \<and> wc_conn (wk_chans w ! ch) = c \<and> (\<forall>k. live w k \<longrightarrow> k = ch)))"
proof
  show "worker_ready check ping w = (if ping 2000 \<and> worker_isConnected w then 200 else 503)"
    using assms(1) by (simp add: terminus_def worker_ready_def pingCheck_def)
  show "worker_isConnected w \<longrightarrow> \<not> wk_stopping w
         \<and> (\<exists>c ch. wk_loop w = LAwaitingClose c ch \<and> wk_conn w = Some c \<and> wk_channel w = Some ch
              \<and> wc_conn (wk_chans w ! ch) = c \<and> (\<forall>k. live w k \<longrightarrow> k = ch))"
  proof
    assume conn: "worker_isConnected w"
    then obtain c ch where "wk_loop w = LAwaitingClose c ch" "wk_conn w = Some c" "wk_channel w = Some ch"
      "wc_conn (wk_chans w ! ch) = c" using one_live_session(3) [OF assms(2)] by blast
    moreover have "k = ch" if "live w k" for k
      using one_live_session(2) [OF assms(2) that] \<open>wk_loop w = LAwaitingClose c ch\<close> by (simp add: subscribed_def)
    ultimately show "\<not> wk_stopping w
         \<and> (\<exists>c ch. wk_loop w = LAwaitingClose c ch \<and> wk_conn w = Some c \<and> wk_channel w = Some ch
              \<and> wc_conn (wk_chans w ! ch) = c \<and> (\<forall>k. live w k \<longrightarrow> k = ch))"
      using conn by (auto simp: worker_isConnected_def)
  qed
qed

definition demo_check :: health_check where
  "demo_check is = (if list_all (\<lambda>(_, up, _). up) is then 200 else 503)"

theorem ready_worker_consumes_witness:
  "\<exists>w. wk_reach demo_cfg [] w \<and> worker_ready demo_check (\<lambda>_. True) w = 200"
proof -
  let ?events = "[Loop Bootstrap, Loop Connect, Loop Channel, Loop Prefetched, Loop (Consume ''tag''), Loop Resume]"
  obtain w where run: "wk_run demo_cfg ?events (new_worker []) = Some w" and conn: "worker_isConnected w"
    by (simp add: new_worker_def demo_cfg_def loop_head_def session_ready_def usable_def worker_isConnected_def)
  have "wk_reach demo_cfg [] w" using wk_run_reach [OF wk_reach.start run] .
  moreover have "terminus demo_check" by (simp add: terminus_def demo_check_def)
  ultimately show ?thesis using ready_worker_consumes [of demo_check demo_cfg "[]" w "\<lambda>_. True"] conn by auto
qed

section \<open>Stopping\<close>

text \<open>When a promise that is awaited without a bound settles.\<close>

fun settle_time :: "settle \<Rightarrow> nat option" where
  "settle_time Never = None"
| "settle_time (Resolves t) = Some t"
| "settle_time (Rejects t e) = Some t"

text \<open>\<open>CacheService.onModuleDestroy\<close> awaits \<open>quit\<close>, which the client's \<open>commandTimeout\<close> bounds, and falls back to \<open>disconnect\<close>;
  \<open>EventPublisher.onModuleDestroy\<close> awaits the close of the connection it has and does not race it against a timer. The framework
  runs the hooks of the providers together and waits for all of them, then for the flush.\<close>

definition commandTimeout :: nat where "commandTimeout = 500"

definition cache_destroy_time :: "settle \<Rightarrow> nat" where
  "cache_destroy_time quit = fst (withTimeout quit commandTimeout)"

definition publisher_destroy_time :: "settle option \<Rightarrow> nat option" where
  "publisher_destroy_time conn_close = (case conn_close of None \<Rightarrow> Some 0 | Some s \<Rightarrow> settle_time s)"

definition order_shutdown :: "sdk_options option \<Rightarrow> settle \<Rightarrow> settle option \<Rightarrow> settle \<Rightarrow> nat option" where
  "order_shutdown sdk quit conn_close flush =
     (case publisher_destroy_time conn_close of
        None \<Rightarrow> None
      | Some b \<Rightarrow> Some (max (cache_destroy_time quit) b + flush_within ORDER_SHUTDOWN_TIMEOUT_MS sdk flush))"

lemma settle_time_None: "settle_time s = None \<longleftrightarrow> s = Never"
  by (cases s) auto

text \<open>Order-service's shutdown waits for the broker. It ends if and only if the broker answers the close of the connection
  the publisher holds (if it holds one), however Redis and the collector behave, whose parts take at most half a
  second and five seconds. The close has no bound of its own, unlike in notification-worker, so a broker that
  does not answer keeps the service until it is killed, before its telemetry is flushed.\<close>

lemma order_shutdown_waits_for_the_broker:
  "case order_shutdown sdk quit conn_close flush of
     None \<Rightarrow> conn_close = Some Never
   | Some t \<Rightarrow> conn_close \<noteq> Some Never
       \<and> (case conn_close of
            None \<Rightarrow> t \<le> 5500
          | Some s \<Rightarrow> (\<exists>b. settle_time s = Some b \<and> b \<le> t \<and> t \<le> max 500 b + 5000))"
proof -
  have cache: "cache_destroy_time quit \<le> 500"
    using withTimeout_bound [of quit commandTimeout] by (simp add: cache_destroy_time_def commandTimeout_def)
  have flush: "flush_within ORDER_SHUTDOWN_TIMEOUT_MS sdk flush \<le> 5000"
    using flush_within_bound [of ORDER_SHUTDOWN_TIMEOUT_MS sdk flush] by (simp add: ORDER_SHUTDOWN_TIMEOUT_MS_def)
  show ?thesis
  proof (cases conn_close)
    case None
    with cache flush show ?thesis by (simp add: order_shutdown_def publisher_destroy_time_def)
  next
    case (Some s)
    show ?thesis
    proof (cases "settle_time s")
      case None
      with Some show ?thesis by (simp add: order_shutdown_def publisher_destroy_time_def settle_time_None)
    next
      case (Some b)
      with \<open>conn_close = Some s\<close> cache flush settle_time_None [of s] show ?thesis
        by (auto simp: order_shutdown_def publisher_destroy_time_def)
    qed
  qed
qed

end
