(* ===== verification/Auth_Module.thy ===== *)
theory Auth_Module
  imports Token_Verifier Env_Config Request_Path
begin

text \<open>
  How the services get their verifier: \<open>remoteKeys\<close> of \<open>token-verifier.ts\<close>, the provider of \<open>auth/auth.module.ts\<close> (the
  same in order-service, user-service and notification-worker) and \<open>AppModule.configure\<close> of api-gateway, each from a
  validated environment. The token library's \<open>jwtVerify\<close> and \<open>createRemoteJWKSet\<close> and the platform's URL parser
  are parameters. What \<open>jwtVerify\<close> answers depends on the clock and on the keys a process holds or can fetch: the parameter stands for the
  library in one process at the moment of one call, and where two processes or two moments meet there are two of them.
\<close>

section \<open>Wiring\<close>

record jwks_options =
  timeoutDuration :: int
  cacheMaxAge :: int
  cooldownDuration :: int

type_synonym 'k create_jwks = "string \<Rightarrow> jwks_options \<Rightarrow> 'k"

text \<open>\<open>remoteKeys\<close>; \<open>new URL(url)\<close> throws where the parser refuses the text. The last argument has a default.\<close>

definition remoteKeys :: "'k create_jwks \<Rightarrow> (string \<Rightarrow> bool) \<Rightarrow> string \<Rightarrow> int \<Rightarrow> int \<Rightarrow> int \<Rightarrow> thrown + 'k" where
  "remoteKeys createRemoteJWKSet url_ok u timeoutMs cacheSeconds cooldownMs =
     (if url_ok u
      then Inr (createRemoteJWKSet u
        \<lparr>timeoutDuration = timeoutMs, cacheMaxAge = cacheSeconds * 1000, cooldownDuration = cooldownMs\<rparr>)
      else Inl (error_of PlainError ''Invalid URL''))"

definition default_cooldownMs :: int where
  "default_cooldownMs = 30000"

text \<open>The factory of the provider \<open>TokenVerifier\<close>.\<close>

definition auth_module ::
  "'k jwt_verify \<Rightarrow> 'k create_jwks \<Rightarrow> (string \<Rightarrow> bool) \<Rightarrow> auth_env \<Rightarrow> thrown + (string \<Rightarrow> thrown + principal)" where
  "auth_module jwtVerify createRemoteJWKSet url_ok config =
     and_then (remoteKeys createRemoteJWKSet url_ok (AUTH_JWKS_URL config) (AUTH_JWKS_TIMEOUT_MS config)
         (AUTH_JWKS_CACHE_SECONDS config) default_cooldownMs) (\<lambda>keys.
       Inr (verify jwtVerify keys
         \<lparr>issuer = AUTH_ISSUER config, audience = AUTH_AUDIENCE config,
          clockToleranceSeconds = AUTH_CLOCK_TOLERANCE_SECONDS config\<rparr>))"

text \<open>\<open>AppModule.configure\<close> of the gateway: the configuration its handlers get.\<close>

definition configure ::
  "'k jwt_verify \<Rightarrow> 'k create_jwks \<Rightarrow> (string \<Rightarrow> bool) \<Rightarrow> gateway_env \<Rightarrow> thrown + gw_config" where
  "configure jwtVerify createRemoteJWKSet url_ok config =
     and_then (remoteKeys createRemoteJWKSet url_ok (AUTH_JWKS_URL (ge_auth config)) (AUTH_JWKS_TIMEOUT_MS (ge_auth config))
         (AUTH_JWKS_CACHE_SECONDS (ge_auth config)) default_cooldownMs) (\<lambda>keys.
       Inr \<lparr>routes = gateway_routes (ge_USER_SERVICE_URL config) (ge_ORDER_SERVICE_URL config) (ge_NOTIFICATION_WORKER_URL config),
            upstreamTimeoutMs = ge_UPSTREAM_TIMEOUT_MS config,
            gw_verifier = verify jwtVerify keys
              \<lparr>issuer = AUTH_ISSUER (ge_auth config), audience = AUTH_AUDIENCE (ge_auth config),
               clockToleranceSeconds = AUTH_CLOCK_TOLERANCE_SECONDS (ge_auth config)\<rparr>\<rparr>)"

section \<open>A service that starts can verify tokens\<close>

lemma auth_module_started:
  assumes "auth_env_ok url_ok a"
  shows "auth_module jv create url_ok a = Inr (verify jv
    (create (AUTH_JWKS_URL a) \<lparr>timeoutDuration = AUTH_JWKS_TIMEOUT_MS a, cacheMaxAge = AUTH_JWKS_CACHE_SECONDS a * 1000,
       cooldownDuration = 30000\<rparr>)
    \<lparr>issuer = AUTH_ISSUER a, audience = AUTH_AUDIENCE a, clockToleranceSeconds = AUTH_CLOCK_TOLERANCE_SECONDS a\<rparr>)"
  using assms by (simp add: auth_module_def remoteKeys_def auth_env_ok_def default_cooldownMs_def and_then_def)

lemma configure_verifier:
  "configure jv create url_ok g = Inr gcfg \<Longrightarrow> auth_module jv create url_ok (ge_auth g) = Inr (gw_verifier gcfg)"
  by (auto simp: configure_def auth_module_def and_then_def split: sum.splits)

text \<open>A service that passes its start-up checks can verify tokens, within bounds. Building the verifier does not
  throw; it asks the token library for the configured issuer and audience, neither of them empty, with at
  most a minute of clock tolerance; its keys come from the configured URL, a fetch takes at most 30 seconds,
  keys are kept for at least a second and at most a day, and unknown keys cause at most one fetch in 30
  seconds.\<close>

lemma started_service_verifies:
  assumes "validateAuthEnv url_ok raw = Inr a"
  shows "\<exists>jwks opts. auth_module jwtVerify createRemoteJWKSet url_ok a =
      Inr (verify jwtVerify (createRemoteJWKSet (AUTH_JWKS_URL a) jwks) opts)
    \<and> raw ''AUTH_ISSUER'' = JStr (issuer opts) \<and> issuer opts \<noteq> []
    \<and> raw ''AUTH_AUDIENCE'' = JStr (audience opts) \<and> audience opts \<noteq> []
    \<and> 1 \<le> clockToleranceSeconds opts \<and> clockToleranceSeconds opts \<le> 60
    \<and> 1 \<le> timeoutDuration jwks \<and> timeoutDuration jwks \<le> 30000
    \<and> 1000 \<le> cacheMaxAge jwks \<and> cacheMaxAge jwks \<le> 24 * 60 * 60 * 1000 \<and> cooldownDuration jwks = 30000"
proof -
  have ok: "auth_env_ok url_ok a" using assms by (rule validateAuthEnv_ok)
  have "raw ''AUTH_ISSUER'' = JStr (AUTH_ISSUER a)" "raw ''AUTH_AUDIENCE'' = JStr (AUTH_AUDIENCE a)"
    using assms by (auto simp: validateAuthEnv_def and_then_Inr dest!: required_InrD split: if_splits)
  with auth_module_started [OF ok] ok show ?thesis
    by (intro exI [of _ "\<lparr>timeoutDuration = AUTH_JWKS_TIMEOUT_MS a, cacheMaxAge = AUTH_JWKS_CACHE_SECONDS a * 1000,
         cooldownDuration = 30000\<rparr>"]
        exI [of _ "\<lparr>issuer = AUTH_ISSUER a, audience = AUTH_AUDIENCE a, clockToleranceSeconds = AUTH_CLOCK_TOLERANCE_SECONDS a\<rparr>"])
      (simp add: auth_env_ok_def)
qed

lemma started_service_verifies_demo:
  "\<exists>a opts. validateAuthEnv (\<lambda>_. True) demo_worker_env = Inr a
     \<and> auth_module demo_jwt (\<lambda>_ _. ()) (\<lambda>_. True) a = Inr (verify demo_jwt () (opts :: verifier_options))
     \<and> 1 \<le> clockToleranceSeconds opts \<and> clockToleranceSeconds opts \<le> 60"
proof -
  obtain a where a: "validateAuthEnv (\<lambda>_. True) demo_worker_env = Inr a" using demo_auth_env by blast
  from started_service_verifies [where jwtVerify = demo_jwt and createRemoteJWKSet = "\<lambda>_ _. ()", OF a] a show ?thesis by blast
qed

section \<open>The gateway and the services agree\<close>

text \<open>The question both put to the library: the keys of the configured URL, RS256, the configured issuer and audience, the
  tolerance, and a subject and an expiry.\<close>

definition library_verdict :: "'k jwt_verify \<Rightarrow> 'k create_jwks \<Rightarrow> auth_env \<Rightarrow> string \<Rightarrow> thrown + jsval" where
  "library_verdict jwtVerify createRemoteJWKSet a t =
     jwtVerify t
       (createRemoteJWKSet (AUTH_JWKS_URL a)
          \<lparr>timeoutDuration = AUTH_JWKS_TIMEOUT_MS a, cacheMaxAge = AUTH_JWKS_CACHE_SECONDS a * 1000, cooldownDuration = 30000\<rparr>)
       \<lparr>jwt_issuer = AUTH_ISSUER a, jwt_audience = AUTH_AUDIENCE a, algorithms = [''RS256''],
        clockTolerance = AUTH_CLOCK_TOLERANCE_SECONDS a, requiredClaims = [''sub'', ''exp'']\<rparr>"

text \<open>Documented of the library: the payload of a token it accepts is the claims set the token carries.\<close>

definition returns_claims :: "'k jwt_verify \<Rightarrow> (string \<Rightarrow> jsval) \<Rightarrow> bool" where
  "returns_claims jwtVerify claims \<longleftrightarrow> (\<forall>t keys opts payload. jwtVerify t keys opts = Inr payload \<longrightarrow> payload = claims t)"

text \<open>The refusal of a service whose library did not accept the token: 401 where the fault is the token's, 503 where it could not
  be judged.\<close>

fun token_refusal :: "thrown \<Rightarrow> thrown" where
  "token_refusal (Thrown c co cn m d ca) =
     (if token_fault c then http_exception 401 ''Invalid or missing token''
      else http_exception 503 ''Authentication is temporarily unavailable'')"
| "token_refusal (Falsy s) = http_exception 503 ''Authentication is temporarily unavailable''"

lemma verify_library:
  assumes "auth_module jv create url_ok a = Inr verifier"
  shows "verifier t = (case library_verdict jv create a t of Inl err \<Rightarrow> Inl (classify err) | Inr payload \<Rightarrow> principal_of payload)"
  using assms
  by (auto simp: auth_module_def and_then_Inr remoteKeys_def default_cooldownMs_def verify_def library_verdict_def jwt_options_of_def
      split: if_splits)

lemma refused_token: "fst (reject_unverified rid (classify err) h) = Inl (token_refusal err)"
proof (cases err)
  case (Thrown c co cn m d ca)
  have inv: "fst (reject_unverified rid (token_invalid r) h) = Inl (http_exception 401 ''Invalid or missing token'')" for r
    by (simp add: token_invalid_def error_of_def guard_defs)
  have key: "fst (reject_unverified rid (keys_unavailable k) h) = Inl (http_exception 503 ''Authentication is temporarily unavailable'')" for k
    by (simp add: keys_unavailable_def error_of_def guard_defs)
  from classify_cases [of err] Thrown inv key show ?thesis by auto
qed (simp add: keys_unavailable_def error_of_def guard_defs)

text \<open>C14: what the gateway lets through, the services judge by the same rules. If the gateway and a service start with the same
  authentication variables, both put the same question about the token of a forwarded request to their token library. If the
  library in the service, with its own keys and at its own time, accepts the token too, the request passes the service's guard
  as the principal the gateway saw, unless the route asks for a role that principal does not have, which is a 403. If it does
  not, the service answers 401 when the fault is the token's (it expired meanwhile) and 503 when its keys cannot be had. No request
  passes as another principal.\<close>

theorem forwarded_request_is_accepted:
  assumes "configure jv1 create1 url_ok g = Inr (gw_cfg env)" "auth_module jv2 create2 url_ok (ge_auth g) = Inr verifier"
    and "returns_claims jv1 claims" "returns_claims jv2 claims"
    and "fate env (req\<lparr>gw_assigned_id := Some i\<rparr>) = Sent fw" "i \<noteq> []"
    and "override_meta (public_meta meta) (public_meta cl) \<noteq> Some True"
  shows "\<exists>t p. gw_token req = Some t \<and> library_verdict jv1 create1 (ge_auth g) t = Inr (claims t) \<and> principal_of (claims t) = Inr p
    \<and> (case library_verdict jv2 create2 (ge_auth g) t of
         Inr _ \<Rightarrow> (case canActivate verifier meta cl (upstream_request fresh fw meth path) h of
             (Inr _, h') \<Rightarrow> req_principal h' = Some p
           | (Inl e, _) \<Rightarrow> e = http_exception 403 ''Forbidden''
               \<and> (\<exists>rs. override_meta (roles_meta meta) (roles_meta cl) = Some rs \<and> (\<forall>r\<in>set rs. r \<notin> set (roles p))))
       | Inl err \<Rightarrow> fst (canActivate verifier meta cl (upstream_request fresh fw meth path) h) = Inl (token_refusal err))"
proof -
  obtain t p where t: "gw_token req = Some t" "gw_verifier (gw_cfg env) t = Inr p"
    using forwarded_request_seen(3) [OF assms(5,6)] by (auto simp: token_verdict_def)
  then obtain pl where pl: "library_verdict jv1 create1 (ge_auth g) t = Inr pl" "principal_of pl = Inr p"
    using verify_library [OF configure_verifier [OF assms(1)], of t] by (auto split: sum.splits)
  then have claims: "pl = claims t" using assms(3) unfolding returns_claims_def library_verdict_def by blast
  note guarded = forwarded_request_guarded [OF assms(5-7) t(1), of verifier]
  have "case library_verdict jv2 create2 (ge_auth g) t of
         Inr _ \<Rightarrow> (case canActivate verifier meta cl (upstream_request fresh fw meth path) h of
             (Inr _, h') \<Rightarrow> req_principal h' = Some p
           | (Inl e, _) \<Rightarrow> e = http_exception 403 ''Forbidden''
               \<and> (\<exists>rs. override_meta (roles_meta meta) (roles_meta cl) = Some rs \<and> (\<forall>r\<in>set rs. r \<notin> set (roles p))))
       | Inl err \<Rightarrow> fst (canActivate verifier meta cl (upstream_request fresh fw meth path) h) = Inl (token_refusal err)"
  proof (cases "library_verdict jv2 create2 (ge_auth g) t")
    case (Inl err)
    then have "verifier t = Inl (classify err)" using verify_library [OF assms(2), of t] by simp
    with Inl show ?thesis by (simp add: guarded(2) refused_token)
  next
    case (Inr pl2)
    then have "pl2 = claims t" using assms(4) unfolding returns_claims_def library_verdict_def by blast
    then have "verifier t = Inr p" using Inr verify_library [OF assms(2), of t] pl claims by simp
    from guarded(1) [OF this, of fresh meth path h] Inr show ?thesis by simp
  qed
  with t(1) pl claims show ?thesis by blast
qed

definition demo_gateway_env :: gateway_env where
  "demo_gateway_env = \<lparr>ge_PORT = 3000, ge_LOG_LEVEL = ''info'', ge_USER_SERVICE_URL = ''http://user-service:3000'',
     ge_ORDER_SERVICE_URL = ''http://order-service:3000'', ge_NOTIFICATION_WORKER_URL = ''http://worker:3000'',
     ge_UPSTREAM_TIMEOUT_MS = 10000, ge_RATE_LIMIT_PER_MINUTE = 120,
     ge_auth = \<lparr>AUTH_ISSUER = ''http://idp/realms/lab'', AUTH_AUDIENCE = ''platform-api'', AUTH_JWKS_URL = ''http://idp/certs'',
       AUTH_JWKS_TIMEOUT_MS = 2000, AUTH_JWKS_CACHE_SECONDS = 3600, AUTH_CLOCK_TOLERANCE_SECONDS = 5\<rparr>\<rparr>"

definition demo_configured :: gw_env where
  "demo_configured = demo_gw_env\<lparr>gw_cfg :=
     (case configure demo_jwt (\<lambda>_ _. ()) (\<lambda>_. True) demo_gateway_env of Inr c \<Rightarrow> c | Inl _ \<Rightarrow> gw_cfg demo_gw_env)\<rparr>"

definition expired_jwt :: "unit jwt_verify" where
  "expired_jwt t keys opts = Inl (error_of JWTExpired ''token expired'')"

theorem forwarded_request_is_accepted_witness:
  "\<exists>p verifier. auth_module expired_jwt (\<lambda>_ _. ()) (\<lambda>_. True) (ge_auth demo_gateway_env) = Inr verifier
    \<and> gw_verifier (gw_cfg demo_configured) ''good'' = Inr p
    \<and> fst (canActivate verifier orders_controller_roles undecorated
      (upstream_request ''u'' (forward_of (identified demo_configured (demo_gw_request\<lparr>gw_assigned_id := Some ''abc''\<rparr>))
         ''http://order-service:3000'') ''POST'' ''/v1/orders'') empty_ctx) = Inl (http_exception 401 ''Invalid or missing token'')"
proof -
  let ?fw = "forward_of (identified demo_configured (demo_gw_request\<lparr>gw_assigned_id := Some ''abc''\<rparr>)) ''http://order-service:3000''"
  let ?claims = "\<lambda>_ :: string. demo_payload"
  have c: "configure demo_jwt (\<lambda>_ _. ()) (\<lambda>_. True) demo_gateway_env = Inr (gw_cfg demo_configured)"
    by (simp add: demo_configured_def configure_def remoteKeys_def and_then_def)
  obtain v where v: "auth_module expired_jwt (\<lambda>_ _. ()) (\<lambda>_. True) (ge_auth demo_gateway_env) = Inr v"
    by (simp add: auth_module_def remoteKeys_def)
  have f: "fate demo_configured (demo_gw_request\<lparr>gw_assigned_id := Some ''abc''\<rparr>) = Sent ?fw" by code_simp
  have d: "returns_claims demo_jwt ?claims" "returns_claims expired_jwt ?claims"
    by (auto simp: returns_claims_def demo_jwt_def expired_jwt_def split: if_splits)
  have g: "gw_verifier (gw_cfg demo_configured) ''good'' = Inr \<lparr>sub = ''3f6c1c2e-8a3b-4f0e-9d55-0c1d2e3f4a5b'', roles = [''customer'']\<rparr>"
    by code_simp
  have "library_verdict expired_jwt (\<lambda>_ _. ()) (ge_auth demo_gateway_env) t = Inl (error_of JWTExpired ''token expired'')" for t
    by (simp add: library_verdict_def expired_jwt_def)
  with forwarded_request_is_accepted [OF c v d f _ orders_protected(1), of "''u''" "''POST''" "''/v1/orders''" empty_ctx] v g
  show ?thesis by (auto simp: error_of_def token_fault_def)
qed

end
