(* ===== verification/App_Modules.thy ===== *)
theory App_Modules
  imports Request_Path Schema Service_Lifecycle Auth_Module
begin

text \<open>
  How the services are put together: the modules (\<open>app.module.ts\<close>, \<open>orders.module.ts\<close>, \<open>users.module.ts\<close>, \<open>auth.module.ts\<close>) as trees of
  imports, controllers and providers, the routes their controllers declare, the global guard and filter, and what
  \<open>main.ts\<close> sets up: the validation of bodies, the options of the process and the order of starting up. The framework is a
  parameter: a guard registered as \<open>APP_GUARD\<close> runs before every route of the application, and a pipe set as global
  sees every body; \<open>pipe_documented\<close> is what the documentation says of \<open>ValidationPipe\<close>.
\<close>

section \<open>Modules\<close>

datatype controller = HealthController | OrdersController | UsersController | NotificationsController

datatype provider =
    OrdersService
  | UserDirectory
  | CacheService
  | EventPublisher
  | UsersService
  | NotificationsService
  | ConsumerService
  | TokenVerifierProvider
  | APP_GUARD_AuthGuard
  | APP_FILTER_DatabaseUnavailable
  | TelemetryLifecycle

datatype nest_module = Nest_Module (imports_of: "nest_module list") (controllers_of: "controller list") (providers_of: "provider list")

fun all_providers :: "nest_module \<Rightarrow> provider list" where
  "all_providers (Nest_Module ms cs ps) = ps @ concat (map all_providers ms)"

fun all_controllers :: "nest_module \<Rightarrow> controller list" where
  "all_controllers (Nest_Module ms cs ps) = cs @ concat (map all_controllers ms)"

definition AuthModule :: nest_module where
  "AuthModule = Nest_Module [] [] [TokenVerifierProvider, APP_GUARD_AuthGuard]"

definition OrdersModule :: nest_module where
  "OrdersModule = Nest_Module [] [OrdersController] [OrdersService, UserDirectory, CacheService, EventPublisher]"

definition UsersModule :: nest_module where
  "UsersModule = Nest_Module [] [UsersController] [UsersService]"

definition order_AppModule :: nest_module where
  "order_AppModule = Nest_Module [AuthModule, OrdersModule] [HealthController] [APP_FILTER_DatabaseUnavailable, TelemetryLifecycle]"

definition user_AppModule :: nest_module where
  "user_AppModule = Nest_Module [AuthModule, UsersModule] [HealthController] [APP_FILTER_DatabaseUnavailable, TelemetryLifecycle]"

definition worker_AppModule :: nest_module where
  "worker_AppModule = Nest_Module [AuthModule] [HealthController, NotificationsController]
     [NotificationsService, ConsumerService, APP_FILTER_DatabaseUnavailable, TelemetryLifecycle]"

definition gateway_AppModule :: nest_module where
  "gateway_AppModule = Nest_Module [] [HealthController] [TelemetryLifecycle]"

section \<open>Routes\<close>

text \<open>A route: its method and path, the decorators of the handler and those of its class.\<close>

record endpoint =
  ep_method :: string
  ep_path :: string
  ep_handler :: decorators
  ep_class :: decorators

fun endpoints :: "controller \<Rightarrow> endpoint list" where
  "endpoints HealthController =
     [\<lparr>ep_method = ''GET'', ep_path = ''/health/live'', ep_handler = undecorated, ep_class = health_controller\<rparr>,
      \<lparr>ep_method = ''GET'', ep_path = ''/health/ready'', ep_handler = undecorated, ep_class = health_controller\<rparr>]"
| "endpoints OrdersController =
     [\<lparr>ep_method = ''POST'', ep_path = ''/v1/orders'', ep_handler = orders_controller_roles, ep_class = undecorated\<rparr>,
      \<lparr>ep_method = ''GET'', ep_path = ''/v1/orders/:id'', ep_handler = orders_controller_roles, ep_class = undecorated\<rparr>]"
| "endpoints UsersController =
     [\<lparr>ep_method = ''POST'', ep_path = ''/v1/users'', ep_handler = users_post_roles, ep_class = undecorated\<rparr>,
      \<lparr>ep_method = ''GET'', ep_path = ''/v1/users/:id'', ep_handler = users_get_roles, ep_class = undecorated\<rparr>]"
| "endpoints NotificationsController =
     [\<lparr>ep_method = ''GET'', ep_path = ''/v1/notifications'', ep_handler = notifications_controller_roles, ep_class = undecorated\<rparr>]"

definition app_endpoints :: "nest_module \<Rightarrow> endpoint list" where
  "app_endpoints m = concat (map endpoints (all_controllers m))"

text \<open>Admission to a route: the guard, where the application registers one.\<close>

definition admit ::
  "nest_module \<Rightarrow> (string \<Rightarrow> thrown + principal) \<Rightarrow> endpoint \<Rightarrow> auth_request \<Rightarrow> (http_ctx, bool) io" where
  "admit m verifier ep req =
     (if APP_GUARD_AuthGuard \<in> set (all_providers m) then canActivate verifier (ep_handler ep) (ep_class ep) req
      else return_io True)"

definition required_roles :: "endpoint \<Rightarrow> string list option" where
  "required_roles ep = override_meta (roles_meta (ep_handler ep)) (roles_meta (ep_class ep))"

definition is_probe_path :: "endpoint \<Rightarrow> bool" where
  "is_probe_path ep \<longleftrightarrow> ep_path ep \<in> {''/health/live'', ''/health/ready''}"

definition backends :: "nest_module list" where
  "backends = [order_AppModule, user_AppModule, worker_AppModule]"

lemmas module_defs = order_AppModule_def user_AppModule_def worker_AppModule_def AuthModule_def OrdersModule_def UsersModule_def

lemma backends_guarded: "m \<in> set backends \<Longrightarrow> APP_GUARD_AuthGuard \<in> set (all_providers m)"
  by (auto simp: backends_def module_defs)

text \<open>The table of routes, decided once: every route is a probe without a token, or asks for one of known roles.\<close>

lemma endpoint_table:
  assumes "m \<in> set backends" "ep \<in> set (app_endpoints m)"
  shows "if is_probe_path ep
    then override_meta (public_meta (ep_handler ep)) (public_meta (ep_class ep)) = Some True
    else override_meta (public_meta (ep_handler ep)) (public_meta (ep_class ep)) \<noteq> Some True
      \<and> (\<exists>rs. required_roles ep = Some rs \<and> rs \<noteq> [] \<and> set rs \<subseteq> {''customer'', ''admin''})"
  using assms
  by (auto simp: backends_def module_defs app_endpoints_def is_probe_path_def required_roles_def override_meta_def undecorated_def
      health_controller_def Public_def Roles_def orders_controller_roles_def users_post_roles_def users_get_roles_def
      notifications_controller_roles_def)

text \<open>C22: no route is left open. In all three services behind the gateway, the two health probes need no token, and every
  other route a controller declares admits a request only if the verifier accepted its bearer token for a principal with one of
  the route's roles, which are customer and admin; the principal is then the one the handler sees.\<close>

theorem no_route_left_open:
  assumes "m \<in> set backends" "ep \<in> set (app_endpoints m)"
  shows "if is_probe_path ep then admit m verifier ep req h = (Inr True, h)
    else (\<exists>rs. required_roles ep = Some rs \<and> rs \<noteq> [] \<and> set rs \<subseteq> {''customer'', ''admin''}
      \<and> (case admit m verifier ep req h of
           (Inr _, h') \<Rightarrow> \<exists>p. guard_accepts verifier (Some rs) req p \<and> req_principal h' = Some p
         | (Inl e, _) \<Rightarrow> (\<forall>p. \<not> guard_accepts verifier (Some rs) req p) \<and> status_of e \<in> {401, 403, 503}))"
proof (cases "is_probe_path ep")
  case True
  with endpoint_table [OF assms] backends_guarded [OF assms(1)] show ?thesis
    by (simp add: admit_def canActivate_def return_io_def)
next
  case False
  with endpoint_table [OF assms] obtain rs where
    protected: "override_meta (public_meta (ep_handler ep)) (public_meta (ep_class ep)) \<noteq> Some True"
    and rs: "required_roles ep = Some rs" "rs \<noteq> []" "set rs \<subseteq> {''customer'', ''admin''}" by auto
  from protected have "case admit m verifier ep req h of
       (Inr _, h') \<Rightarrow> \<exists>p. guard_accepts verifier (Some rs) req p \<and> req_principal h' = Some p
     | (Inl e, _) \<Rightarrow> (\<forall>p. \<not> guard_accepts verifier (Some rs) req p) \<and> status_of e \<in> {401, 403, 503}"
  proof (cases rule: canActivate_cases [where v = verifier and req = req and w = h])
    case (passes p)
    with rs(1) backends_guarded [OF assms(1)] show ?thesis by (auto simp: admit_def required_roles_def)
  next
    case (refused st m' h')
    with rs(1) backends_guarded [OF assms(1)] show ?thesis by (auto simp: admit_def required_roles_def)
  qed
  with False rs show ?thesis by auto
qed

theorem no_route_left_open_witness:
  "\<exists>rs. required_roles (hd (endpoints OrdersController)) = Some rs \<and> rs \<noteq> []"
  using no_route_left_open [of order_AppModule "hd (endpoints OrdersController)"]
  by (simp add: backends_def app_endpoints_def module_defs is_probe_path_def) blast

section \<open>Bodies\<close>

text \<open>The global pipe of \<open>main.ts\<close> and the rules the decorators of a DTO give it, per property.\<close>

record pipe_options =
  whitelist :: bool
  forbidNonWhitelisted :: bool

definition global_pipe :: pipe_options where
  "global_pipe = \<lparr>whitelist = True, forbidNonWhitelisted = True\<rparr>"

type_synonym body_rules = "(string \<times> (jsval \<Rightarrow> bool) list) list"
type_synonym validation_pipe = "pipe_options \<Rightarrow> body_rules \<Rightarrow> jsval \<Rightarrow> thrown + jsval"

definition keeps_rules :: "body_rules \<Rightarrow> jsval \<Rightarrow> bool" where
  "keeps_rules rules body \<longleftrightarrow> list_all (\<lambda>(k, vs). list_all (\<lambda>v. v (js_get body k)) vs) rules"

text \<open>Documented of the pipe, for a body that is an object: with both options a property without a rule is an error, a rule that
  does not hold is an error, and the whitelist drops what has no rule.\<close>

definition pipe_documented :: "validation_pipe \<Rightarrow> bool" where
  "pipe_documented pipe \<longleftrightarrow>
     (\<forall>opts rules ps. pipe opts rules (JObj ps) =
        (if whitelist opts \<and> forbidNonWhitelisted opts \<and> \<not> fst ` set ps \<subseteq> fst ` set rules
           then Inl (http_exception 400 ''Bad Request'')
         else if \<not> keeps_rules rules (JObj ps) then Inl (http_exception 400 ''Bad Request'')
         else Inr (JObj (if whitelist opts then filter (\<lambda>(k, _). k \<in> fst ` set rules) ps else ps))))"

fun on_string :: "(string \<Rightarrow> bool) \<Rightarrow> jsval \<Rightarrow> bool" where
  "on_string f (JStr s) = f s"
| "on_string f _ = False"

fun on_number :: "(rat \<Rightarrow> bool) \<Rightarrow> jsval \<Rightarrow> bool" where
  "on_number f (JNum (Fin x)) = f x"
| "on_number f _ = False"

text \<open>\<open>IsNotEmpty\<close> refuses the empty string, \<open>null\<close> and \<open>undefined\<close> only.\<close>

fun on_nonempty :: "(string \<Rightarrow> bool) \<Rightarrow> jsval \<Rightarrow> bool" where
  "on_nonempty f (JStr s) = f s"
| "on_nonempty f JUndefined = False"
| "on_nonempty f JNull = False"
| "on_nonempty f _ = True"

definition CreateOrderDto_rules :: "validators \<Rightarrow> body_rules" where
  "CreateOrderDto_rules v =
     [(''userId'', [on_string (isUUID v)]),
      (''amount'', [on_number (isNumberMaxDecimals v 2), on_number (isPositive v), on_number (isMax v 1000000)]),
      (''description'', [on_string (\<lambda>_. True), on_nonempty (isNotEmpty v), on_string (isMaxLength v 500)])]"

record user_validators = validators +
  isEmail :: "string \<Rightarrow> bool"

definition CreateUserDto_rules :: "user_validators \<Rightarrow> body_rules" where
  "CreateUserDto_rules v =
     [(''id'', [on_string (isUUID v)]),
      (''email'', [on_string (isEmail v), on_string (isMaxLength v 254)]),
      (''name'', [on_nonempty (isNotEmpty v), on_string (isMaxLength v 200)])]"

text \<open>The body as the handler reads it.\<close>

fun string_value :: "jsval \<Rightarrow> string" where
  "string_value (JStr s) = s"
| "string_value _ = []"

fun number_value :: "jsval \<Rightarrow> rat" where
  "number_value (JNum (Fin x)) = x"
| "number_value _ = 0"

definition order_body :: "jsval \<Rightarrow> create_order_dto" where
  "order_body b = \<lparr>dto_userId = string_value (js_get b ''userId''), dto_amount = number_value (js_get b ''amount''),
     dto_description = string_value (js_get b ''description'')\<rparr>"

definition user_body :: "jsval \<Rightarrow> create_user_dto" where
  "user_body b = \<lparr>new_id = string_value (js_get b ''id''), new_email = string_value (js_get b ''email''),
     new_name = string_value (js_get b ''name'')\<rparr>"

definition order_body_typed :: "jsval \<Rightarrow> bool" where
  "order_body_typed b \<longleftrightarrow>
     on_string (\<lambda>_. True) (js_get b ''userId'') \<and> on_number (\<lambda>_. True) (js_get b ''amount'') \<and> on_string (\<lambda>_. True) (js_get b ''description'')"

definition CreateUserDto_valid :: "user_validators \<Rightarrow> jsval \<Rightarrow> bool" where
  "CreateUserDto_valid v b \<longleftrightarrow>
     on_string (isUUID v) (js_get b ''id'') \<and> on_string (isEmail v) (js_get b ''email'') \<and> on_string (isMaxLength v 254) (js_get b ''email'')
     \<and> on_string (isNotEmpty v) (js_get b ''name'') \<and> on_string (isMaxLength v 200) (js_get b ''name'')"

text \<open>The two routes that take a body, with the body as it arrives.\<close>

definition POST_orders_body ::
  "(string \<Rightarrow> thrown + principal) \<Rightarrow> validation_pipe \<Rightarrow> validators \<Rightarrow> order_env \<Rightarrow> auth_request \<Rightarrow> jsval \<Rightarrow> string option
   \<Rightarrow> http_ctx \<times> 'z order_world_scheme \<Rightarrow> (nat \<times> order_row option) \<times> (http_ctx \<times> 'z order_world_scheme)" where
  "POST_orders_body verifier pipe v env req body key =
     route verifier orders_controller_roles req (\<lambda>p.
       bind_io (lift_io (pipe global_pipe (CreateOrderDto_rules v) body)) (\<lambda>b.
         orders_post env (order_body b) key (authorization req) p (string_id req)))"

definition POST_users_body ::
  "(string \<Rightarrow> thrown + principal) \<Rightarrow> validation_pipe \<Rightarrow> user_validators \<Rightarrow> user_env \<Rightarrow> auth_request \<Rightarrow> jsval
   \<Rightarrow> ('z user_world_scheme, nat \<times> user_row option) io" where
  "POST_users_body verifier pipe v env req body =
     serve (canActivate verifier users_post_roles undecorated req) (\<lambda>_.
       bind_io (lift_io (pipe global_pipe (CreateUserDto_rules v) body)) (\<lambda>b. users_create env (user_body b)))
       (request_id_of req) 201"

section \<open>Bodies are read strictly\<close>

lemma on_string_and: "on_string f x \<longleftrightarrow> on_string (\<lambda>_. True) x \<and> f (string_value x)"
  by (cases x) auto

lemma on_number_and: "on_number f x \<longleftrightarrow> on_number (\<lambda>_. True) x \<and> f (number_value x)"
  by (cases "(f, x)" rule: on_number.cases) auto

lemma on_nonempty_and: "on_string (\<lambda>_. True) x \<Longrightarrow> on_nonempty f x \<longleftrightarrow> f (string_value x)"
  by (cases x) auto

lemma order_rules_iff: "keeps_rules (CreateOrderDto_rules v) b \<longleftrightarrow> order_body_typed b \<and> CreateOrderDto_valid v (order_body b)"
  by (auto simp: keeps_rules_def CreateOrderDto_rules_def order_body_typed_def CreateOrderDto_valid_def order_body_def
      on_string_and [of "isUUID v"] on_string_and [of "isMaxLength v n" for n] on_number_and [of "isNumberMaxDecimals v n" for n]
      on_number_and [of "isPositive v"] on_number_and [of "isMax v m" for m] on_nonempty_and)

lemma user_rules_iff: "keeps_rules (CreateUserDto_rules v) b \<longleftrightarrow> CreateUserDto_valid v b"
  by (auto simp: keeps_rules_def CreateUserDto_rules_def CreateUserDto_valid_def on_nonempty_and
      on_string_and [of "isNotEmpty v"] on_string_and [of "isMaxLength v n" for n])

lemma strict_pipe:
  assumes "pipe_documented pipe"
  shows "pipe global_pipe rules (JObj ps) =
    (if fst ` set ps \<subseteq> fst ` set rules \<and> keeps_rules rules (JObj ps) then Inr (JObj ps) else Inl (http_exception 400 ''Bad Request''))"
proof -
  have "filter (\<lambda>(k, _). k \<in> fst ` set rules) ps = ps" if "fst ` set ps \<subseteq> fst ` set rules"
    using that by (force simp: filter_id_conv)
  with assms show ?thesis by (simp add: pipe_documented_def global_pipe_def)
qed

lemma order_rule_names: "fst ` set (CreateOrderDto_rules v) = {''userId'', ''amount'', ''description''}"
  by (simp add: CreateOrderDto_rules_def)

lemma user_rule_names: "fst ` set (CreateUserDto_rules v) = {''id'', ''email'', ''name''}"
  by (simp add: CreateUserDto_rules_def)


text \<open>A route whose handler throws before it does anything.\<close>

lemma route_refuses:
  obtains st h' where "route verifier orders_controller_roles req (\<lambda>p. throw_io (http_exception 400 m)) (h, w) = ((st, None), (h', w))"
    "st \<in> {400, 401, 403, 503}"
  by (cases rule: route_cases [of verifier req "\<lambda>p. throw_io (http_exception 400 m)" h w])
    (auto simp: throw_io_def answer_http)

lemma lift_Inl_bind: "bind_io (lift_io (Inl e)) f = throw_io e" "bind_io (lift_io (Inr a)) f = f a"
  by (auto simp: bind_io_def lift_io_def throw_io_def)

lemma users_body_refused:
  fixes w :: "'z user_world_scheme"
  assumes "\<And>p. handler p = throw_io (http_exception 400 m)"
  obtains st w' where "serve (canActivate verifier users_post_roles undecorated req) handler rid ok w = (Inr (st, None), w')"
    "st \<in> {400, 401, 403, 503}" "users_tbl w' = users_tbl w"
  using protected_roles(1)
proof (cases rule: canActivate_cases [where v = verifier and req = req and w = w])
  case (passes p)
  then show thesis
    using that [of 400 "w\<lparr>req_principal := Some p\<rparr>"] filter_catch_run [of rid "http_exception 400 m" "w\<lparr>req_principal := Some p\<rparr>"]
    by (simp add: serve_admitted [where guard = "canActivate verifier users_post_roles undecorated req", OF passes(2)] assms
        throw_io_def)
next
  case (refused st m' w')
  then show thesis
    using that [of st w'] users_tbl_guard [OF refused(3)] by (simp add: serve_refused [where guard = "canActivate verifier users_post_roles undecorated req", OF refused(2)])
qed


text \<open>C23: a body is taken exactly as declared or not at all. With the global pipe, \<open>POST /v1/orders\<close> and \<open>POST /v1/users\<close> handle a body
  that is an object as the typed request the other properties speak of, if it has no property besides the declared ones and
  each has its type; any other object (a property too many, one missing, a string for the amount) is refused with 400
  unless the guard refuses the request before, and nothing changes.\<close>

theorem strict_bodies:
  fixes w :: "'z order_world_scheme" and uw :: "'u user_world_scheme"
  assumes "pipe_documented pipe"
  shows "(if fst ` set ps \<subseteq> {''userId'', ''amount'', ''description''} \<and> order_body_typed (JObj ps)
      then POST_orders_body verifier pipe v env req (JObj ps) key (h, w) = POST_orders verifier v env req (order_body (JObj ps)) key (h, w)
      else (case POST_orders_body verifier pipe v env req (JObj ps) key (h, w) of
              ((st, b), (_, w')) \<Rightarrow> st \<in> {400, 401, 403, 503} \<and> b = None \<and> w' = w))
    \<and> (if fst ` set ps \<subseteq> {''id'', ''email'', ''name''} \<and> CreateUserDto_valid uv (JObj ps)
       then POST_users_body verifier pipe uv uenv req (JObj ps) uw = POST_user verifier uenv req (user_body (JObj ps)) uw
       else (case POST_users_body verifier pipe uv uenv req (JObj ps) uw of
               (Inr (st, b), uw') \<Rightarrow> st \<in> {400, 401, 403, 503} \<and> b = None \<and> users_tbl uw' = users_tbl uw
             | _ \<Rightarrow> False))"
proof
  note pipe = strict_pipe [OF assms]
  let ?ok = "fst ` set ps \<subseteq> {''userId'', ''amount'', ''description''} \<and> order_body_typed (JObj ps)"
  let ?order = "POST_orders_body verifier pipe v env req (JObj ps) key (h, w)"
  have eq: "?order = POST_orders verifier v env req (order_body (JObj ps)) key (h, w)" if ?ok
    using that by (simp add: POST_orders_body_def POST_orders_def pipe order_rule_names order_rules_iff post_handler_def [abs_def] lift_Inl_bind)
  have ref: "?order = route verifier orders_controller_roles req (\<lambda>p. throw_io (http_exception 400 ''Bad Request'')) (h, w)" if "\<not> ?ok"
    using that by (auto simp: POST_orders_body_def pipe order_rule_names order_rules_iff lift_Inl_bind)
  show "if ?ok then ?order = POST_orders verifier v env req (order_body (JObj ps)) key (h, w)
      else (case ?order of ((st, b), (_, w')) \<Rightarrow> st \<in> {400, 401, 403, 503} \<and> b = None \<and> w' = w)"
  proof (cases ?ok)
    case True
    then show ?thesis by (simp add: eq)
  next
    case False
    obtain st h' where "?order = ((st, None), (h', w))" "st \<in> {400, 401, 403, 503}" unfolding ref [OF False] by (rule route_refuses)
    with False show ?thesis by auto
  qed
  let ?uok = "fst ` set ps \<subseteq> {''id'', ''email'', ''name''} \<and> CreateUserDto_valid uv (JObj ps)"
  let ?run = "POST_users_body verifier pipe uv uenv req (JObj ps) uw"
  have "?run = POST_user verifier uenv req (user_body (JObj ps)) uw" if ?uok
    using that by (simp add: POST_users_body_def POST_user_def pipe user_rule_names user_rules_iff lift_Inl_bind)
  moreover have "case ?run of
      (Inr (st, b), uw') \<Rightarrow> st \<in> {400, 401, 403, 503} \<and> b = None \<and> users_tbl uw' = users_tbl uw | _ \<Rightarrow> False" if "\<not> ?uok"
  proof -
    have "bind_io (lift_io (pipe global_pipe (CreateUserDto_rules uv) (JObj ps))) (\<lambda>b. users_create uenv (user_body b)) =
        (throw_io (http_exception 400 ''Bad Request'') :: ('u user_world_scheme, user_row) io)"
      using that by (auto simp: pipe user_rule_names user_rules_iff lift_Inl_bind)
    then obtain st uw' where "?run = (Inr (st, None), uw')" "st \<in> {400, 401, 403, 503}" "users_tbl uw' = users_tbl uw"
      unfolding POST_users_body_def by (rule users_body_refused)
    then show ?thesis by auto
  qed
  ultimately show "if ?uok then ?run = POST_user verifier uenv req (user_body (JObj ps)) uw
       else (case ?run of (Inr (st, b), uw') \<Rightarrow> st \<in> {400, 401, 403, 503} \<and> b = None \<and> users_tbl uw' = users_tbl uw | _ \<Rightarrow> False)"
    by simp
qed

definition demo_pipe :: validation_pipe where
  "demo_pipe opts rules body =
     (case body of
        JObj ps \<Rightarrow>
          (if whitelist opts \<and> forbidNonWhitelisted opts \<and> \<not> fst ` set ps \<subseteq> fst ` set rules
             then Inl (http_exception 400 ''Bad Request'')
           else if \<not> keeps_rules rules body then Inl (http_exception 400 ''Bad Request'')
           else Inr (JObj (if whitelist opts then filter (\<lambda>(k, _). k \<in> fst ` set rules) ps else ps)))
      | _ \<Rightarrow> Inl (http_exception 400 ''Bad Request''))"

theorem strict_bodies_witness:
  "fst (POST_orders_body (\<lambda>_. Inr demo_customer) demo_pipe demo_validators demo_env (demo_request (Some ''Bearer t''))
      (JObj [(''userId'', JStr demo_user_id), (''amount'', JStr ''19.99''), (''description'', JStr ''book'')]) None (empty_ctx, demo_world))
     \<in> {400, 401, 403, 503} \<times> {None}"
proof -
  have "pipe_documented demo_pipe" by (simp add: pipe_documented_def demo_pipe_def)
  from strict_bodies [OF this, of "[(''userId'', JStr demo_user_id), (''amount'', JStr ''19.99''), (''description'', JStr ''book'')]"
      "\<lambda>_. Inr demo_customer" demo_validators demo_env "demo_request (Some ''Bearer t'')" None empty_ctx demo_world, THEN conjunct1]
  show ?thesis by (auto simp: order_body_typed_def split: prod.splits)
qed


section \<open>Starting up\<close>

text \<open>The options of the logger (\<open>LoggerModule\<close>), the same in all four services besides the level.\<close>

record logger_options =
  lo_level :: string
  lo_genReqId :: "string \<Rightarrow> string option \<Rightarrow> string"
  lo_redact :: "string list"
  lo_ignore :: "string option \<Rightarrow> bool"

definition logger_options_of :: "string \<Rightarrow> logger_options" where
  "logger_options_of level =
     \<lparr>lo_level = level, lo_genReqId = gen_req_id, lo_redact = [''req.headers.authorization'', ''req.headers.cookie''],
      lo_ignore = log_ignores\<rparr>"

text \<open>The options of the database (\<open>TypeOrmModule\<close>): entities with their tables, migrations with what they run, and how long and how
  often to try. Times are in milliseconds.\<close>

record db_options =
  dbo_url :: string
  dbo_entities :: "(string \<times> entity_column list) list"
  dbo_migrations :: "(string \<times> ddl list \<times> ddl list) list"
  dbo_migrationsRun :: bool
  connectTimeoutMS :: nat
  retryAttempts :: nat
  retryDelay :: nat

definition db_options_of :: "(string \<times> entity_column list) list \<Rightarrow> (string \<times> ddl list \<times> ddl list) list \<Rightarrow> string \<Rightarrow> db_options" where
  "db_options_of entities migrations db_url =
     \<lparr>dbo_url = db_url, dbo_entities = entities, dbo_migrations = migrations, dbo_migrationsRun = True,
      connectTimeoutMS = 2000, retryAttempts = 5, retryDelay = 2000\<rparr>"

definition order_db_options :: "string \<Rightarrow> db_options" where
  "order_db_options = db_options_of [(''orders'', Order_entity), (''idempotency_keys'', IdempotencyKey_entity)]
     [(''CreateOrders1700000000000'', CreateOrders_up, CreateOrders_down)]"

definition user_db_options :: "string \<Rightarrow> db_options" where
  "user_db_options = db_options_of [(''users'', User_entity)] [(''CreateUsers1700000000000'', CreateUsers_up, CreateUsers_down)]"

definition worker_db_options :: "string \<Rightarrow> db_options" where
  "worker_db_options = db_options_of [] [(''CreateNotifications1700000000000'', CreateNotifications_up, CreateNotifications_down)]"

text \<open>Every table an entity is mapped to is one the migrations of the same service create, with columns that serve the entity.\<close>

definition entities_served :: "db_options \<Rightarrow> bool" where
  "entities_served o1 \<longleftrightarrow>
     list_all (\<lambda>(t, cols). case map_of (sch_tables (migrated (concat (map (fst \<circ> snd) (dbo_migrations o1))))) t of
        Some declared \<Rightarrow> list_all2 column_serves cols declared
      | None \<Rightarrow> False) (dbo_entities o1)"

lemma services_entities_served:
  "entities_served (order_db_options u)" "entities_served (user_db_options u)" "entities_served (worker_db_options u)"
  using entities_match_migrations
  by (simp_all add: entities_served_def order_db_options_def user_db_options_def worker_db_options_def db_options_of_def migrated_tables)

text \<open>\<open>main.ts\<close>: what it asks of the framework.\<close>

record main_options =
  bufferLogs :: bool
  bodyParser :: bool
  poweredBy :: bool
  globalPipe :: "pipe_options option"
  useProcessExit :: bool
  listen_host :: string

definition service_main :: main_options where
  "service_main = \<lparr>bufferLogs = True, bodyParser = True, poweredBy = True, globalPipe = Some global_pipe, useProcessExit = False,
     listen_host = ''0.0.0.0''\<rparr>"

definition worker_main :: main_options where
  "worker_main = \<lparr>bufferLogs = True, bodyParser = True, poweredBy = True, globalPipe = Some global_pipe, useProcessExit = True,
     listen_host = ''0.0.0.0''\<rparr>"

definition gateway_main :: main_options where
  "gateway_main = \<lparr>bufferLogs = True, bodyParser = False, poweredBy = False, globalPipe = None, useProcessExit = False,
     listen_host = ''0.0.0.0''\<rparr>"

text \<open>After the shutdown hooks the framework exits itself or sends the signal again, which process 1 ignores, as the comment in
  notification-worker's \<open>main.ts\<close> explains.\<close>

definition ends_after_hooks :: "main_options \<Rightarrow> nat \<Rightarrow> bool" where
  "ends_after_hooks m pid \<longleftrightarrow> useProcessExit m \<or> pid \<noteq> 1"

lemma only_the_worker_ends_as_process_1:
  "ends_after_hooks worker_main 1" "\<not> ends_after_hooks service_main 1" "\<not> ends_after_hooks gateway_main 1"
  by (simp_all add: ends_after_hooks_def worker_main_def service_main_def gateway_main_def)

text \<open>\<open>bootstrap\<close>: the configuration is validated, the database is initialised (a parameter, as the library does it), the verifier is
  built, and only then does the service listen on the configured port. Whatever throws ends the process before.\<close>

record 'v listening =
  ls_verifier :: 'v
  ls_port :: int
  ls_host :: string

definition bootstrap ::
  "main_options \<Rightarrow> (db_options \<Rightarrow> thrown + unit) \<Rightarrow> ('e \<Rightarrow> db_options) \<Rightarrow> ('e \<Rightarrow> thrown + 'v) \<Rightarrow> ('e \<Rightarrow> int) \<Rightarrow> thrown + 'e
   \<Rightarrow> thrown + 'v listening" where
  "bootstrap m initialize opts verifier_of port_of env =
     and_then env (\<lambda>e.
     and_then (initialize (opts e)) (\<lambda>_.
     and_then (verifier_of e) (\<lambda>v.
       Inr \<lparr>ls_verifier = v, ls_port = port_of e, ls_host = listen_host m\<rparr>)))"

definition order_bootstrap ::
  "'k jwt_verify \<Rightarrow> 'k create_jwks \<Rightarrow> (string \<Rightarrow> bool) \<Rightarrow> (db_options \<Rightarrow> thrown + unit) \<Rightarrow> raw_env
   \<Rightarrow> thrown + (string \<Rightarrow> thrown + principal) listening" where
  "order_bootstrap jwtVerify createRemoteJWKSet url_ok initialize raw =
     bootstrap service_main initialize (\<lambda>e. order_db_options (os_DATABASE_URL e))
       (\<lambda>e. auth_module jwtVerify createRemoteJWKSet url_ok (os_auth e)) os_PORT (validateOrderEnv url_ok raw)"

definition user_bootstrap ::
  "'k jwt_verify \<Rightarrow> 'k create_jwks \<Rightarrow> (string \<Rightarrow> bool) \<Rightarrow> (db_options \<Rightarrow> thrown + unit) \<Rightarrow> raw_env
   \<Rightarrow> thrown + (string \<Rightarrow> thrown + principal) listening" where
  "user_bootstrap jwtVerify createRemoteJWKSet url_ok initialize raw =
     bootstrap service_main initialize (\<lambda>e. user_db_options (us_DATABASE_URL e))
       (\<lambda>e. auth_module jwtVerify createRemoteJWKSet url_ok (us_auth e)) us_PORT (validateUserEnv url_ok raw)"

definition worker_bootstrap ::
  "'k jwt_verify \<Rightarrow> 'k create_jwks \<Rightarrow> (string \<Rightarrow> bool) \<Rightarrow> (db_options \<Rightarrow> thrown + unit) \<Rightarrow> raw_env
   \<Rightarrow> thrown + (string \<Rightarrow> thrown + principal) listening" where
  "worker_bootstrap jwtVerify createRemoteJWKSet url_ok initialize raw =
     bootstrap worker_main initialize (\<lambda>e. worker_db_options (wk_DATABASE_URL e))
       (\<lambda>e. auth_module jwtVerify createRemoteJWKSet url_ok (wk_auth e)) wk_PORT (validateWorkerEnv url_ok raw)"

lemma bootstrap_Inr:
  "bootstrap m initialize opts verifier_of port_of env = Inr s \<longleftrightarrow>
     (\<exists>e. env = Inr e \<and> initialize (opts e) = Inr () \<and> verifier_of e = Inr (ls_verifier s) \<and> ls_port s = port_of e
        \<and> ls_host s = listen_host m)"
  by (cases env) (auto simp: bootstrap_def and_then_def split: sum.splits)

lemma listening_service_is_ready:
  assumes "order_bootstrap jwtVerify createRemoteJWKSet url_ok initialize raw = Inr s"
  shows "\<exists>e. validateOrderEnv url_ok raw = Inr e \<and> initialize (order_db_options (os_DATABASE_URL e)) = Inr ()
    \<and> auth_module jwtVerify createRemoteJWKSet url_ok (os_auth e) = Inr (ls_verifier s) \<and> 1 \<le> ls_port s \<and> ls_port s \<le> 65535"
proof -
  from assms obtain e where e: "validateOrderEnv url_ok raw = Inr e" "initialize (order_db_options (os_DATABASE_URL e)) = Inr ()"
    "auth_module jwtVerify createRemoteJWKSet url_ok (os_auth e) = Inr (ls_verifier s)" "ls_port s = os_PORT e"
    by (auto simp: order_bootstrap_def bootstrap_Inr)
  from e(1) have "1 \<le> os_PORT e \<and> os_PORT e \<le> 65535"
    by (auto simp: validateOrderEnv_def and_then_Inr dest!: positiveInt_InrD)
  with e show ?thesis by auto
qed


section \<open>A zero byte\<close>

text \<open>A string of a JSON body may hold the character U+0000. The validators of \<open>CreateOrderDto\<close> accept it, the database does not, and the
  error is none the service knows: the client gets a 500 for a body it could have been told to correct.\<close>

lemma zero_byte_in_description:
  assumes "uuid_test (dto_userId dto)" "CHR 0x00 \<in> set (dto_description dto)"
  shows "order_tx i now dto key t = Inl (pg_error ''22021'' None ''invalid byte sequence for encoding'')"
    "fst (answer_error req (pg_error ''22021'' None ''invalid byte sequence for encoding'') h) = 500"
    "CreateOrderDto_valid demo_validators (demo_dto\<lparr>dto_description := [CHR 0x00]\<rparr>)"
proof -
  show "order_tx i now dto key t = Inl (pg_error ''22021'' None ''invalid byte sequence for encoding'')"
    using assms by (simp add: order_tx_def insert_order_def pg_uuid_def Let_def)
  have "\<not> isDatabaseUnavailable (pg_error ''22021'' None ''invalid byte sequence for encoding'')" by code_simp
  then show "fst (answer_error req (pg_error ''22021'' None ''invalid byte sequence for encoding'') h) = 500"
    by (simp add: answer_error_def filter_catch_def return_io_def) (simp add: pg_error_def)
  show "CreateOrderDto_valid demo_validators (demo_dto\<lparr>dto_description := [CHR 0x00]\<rparr>)" by code_simp
qed

end
