(* ===== verification/Dependency_Gate.thy ===== *)
theory Dependency_Gate
  imports JsConvert Json Js_Date
begin

text \<open>
  \<open>security/dependency-scan/gate.mjs\<close>: the gate of the pipeline over the report of \<open>npm audit --json\<close> and the
  list of exceptions. Both are JSON values; every access that throws in the source is \<open>Inl\<close> here, and the
  last section shows that the gate passes exactly when it should.
\<close>

section \<open>Advisories\<close>

record advisory =
  adv_id :: string
  adv_pkg :: string
  adv_severity :: jsval
  adv_title :: jsval
  adv_fixable :: bool

definition gate_error :: "string \<Rightarrow> thrown" where
  "gate_error m = error_of PlainError m"

text \<open>\<open>a || b\<close>, \<open>Object.entries(v)\<close> (the entries of a string are strings, of which nothing is read) and
  \<open>via.url?.split('/').pop() ?? String(via.source)\<close>.\<close>

definition or_else :: "jsval \<Rightarrow> jsval \<Rightarrow> jsval" where
  "or_else a b = (if truthy a then a else b)"

fun entries :: "jsval \<Rightarrow> (string \<times> jsval) list" where
  "entries (JObj ps) = ps"
| "entries (JArr vs) = map (\<lambda>(i, v). (nat_string i, v)) (enumerate 0 vs)"
| "entries (JStr s) = map (\<lambda>(i, c). (nat_string i, JStr [c])) (enumerate 0 s)"
| "entries _ = []"

fun advisory_id :: "jsval \<Rightarrow> jsval \<Rightarrow> thrown + string" where
  "advisory_id (JStr u) src = Inr (last (split_on (CHR ''/'') u))"
| "advisory_id JUndefined src = string_of src"
| "advisory_id JNull src = string_of src"
| "advisory_id _ src = Inl (type_error ''via.url?.split is not a function'')"

text \<open>The body of the inner loop: one element of \<open>via\<close>. A later advisory with the same key replaces an
  earlier one in its place.\<close>

fun add_via :: "string \<Rightarrow> jsval \<Rightarrow> jsval \<Rightarrow> (string \<times> advisory) list \<Rightarrow> thrown + (string \<times> advisory) list" where
  "add_via pkg v (JStr _) found = Inr found"
| "add_via pkg v via found =
     and_then (member_of via ''url'') (\<lambda>url.
     and_then (advisory_id url (js_get via ''source'')) (\<lambda>i.
       Inr (obj_set (i @ '' '' @ pkg)
         \<lparr>adv_id = i, adv_pkg = pkg, adv_severity = js_get via ''severity'', adv_title = js_or (js_get via ''title'') (JStr []),
          adv_fixable = (js_get v ''fixAvailable'' \<noteq> JBool False)\<rparr> found)))"

definition add_package :: "string \<times> jsval \<Rightarrow> (string \<times> advisory) list \<Rightarrow> thrown + (string \<times> advisory) list" where
  "add_package entry found =
     (case entry of (pkg, v) \<Rightarrow>
        and_then (member_of v ''via'') (\<lambda>vias.
        and_then (iterate vias) (\<lambda>vs. fold_then (add_via pkg v) vs found)))"

definition advisories :: "jsval \<Rightarrow> thrown + advisory list" where
  "advisories audit =
     (if truthy (js_get audit ''error'')
      then and_then (string_of (or_else (js_get audit ''message'') (or_else (js_get (js_get audit ''error'') ''summary'')
             (or_else (js_get (js_get audit ''error'') ''code'') (JStr ''unknown error'')))))
             (\<lambda>m. Inl (gate_error (''npm audit failed: '' @ m)))
      else if \<not> truthy (js_get audit ''vulnerabilities'') \<or> \<not> truthy (js_get audit ''metadata'')
      then Inl (gate_error ''not an npm audit report (no vulnerabilities/metadata)'')
      else and_then (fold_then add_package (entries (js_get audit ''vulnerabilities'')) []) (\<lambda>found. Inr (map snd found)))"

section \<open>Exceptions\<close>

definition MAX_EXCEPTION_DAYS :: int where
  "MAX_EXCEPTION_DAYS = 90"

text \<open>\<open>Date.UTC(now.getUTCFullYear(), ...)\<close>: midnight of the day of \<open>now\<close>.\<close>

definition today :: "int \<Rightarrow> int" where
  "today now = DAY * (now div DAY)"

fun string_element :: "jsval \<Rightarrow> bool" where
  "string_element (JStr s) = (s \<noteq> [])"
| "string_element _ = False"

fun bad_services :: "jsval \<Rightarrow> bool" where
  "bad_services JUndefined = False"
| "bad_services (JArr vs) = (vs = [] \<or> \<not> list_all string_element vs)"
| "bad_services _ = True"

text \<open>\<open>!e?.reason?.trim()\<close>.\<close>

fun blank_reason :: "jsval \<Rightarrow> thrown + bool" where
  "blank_reason (JStr s) = Inr (js_trim s = [])"
| "blank_reason JUndefined = Inr True"
| "blank_reason JNull = Inr True"
| "blank_reason _ = Inl (type_error ''e.reason.trim is not a function'')"

definition missing_fields :: "jsval \<Rightarrow> thrown + bool" where
  "missing_fields e =
     (if \<not> truthy (js_get e ''id'') \<or> \<not> truthy (js_get e ''package'') then Inr True
      else blank_reason (js_get e ''reason''))"

text \<open>What is wrong with an exception, if anything. \<open>text\<close> is its name in the messages.\<close>

definition exception_problem :: "(string \<Rightarrow> jsnum) \<Rightarrow> int \<Rightarrow> jsval \<Rightarrow> thrown + string option" where
  "exception_problem engine now e =
     and_then (string_of (js_or (js_get e ''id'') (JStr ''?''))) (\<lambda>i.
     and_then (string_of (js_or (js_get e ''package'') (JStr ''?''))) (\<lambda>p.
     let name = ''exception '' @ i @ '' ('' @ p @ '')'' in
     and_then (string_of (js_get e ''added'')) (\<lambda>addedText.
     and_then (string_of (js_get e ''expires'')) (\<lambda>expiresText.
     let added = date_parse engine addedText; expires = date_parse engine expiresText in
     and_then (missing_fields e) (\<lambda>missing.
       Inr (if missing then Some (name @ '': id, package and reason are required'')
        else if \<not> is_finite added \<or> \<not> is_finite expires
        then Some (name @ '': added and expires must be dates (YYYY-MM-DD)'')
        else if js_gt (js_sub expires added) (Fin (of_int (MAX_EXCEPTION_DAYS * DAY)))
        then Some (name @ '': lasts more than '' @ int_string MAX_EXCEPTION_DAYS @ '' days'')
        else if js_gt (Fin (of_int (today now))) expires
        then Some (name @ '': expired on '' @ expiresText @ '', fix the dependency or renew it with a new reason'')
        else if bad_services (js_get e ''services'')
        then Some (name @ '': services must be a non-empty array of service names'')
        else None))))))"

definition check_exception ::
  "(string \<Rightarrow> jsnum) \<Rightarrow> int \<Rightarrow> jsval \<Rightarrow> jsval list \<times> string list \<Rightarrow> thrown + jsval list \<times> string list" where
  "check_exception engine now e acc =
     and_then (exception_problem engine now e) (\<lambda>p.
       Inr (case p of
          Some m \<Rightarrow> (fst acc, snd acc @ [m])
        | None \<Rightarrow> (fst acc @ [e], snd acc)))"

fun checkExceptions :: "(string \<Rightarrow> jsnum) \<Rightarrow> int \<Rightarrow> jsval \<Rightarrow> thrown + jsval list \<times> string list" where
  "checkExceptions engine now (JArr es) = fold_then (check_exception engine now) es ([], [])"
| "checkExceptions engine now _ = Inr ([], [''exceptions file must hold a JSON array''])"

section \<open>The verdict\<close>

definition BLOCKING :: "jsval \<Rightarrow> bool" where
  "BLOCKING s \<longleftrightarrow> s = JStr ''high'' \<or> s = JStr ''critical''"

fun service_in :: "jsval \<Rightarrow> string option \<Rightarrow> bool" where
  "service_in (JArr vs) service = (case service of None \<Rightarrow> JUndefined \<in> set vs | Some s \<Rightarrow> JStr s \<in> set vs)"
| "service_in v service = (\<not> truthy v)"

definition covers :: "string option \<Rightarrow> advisory \<Rightarrow> jsval \<Rightarrow> bool" where
  "covers service a e \<longleftrightarrow>
     js_get e ''id'' = JStr (adv_id a) \<and> js_get e ''package'' = JStr (adv_pkg a) \<and> service_in (js_get e ''services'') service"

record gate_row =
  row_advisory :: advisory
  row_status :: string
  row_note :: string

definition row_of_advisory :: "jsval list \<Rightarrow> string option \<Rightarrow> advisory \<Rightarrow> gate_row" where
  "row_of_advisory valids service a =
     (case find (covers service a) valids of
        Some e \<Rightarrow> \<lparr>row_advisory = a, row_status = ''excepted'',
           row_note = ''until '' @ js_String (js_get e ''expires'') @ '': '' @ js_String (js_get e ''reason'')\<rparr>
      | None \<Rightarrow> \<lparr>row_advisory = a, row_status = (if adv_fixable a then ''blocking'' else ''no fix''), row_note = []\<rparr>)"

record gate_result =
  res_rows :: "gate_row list"
  res_blocking :: "gate_row list"
  res_problems :: "string list"
  res_ok :: bool

definition evaluate :: "(string \<Rightarrow> jsnum) \<Rightarrow> int \<Rightarrow> jsval \<Rightarrow> jsval \<Rightarrow> string option \<Rightarrow> thrown + gate_result" where
  "evaluate engine now audit exceptions service =
     and_then (checkExceptions engine now exceptions) (\<lambda>(valids, problems).
     and_then (advisories audit) (\<lambda>found.
       let rows = map (row_of_advisory valids service) (filter (\<lambda>a. BLOCKING (adv_severity a)) found);
           blocking = filter (\<lambda>r. row_status r = ''blocking'') rows
       in Inr \<lparr>res_rows = rows, res_blocking = blocking, res_problems = problems,
               res_ok = (blocking = [] \<and> problems = [])\<rparr>))"

definition NL :: string where
  "NL = [CHR 0x0A]"

definition row_line :: "gate_row \<Rightarrow> string" where
  "row_line r =
     ''| '' @ adv_pkg (row_advisory r) @ '' | '' @ adv_id (row_advisory r) @ '' | '' @ js_String (adv_severity (row_advisory r))
     @ '' | '' @ row_status r @ '' | '' @ row_note r @ '' |''"

definition gate_summary :: "gate_result \<Rightarrow> string option \<Rightarrow> string \<Rightarrow> string" where
  "gate_summary result service count =
     (let head = ''### Dependency scan'' @ (case service of Some s \<Rightarrow> (if s = [] then [] else '': '' @ s) | None \<Rightarrow> []) @ NL @ NL;
          state = (if res_ok result then ''Passed'' else ''FAILED'');
          first = head @ state @ ''. '' @ count @ '' advisories in total, '' @ nat_string (length (res_rows result)) @ '' high/critical.'' @ NL
      in join_with NL
           ([first] @ map (\<lambda>p. ''- '' @ p) (res_problems result)
            @ (if res_rows result = [] then []
               else [[], ''| Package | Advisory | Severity | Status | Note |'', ''|---|---|---|---|---|''] @ map row_line (res_rows result)))
         @ NL)"

text \<open>\<open>main\<close> and the top level around it: the files are read through \<open>read\<close>, the report goes to \<open>appendReport\<close> (which does
  nothing where \<open>GITHUB_STEP_SUMMARY\<close> is not set), and every throw ends with exit code 1. The result is the
  lines on the error stream and the exit code.\<close>

record gate_run =
  run_stderr :: "string list"
  run_exit :: nat

definition gate_usage :: string where
  "gate_usage = ''gate.mjs: usage: gate.mjs <audit.json> (did `npm audit --json` write its output?)''"

definition parse_json :: "string \<Rightarrow> thrown + jsval" where
  "parse_json s = (case json_parse s of Some v \<Rightarrow> Inr v | None \<Rightarrow> Inl (gate_error ''not valid JSON''))"

definition error_line :: "gate_row \<Rightarrow> thrown + string" where
  "error_line r =
     and_then (string_of (adv_title (row_advisory r))) (\<lambda>title.
       Inr (adv_pkg (row_advisory r) @ ''  '' @ adv_id (row_advisory r) @ '' ('' @ js_String (adv_severity (row_advisory r)) @ '')  ''
         @ row_status r @ ''  '' @ title))"

definition gate_main ::
  "(string \<Rightarrow> jsnum) \<Rightarrow> int \<Rightarrow> (string \<Rightarrow> thrown + string) \<Rightarrow> (string \<Rightarrow> thrown + unit) \<Rightarrow> string \<Rightarrow> string option \<Rightarrow> string list
   \<Rightarrow> thrown + gate_run" where
  "gate_main engine now read appendReport excFile service files =
     (case files of
        [f] \<Rightarrow>
          and_then (and_then (read f) parse_json) (\<lambda>audit.
          and_then (and_then (read excFile) parse_json) (\<lambda>exceptions.
          and_then (evaluate engine now audit exceptions service) (\<lambda>result.
          and_then (string_of (js_or (js_get (js_get (js_get audit ''metadata'') ''vulnerabilities'') ''total'') (JNum (Fin 0)))) (\<lambda>count.
          and_then (appendReport (gate_summary result service count)) (\<lambda>_.
          and_then (fold_then (\<lambda>r acc. and_then (error_line r) (\<lambda>l. Inr (acc @ [l]))) (res_rows result) []) (\<lambda>row_lines.
            Inr \<lparr>run_stderr = res_problems result @ row_lines
                   @ (if res_ok result then []
                      else [''Dependency gate FAILED: '' @ nat_string (length (res_blocking result)) @ '' blocking advisory(ies), ''
                        @ nat_string (length (res_problems result)) @ '' exception problem(s)'']),
                 run_exit = (if res_ok result then 0 else 1)\<rparr>))))))
      | _ \<Rightarrow> Inr \<lparr>run_stderr = [gate_usage], run_exit = 1\<rparr>)"

definition gate_exit :: "thrown + gate_run \<Rightarrow> nat" where
  "gate_exit r = (case r of Inl e \<Rightarrow> 1 | Inr out \<Rightarrow> run_exit out)"

section \<open>When the gate passes\<close>

lemma fold_then_check:
  "fold_then (check_exception engine now) es acc = Inr (valids, []) \<Longrightarrow>
    snd acc = [] \<and> list_all (\<lambda>e. exception_problem engine now e = Inr None) es \<and> valids = fst acc @ es"
proof (induction es arbitrary: acc)
  case (Cons e es)
  then obtain acc' where acc': "check_exception engine now e acc = Inr acc'"
    "fold_then (check_exception engine now) es acc' = Inr (valids, [])"
    by (auto simp: and_then_Inr)
  from Cons.IH [OF acc'(2)] acc'(1) show ?case
    by (auto simp: check_exception_def and_then_Inr split: option.splits)
qed simp

lemma fold_then_check_ok:
  "list_all (\<lambda>e. exception_problem engine now e = Inr None) es \<Longrightarrow>
    fold_then (check_exception engine now) es (vs, []) = Inr (vs @ es, [])"
  by (induction es arbitrary: vs) (auto simp: check_exception_def)

text \<open>An exceptions file without problems: an array of exceptions that are all in force.\<close>

lemma checkExceptions_clean:
  "checkExceptions engine now list = Inr (valids, []) \<longleftrightarrow>
    list = JArr valids \<and> list_all (\<lambda>e. exception_problem engine now e = Inr None) valids"
  using fold_then_check [of engine now _ "([], [])" valids] fold_then_check_ok [of engine now valids "[]"]
  by (cases list) auto

lemma row_blocking:
  "row_status (row_of_advisory es service a) = ''blocking'' \<longleftrightarrow> adv_fixable a \<and> \<not> list_ex (covers service a) es"
  by (auto simp: row_of_advisory_def find_None_iff find_Some_iff list_ex_iff split: option.splits)

lemma evaluate_ok:
  "(\<exists>r. evaluate engine now audit exceptions service = Inr r \<and> res_ok r) \<longleftrightarrow>
    (\<exists>es found. exceptions = JArr es \<and> list_all (\<lambda>e. exception_problem engine now e = Inr None) es
       \<and> advisories audit = Inr found
       \<and> list_all (\<lambda>a. \<not> (BLOCKING (adv_severity a) \<and> adv_fixable a) \<or> list_ex (covers service a) es) found)"
  (is "?L \<longleftrightarrow> ?R")
proof
  assume ?L
  then obtain valids found where c: "checkExceptions engine now exceptions = Inr (valids, [])" "advisories audit = Inr found"
    and b: "filter (\<lambda>r. row_status r = ''blocking'') (map (row_of_advisory valids service) (filter (\<lambda>a. BLOCKING (adv_severity a)) found)) = []"
    by (auto simp: evaluate_def and_then_Inr Let_def)
  from b have "list_all (\<lambda>a. \<not> (BLOCKING (adv_severity a) \<and> adv_fixable a) \<or> list_ex (covers service a) valids) found"
    by (auto simp: filter_empty_conv row_blocking list_all_iff)
  with c show ?R by (auto simp: checkExceptions_clean)
next
  assume ?R
  then obtain es found where es: "exceptions = JArr es" "list_all (\<lambda>e. exception_problem engine now e = Inr None) es"
    and f: "advisories audit = Inr found"
      "list_all (\<lambda>a. \<not> (BLOCKING (adv_severity a) \<and> adv_fixable a) \<or> list_ex (covers service a) es) found"
    by blast
  from es have c: "checkExceptions engine now exceptions = Inr (es, [])" by (simp only: checkExceptions_clean)
  from f show ?L by (auto simp: evaluate_def c Let_def filter_empty_conv row_blocking list_all_iff)
qed

text \<open>An exception is in force when its id, package and reason are there, both dates are dates, it lasts at most
  90 days, its last day has not passed, and its services, if given, are a non-empty list of names.\<close>

definition in_force :: "(string \<Rightarrow> jsnum) \<Rightarrow> int \<Rightarrow> jsval \<Rightarrow> bool" where
  "in_force engine now e \<longleftrightarrow>
     list_all (\<lambda>k. \<not> unconvertible (js_get e k)) [''id'', ''package'', ''added'', ''expires'']
     \<and> truthy (js_get e ''id'') \<and> truthy (js_get e ''package'') \<and> (\<exists>r. js_get e ''reason'' = JStr r \<and> js_trim r \<noteq> [])
     \<and> (\<exists>a x. date_parse engine (js_String (js_get e ''added'')) = Fin a \<and> date_parse engine (js_String (js_get e ''expires'')) = Fin x
          \<and> \<not> js_gt (to_double (x - a)) (Fin (of_int (90 * 86400000))) \<and> of_int (86400000 * (now div 86400000)) \<le> x)
     \<and> (js_get e ''services'' = JUndefined \<or> (\<exists>ss. js_get e ''services'' = JArr (map JStr ss) \<and> ss \<noteq> [] \<and> [] \<notin> set ss))"

lemma string_elements: "list_all string_element vs \<longleftrightarrow> (\<exists>ss. vs = map JStr ss \<and> [] \<notin> set ss)"
proof
  assume "list_all string_element vs"
  then have "v = JStr (js_String v) \<and> js_String v \<noteq> []" if "v \<in> set vs" for v using that by (cases v) (auto simp: list_all_iff)
  then have "vs = map JStr (map js_String vs)" "\<forall>v\<in>set vs. js_String v \<noteq> []" by (auto simp: map_idI [symmetric] comp_def)
  then have "vs = map JStr (map js_String vs)" "[] \<notin> set (map js_String vs)" by (simp, force)
  then show "\<exists>ss. vs = map JStr ss \<and> [] \<notin> set ss" by blast
next
  assume "\<exists>ss. vs = map JStr ss \<and> [] \<notin> set ss"
  then show "list_all string_element vs" by (auto simp: list_all_iff)
qed

lemma services_named:
  "\<not> bad_services v \<longleftrightarrow> v = JUndefined \<or> (\<exists>ss. v = JArr (map JStr ss) \<and> ss \<noteq> [] \<and> [] \<notin> set ss)"
  by (cases v) (auto simp: string_elements)

lemma string_of_Inr: "string_of v = Inr s \<longleftrightarrow> \<not> unconvertible v \<and> s = js_String v"
  by (auto simp: string_of_def)

lemma js_or_convertible: "\<not> unconvertible (js_or v (JStr d)) \<longleftrightarrow> \<not> unconvertible v"
  by (cases v) (auto simp: js_or_def)

lemma missing_fields_False:
  "missing_fields e = Inr False \<longleftrightarrow>
    truthy (js_get e ''id'') \<and> truthy (js_get e ''package'') \<and> (\<exists>r. js_get e ''reason'' = JStr r \<and> js_trim r \<noteq> [])"
  by (cases "js_get e ''reason''") (auto simp: missing_fields_def)

lemma js_gt_Fin [simp]: "js_gt (Fin a) (Fin b) \<longleftrightarrow> b < a"
  by (auto simp: js_gt_def)

lemma exception_in_force: "exception_problem engine now e = Inr None \<longleftrightarrow> in_force engine now e"
proof -
  let ?a = "date_parse engine (js_String (js_get e ''added''))" and ?x = "date_parse engine (js_String (js_get e ''expires''))"
  have "exception_problem engine now e = Inr None \<longleftrightarrow>
      list_all (\<lambda>k. \<not> unconvertible (js_get e k)) [''id'', ''package'', ''added'', ''expires''] \<and> missing_fields e = Inr False
      \<and> is_finite ?a \<and> is_finite ?x \<and> \<not> js_gt (js_sub ?x ?a) (Fin (of_int (90 * DAY))) \<and> \<not> js_gt (Fin (of_int (today now))) ?x
      \<and> \<not> bad_services (js_get e ''services'')"
    by (auto simp: exception_problem_def and_then_Inr string_of_Inr js_or_convertible Let_def MAX_EXCEPTION_DAYS_def split: if_splits)
  then show ?thesis
    unfolding in_force_def services_named missing_fields_False today_def DAY_def
    by (cases ?a; cases ?x) (simp_all add: not_less)
qed

definition report_count :: "jsval \<Rightarrow> jsval" where
  "report_count audit = js_get (js_get (js_get audit ''metadata'') ''vulnerabilities'') ''total''"

lemma error_lines_Inr:
  "(\<exists>ls. fold_then (\<lambda>r acc. and_then (error_line r) (\<lambda>l. Inr (acc @ [l]))) rs acc = Inr ls)
    \<longleftrightarrow> list_all (\<lambda>r. \<not> unconvertible (adv_title (row_advisory r))) rs"
proof (induction rs arbitrary: acc)
  case (Cons r rs)
  then show ?case
    by (cases "error_line r") (auto simp: error_line_def and_then_Inr string_of_Inr string_of_def split: if_splits)
qed simp

text \<open>Printing a report throws only where a title or the number of advisories cannot be converted to a string.\<close>

definition appended :: "(string \<Rightarrow> thrown + unit) \<Rightarrow> jsval \<Rightarrow> gate_result \<Rightarrow> string option \<Rightarrow> bool" where
  "appended appendReport audit result service \<longleftrightarrow>
     appendReport (gate_summary result service (js_String (js_or (report_count audit) (JNum (Fin 0))))) = Inr ()"

definition printable_found :: "jsval \<Rightarrow> advisory list \<Rightarrow> bool" where
  "printable_found audit found \<longleftrightarrow>
     \<not> unconvertible (report_count audit)
     \<and> list_all (\<lambda>a. if BLOCKING (adv_severity a) then \<not> unconvertible (adv_title a) else True) found"

lemma row_advisory_of [simp]: "row_advisory (row_of_advisory es service a) = a"
  by (simp add: row_of_advisory_def split: option.split)

lemma evaluate_rows:
  "evaluate engine now audit excs service = Inr r \<Longrightarrow> advisories audit = Inr found \<Longrightarrow>
    map row_advisory (res_rows r) = filter (\<lambda>a. BLOCKING (adv_severity a)) found"
  by (auto simp: evaluate_def and_then_Inr Let_def comp_def)

lemma count_convertible: "\<not> unconvertible (js_or v (JNum n)) \<longleftrightarrow> \<not> unconvertible v"
  by (cases v) (auto simp: js_or_def)

lemma gate_main_one:
  assumes "and_then (read f) parse_json = Inr audit" "and_then (read excFile) parse_json = Inr excs"
    and "evaluate engine now audit excs service = Inr result" "advisories audit = Inr found"
  shows "gate_exit (gate_main engine now read appendReport excFile service [f]) =
    (if res_ok result \<and> printable_found audit found \<and> appended appendReport audit result service then 0 else 1)"
proof -
  have rows: "list_all (\<lambda>r. \<not> unconvertible (adv_title (row_advisory r))) (res_rows result) \<longleftrightarrow>
      list_all (\<lambda>a. if BLOCKING (adv_severity a) then \<not> unconvertible (adv_title a) else True) found"
  proof -
    have "list_all (\<lambda>r. \<not> unconvertible (adv_title (row_advisory r))) (res_rows result) \<longleftrightarrow>
        list_all (\<lambda>a. \<not> unconvertible (adv_title a)) (map row_advisory (res_rows result))" by (simp add: list_all_iff)
    then show ?thesis unfolding evaluate_rows [OF assms(3,4)] by (auto simp: list_all_iff)
  qed
  let ?n = "string_of (js_or (report_count audit) (JNum (Fin 0)))"
    and ?l = "fold_then (\<lambda>r acc. and_then (error_line r) (\<lambda>l. Inr (acc @ [l]))) (res_rows result) []"
  have "(\<exists>s. ?n = Inr s) \<longleftrightarrow> \<not> unconvertible (report_count audit)" by (simp add: string_of_Inr count_convertible)
  with error_lines_Inr [of "res_rows result" "[]"] rows
  have p: "printable_found audit found \<longleftrightarrow> (\<exists>s. ?n = Inr s) \<and> (\<exists>ls. ?l = Inr ls)" by (simp add: printable_found_def)
  show ?thesis
  proof (cases ?n)
    case (Inl e)
    with p assms(1-3) show ?thesis by (simp add: gate_main_def gate_exit_def report_count_def)
  next
    case (Inr s)
    then have "appended appendReport audit result service \<longleftrightarrow> appendReport (gate_summary result service s) = Inr ()"
      by (auto simp: appended_def string_of_Inr)
    with p Inr assms(1-3) show ?thesis
      by (cases "appendReport (gate_summary result service s)"; cases ?l) (auto simp: gate_main_def gate_exit_def report_count_def)
  qed
qed

lemma evaluate_advisories:
  "evaluate engine now audit excs service = Inr r \<Longrightarrow> \<exists>found. advisories audit = Inr found"
  by (auto simp: evaluate_def and_then_Inr)

lemma gate_exit_0:
  "gate_exit (gate_main engine now read appendReport excFile service files) = 0 \<longleftrightarrow>
    (\<exists>f audit es found. files = [f] \<and> and_then (read f) parse_json = Inr audit
       \<and> and_then (read excFile) parse_json = Inr (JArr es) \<and> list_all (in_force engine now) es
       \<and> advisories audit = Inr found \<and> printable_found audit found
       \<and> (\<exists>result. evaluate engine now audit (JArr es) service = Inr result \<and> appended appendReport audit result service)
       \<and> list_all (\<lambda>a. if BLOCKING (adv_severity a) \<and> adv_fixable a then list_ex (covers service a) es else True) found)"
  (is "?L \<longleftrightarrow> ?R")
proof
  assume ?L
  then obtain out where out: "gate_main engine now read appendReport excFile service files = Inr out" "run_exit out = 0"
    by (auto simp: gate_exit_def split: sum.splits)
  then obtain f where f: "files = [f]" by (cases files; cases "tl files") (auto simp: gate_main_def)
  obtain audit excs result where r: "and_then (read f) parse_json = Inr audit" "and_then (read excFile) parse_json = Inr excs"
    "evaluate engine now audit excs service = Inr result" "res_ok result"
    using out unfolding gate_main_def f by (auto simp: and_then_Inr split: if_splits)
  then have "\<exists>r. evaluate engine now audit excs service = Inr r \<and> res_ok r" by blast
  then obtain es found where e: "excs = JArr es" "list_all (in_force engine now) es" "advisories audit = Inr found"
    "list_all (\<lambda>a. \<not> (BLOCKING (adv_severity a) \<and> adv_fixable a) \<or> list_ex (covers service a) es) found"
    unfolding evaluate_ok exception_in_force by blast
  moreover have "printable_found audit found" "appended appendReport audit result service"
    using gate_main_one [OF r(1-3) e(3), of appendReport] \<open>?L\<close> unfolding f by (simp_all split: if_splits)
  ultimately show ?R using f r(1-3) by (auto simp: list_all_iff)
next
  assume ?R
  then obtain f audit es found where f: "files = [f]" "and_then (read f) parse_json = Inr audit"
      "and_then (read excFile) parse_json = Inr (JArr es)" "list_all (in_force engine now) es" "advisories audit = Inr found"
      "printable_found audit found" "\<exists>result. evaluate engine now audit (JArr es) service = Inr result \<and> appended appendReport audit result service"
      "list_all (\<lambda>a. if BLOCKING (adv_severity a) \<and> adv_fixable a then list_ex (covers service a) es else True) found"
    by blast
  have "\<exists>r. evaluate engine now audit (JArr es) service = Inr r \<and> res_ok r"
    unfolding evaluate_ok exception_in_force using f(4,5,8) by (auto simp: list_all_iff)
  then obtain r where "evaluate engine now audit (JArr es) service = Inr r" "res_ok r" by blast
  with gate_main_one [OF f(2,3) _ f(5), of engine now service r appendReport] f(1,6,7) show ?L by auto
qed

section \<open>The report, read directly\<close>

text \<open>The advisories of the report without the loop and the table: what the report lists for a package, with the package's entry, in
  the order of the report. Of several with the same id for the same package the last counts.\<close>

definition via_id :: "jsval \<Rightarrow> string" where
  "via_id via = (case js_get via ''url'' of JStr u \<Rightarrow> last (split_on (CHR ''/'') u) | _ \<Rightarrow> js_String (js_get via ''source''))"

fun not_string :: "jsval \<Rightarrow> bool" where
  "not_string (JStr _) = False"
| "not_string _ = True"

definition reported :: "jsval \<Rightarrow> (string \<times> jsval \<times> jsval) list" where
  "reported audit = concat (map (\<lambda>(pkg, v). map (\<lambda>via. (pkg, v, via)) (filter not_string (elems (js_get v ''via''))))
     (entries (js_get audit ''vulnerabilities'')))"

fun reported_key :: "string \<times> jsval \<times> jsval \<Rightarrow> string" where
  "reported_key (pkg, v, via) = via_id via @ '' '' @ pkg"

definition last_reported :: "jsval \<Rightarrow> string \<times> jsval \<times> jsval \<Rightarrow> bool" where
  "last_reported audit x \<longleftrightarrow> find (\<lambda>y. reported_key y = reported_key x) (rev (reported audit)) = Some x"

definition audit_report :: "jsval \<Rightarrow> bool" where
  "audit_report audit \<longleftrightarrow>
     \<not> truthy (js_get audit ''error'') \<and> truthy (js_get audit ''vulnerabilities'') \<and> truthy (js_get audit ''metadata'')
     \<and> list_all (\<lambda>(pkg, v). \<not> nullish v \<and> iterable (js_get v ''via'')) (entries (js_get audit ''vulnerabilities''))
     \<and> list_all (\<lambda>(pkg, v, via). \<not> nullish via \<and>
          (case js_get via ''url'' of
             JStr _ \<Rightarrow> True
           | JUndefined \<Rightarrow> \<not> unconvertible (js_get via ''source'')
           | JNull \<Rightarrow> \<not> unconvertible (js_get via ''source'')
           | _ \<Rightarrow> False)) (reported audit)"

definition high_or_critical :: "jsval \<Rightarrow> bool" where
  "high_or_critical via \<longleftrightarrow> js_get via ''severity'' \<in> {JStr ''high'', JStr ''critical''}"

definition excuses :: "string option \<Rightarrow> string \<Rightarrow> jsval \<Rightarrow> jsval \<Rightarrow> bool" where
  "excuses service pkg via e \<longleftrightarrow>
     js_get e ''id'' = JStr (via_id via) \<and> js_get e ''package'' = JStr pkg
     \<and> (js_get e ''services'' = JUndefined \<or> (\<exists>ss s. js_get e ''services'' = JArr (map JStr ss) \<and> service = Some s \<and> s \<in> set ss))"

text \<open>Every high or critical advisory whose package has a fix is excused for this service.\<close>

definition all_excused :: "jsval \<Rightarrow> jsval list \<Rightarrow> string option \<Rightarrow> bool" where
  "all_excused audit es service \<longleftrightarrow>
     (\<forall>pkg v via. last_reported audit (pkg, v, via) \<and> high_or_critical via \<and> js_get v ''fixAvailable'' \<noteq> JBool False
        \<longrightarrow> (\<exists>e\<in>set es. excuses service pkg via e))"

definition printable :: "jsval \<Rightarrow> bool" where
  "printable audit \<longleftrightarrow>
     \<not> unconvertible (report_count audit)
     \<and> (\<forall>pkg v via. last_reported audit (pkg, v, via) \<and> high_or_critical via \<longrightarrow> \<not> unconvertible (js_get via ''title''))"

fun advisory_of :: "string \<times> jsval \<times> jsval \<Rightarrow> advisory" where
  "advisory_of (pkg, v, via) =
     \<lparr>adv_id = via_id via, adv_pkg = pkg, adv_severity = js_get via ''severity'', adv_title = js_or (js_get via ''title'') (JStr []),
      adv_fixable = (js_get v ''fixAvailable'' \<noteq> JBool False)\<rparr>"

lemma advisory_sel:
  "adv_severity (advisory_of (pkg, v, via)) = js_get via ''severity''"
  "adv_fixable (advisory_of (pkg, v, via)) \<longleftrightarrow> js_get v ''fixAvailable'' \<noteq> JBool False" by simp_all

abbreviation readable_via :: "jsval \<Rightarrow> bool" where
  "readable_via via \<equiv> \<not> nullish via \<and>
     (case js_get via ''url'' of
        JStr _ \<Rightarrow> True
      | JUndefined \<Rightarrow> \<not> unconvertible (js_get via ''source'')
      | JNull \<Rightarrow> \<not> unconvertible (js_get via ''source'')
      | _ \<Rightarrow> False)"

definition adv_key :: "advisory \<Rightarrow> string" where
  "adv_key a = adv_id a @ '' '' @ adv_pkg a"

abbreviation assign_all :: "advisory list \<Rightarrow> (string \<times> advisory) list \<Rightarrow> (string \<times> advisory) list" where
  "assign_all as m \<equiv> fold (\<lambda>a. obj_set (adv_key a) a) as m"

lemma advisory_id_Inr: "advisory_id (js_get via ''url'') (js_get via ''source'') = Inr i \<and> \<not> nullish via \<longleftrightarrow> readable_via via \<and> i = via_id via"
  by (cases "js_get via ''url''") (auto simp: via_id_def string_of_Inr)

lemma add_via_Inr:
  "add_via pkg v via found = Inr found' \<longleftrightarrow>
    (if not_string via then readable_via via \<and> found' = assign_all [advisory_of (pkg, v, via)] found else found' = found)"
proof (cases "not_string via")
  case True
  then have "add_via pkg v via found = and_then (member_of via ''url'') (\<lambda>url. and_then (advisory_id url (js_get via ''source'')) (\<lambda>i.
       Inr (obj_set (i @ '' '' @ pkg)
         \<lparr>adv_id = i, adv_pkg = pkg, adv_severity = js_get via ''severity'', adv_title = js_or (js_get via ''title'') (JStr []),
          adv_fixable = (js_get v ''fixAvailable'' \<noteq> JBool False)\<rparr> found)))" by (cases via) simp_all
  then have "add_via pkg v via found = Inr found' \<longleftrightarrow>
      (\<exists>i. (advisory_id (js_get via ''url'') (js_get via ''source'') = Inr i \<and> \<not> nullish via) \<and> found' = obj_set (i @ '' '' @ pkg)
         \<lparr>adv_id = i, adv_pkg = pkg, adv_severity = js_get via ''severity'', adv_title = js_or (js_get via ''title'') (JStr []),
          adv_fixable = (js_get v ''fixAvailable'' \<noteq> JBool False)\<rparr> found)"
    by (auto simp: and_then_Inr member_of_def)
  with True show ?thesis unfolding advisory_id_Inr by (auto simp: adv_key_def)
next
  case False
  then show ?thesis by (cases via) auto
qed

lemma add_vias_Inr:
  "fold_then (add_via pkg v) vs found = Inr found' \<longleftrightarrow>
    list_all readable_via (filter not_string vs)
    \<and> found' = assign_all (map (\<lambda>via. advisory_of (pkg, v, via)) (filter not_string vs)) found"
  by (induction vs arbitrary: found) (auto simp: and_then_Inr add_via_Inr simp del: advisory_of.simps)

lemma add_packages_Inr:
  "fold_then add_package ps found = Inr found' \<longleftrightarrow>
    list_all (\<lambda>(pkg, v). \<not> nullish v \<and> iterable (js_get v ''via'')) ps
    \<and> list_all (\<lambda>(pkg, v). list_all readable_via (filter not_string (elems (js_get v ''via'')))) ps
    \<and> found' = assign_all (concat (map (\<lambda>(pkg, v). map (\<lambda>via. advisory_of (pkg, v, via)) (filter not_string (elems (js_get v ''via'')))) ps)) found"
proof (induction ps arbitrary: found)
  case (Cons p ps)
  obtain pkg v where p: "p = (pkg, v)" by fastforce
  have "add_package p found = Inr f1 \<longleftrightarrow> \<not> nullish v \<and> iterable (js_get v ''via'')
      \<and> list_all readable_via (filter not_string (elems (js_get v ''via'')))
      \<and> f1 = assign_all (map (\<lambda>via. advisory_of (pkg, v, via)) (filter not_string (elems (js_get v ''via'')))) found" for f1
    by (auto simp: p add_package_def and_then_Inr member_of_def iterate_elems add_vias_Inr simp del: advisory_of.simps)
  with Cons show ?case by (auto simp: p and_then_Inr simp del: advisory_of.simps)
qed auto

lemma readable_reported:
  "list_all (\<lambda>(pkg, v). list_all R (filter not_string (elems (js_get v ''via'')))) ps
    \<longleftrightarrow> list_all (\<lambda>(pkg, v, via). R via)
        (concat (map (\<lambda>(pkg, v). map (\<lambda>via. (pkg, v, via)) (filter not_string (elems (js_get v ''via'')))) ps))"
proof (induction ps)
  case (Cons p ps)
  then show ?case by (cases p) (simp add: list.pred_map comp_def)
qed simp

lemma advisories_Inr:
  "advisories audit = Inr found \<longleftrightarrow> audit_report audit \<and> found = map snd (assign_all (map advisory_of (reported audit)) [])"
proof -
  have eq: "map advisory_of (reported audit) = concat (map (\<lambda>(pkg, v).
      map (\<lambda>via. advisory_of (pkg, v, via)) (filter not_string (elems (js_get v ''via'')))) (entries (js_get audit ''vulnerabilities'')))"
    by (simp add: reported_def map_concat comp_def split_def)
  have "advisories audit = Inr found \<longleftrightarrow>
      \<not> truthy (js_get audit ''error'') \<and> truthy (js_get audit ''vulnerabilities'') \<and> truthy (js_get audit ''metadata'')
      \<and> (\<exists>m. fold_then add_package (entries (js_get audit ''vulnerabilities'')) [] = Inr m \<and> found = map snd m)"
    by (auto simp: advisories_def and_then_Inr)
  then show ?thesis unfolding add_packages_Inr readable_reported reported_def [symmetric] eq [symmetric] audit_report_def by blast
qed

lemma find_map: "find P (map g xs) = map_option g (find (\<lambda>x. P (g x)) xs)"
  by (induction xs) auto

lemma found_last_reported:
  assumes "advisories audit = Inr found"
  shows "set found = advisory_of ` {x. last_reported audit x}"
proof -
  have key: "adv_key (advisory_of x) = reported_key x" for x by (cases x) (simp add: adv_key_def)
  have "a \<in> set found \<longleftrightarrow> find (\<lambda>b. adv_key b = adv_key a) (rev (map advisory_of (reported audit))) = Some a" for a
    using assms set_assigned [of a adv_key] by (simp add: advisories_Inr)
  then have iff: "a \<in> set found \<longleftrightarrow>
      (\<exists>x. find (\<lambda>y. reported_key y = adv_key a) (rev (reported audit)) = Some x \<and> advisory_of x = a)" for a
    by (simp only: rev_map find_map key map_option_eq_Some)
  show ?thesis
  proof (intro set_eqI iffI)
    fix a assume "a \<in> set found"
    then obtain x where "find (\<lambda>y. reported_key y = adv_key a) (rev (reported audit)) = Some x" "advisory_of x = a"
      using iff by blast
    then show "a \<in> advisory_of ` {x. last_reported audit x}" by (auto simp: last_reported_def simp flip: key)
  next
    fix a assume "a \<in> advisory_of ` {x. last_reported audit x}"
    then obtain x where x: "a = advisory_of x" "last_reported audit x" by blast
    then show "a \<in> set found" unfolding iff last_reported_def x(1) key by blast
  qed
qed

lemma covers_excuses:
  assumes "in_force engine now e"
  shows "covers service (advisory_of (pkg, v, via)) e \<longleftrightarrow> excuses service pkg via e"
proof -
  from assms consider "js_get e ''services'' = JUndefined" | ss where "js_get e ''services'' = JArr (map JStr ss)"
    by (auto simp: in_force_def)
  moreover have "inj JStr" by (simp add: inj_def)
  ultimately show ?thesis by cases (auto simp: covers_def excuses_def inj_map_eq_map split: option.split)
qed


text \<open>A date with a time passes as a date, although the messages and the documentation ask for
  \<open>YYYY-MM-DD\<close>.\<close>

lemma timestamps_pass_as_dates:
  "in_force engine 1735689600000 (JObj [(''id'', JStr ''GHSA-1''), (''package'', JStr ''p''), (''reason'', JStr ''r''),
     (''added'', JStr ''2025-01-01T12:00:00.000Z''), (''expires'', JStr ''2025-01-31T12:00:00.000Z'')])"
proof -
  have d: "date_parse engine ''2025-01-01T12:00:00.000Z'' = Fin 1735732800000"
    "date_parse engine ''2025-01-31T12:00:00.000Z'' = Fin 1738324800000" by code_simp+
  have t: "js_trim ''r'' = ''r''" by code_simp
  have "to_double (1738324800000 - 1735732800000) = Fin (of_nat 2592000000)"
    using to_double_of_nat [of 2592000000] by simp
  then show ?thesis by (simp add: in_force_def d t)
qed

end
