(* ===== verification/Image_Gate.thy ===== *)
theory Image_Gate
  imports Dependency_Gate
begin

text \<open>
  \<open>security/image-scan/gate.mjs\<close>: every entry of \<open>.trivyignore\<close> needs a reason on the line above and an \<open>exp:\<close>
  date at most 90 days out. The property relates the verdict to the lines of the file.
\<close>

section \<open>Reading the file\<close>

text \<open>\<open>/\bexp:(\d{4}-\d{2}-\d{2})\b/\<close>: the first match in a line, scanned with the character before.\<close>

definition word_char :: "char \<Rightarrow> bool" where
  "word_char c \<longleftrightarrow> is_digit c \<or> (97 \<le> byte (to_lower c) \<and> byte (to_lower c) \<le> 122) \<or> c = CHR ''_''"

definition exp_here :: "bool \<Rightarrow> string \<Rightarrow> string option" where
  "exp_here after_word s =
     (if \<not> after_word \<and> take 4 s = ''exp:'' \<and> date_only (take 10 (drop 4 s))
         \<and> (case drop 14 s of [] \<Rightarrow> True | c # _ \<Rightarrow> \<not> word_char c)
      then Some (take 10 (drop 4 s)) else None)"

fun match_exp :: "bool \<Rightarrow> string \<Rightarrow> string option" where
  "match_exp after_word [] = None"
| "match_exp after_word (c # s) =
     (case exp_here after_word (c # s) of Some d \<Rightarrow> Some d | None \<Rightarrow> match_exp (word_char c) s)"

text \<open>\<open>line.split(/\s+/)[0]\<close> for a line that does not start with white space.\<close>

fun first_word :: "string \<Rightarrow> string" where
  "first_word [] = []"
| "first_word (c # s) = (if space_bytes (map byte (c # s)) \<noteq> 0 then [] else c # first_word s)"

record ignore_entry =
  ent_id :: string
  ent_reason :: "string option"
  ent_exp :: "string option"
  ent_lineNo :: nat

text \<open>One round of the loop: the entries so far and the pending reason.\<close>

definition parse_line :: "nat \<Rightarrow> string \<Rightarrow> ignore_entry list \<times> string option \<Rightarrow> ignore_entry list \<times> string option" where
  "parse_line i raw acc =
     (let line = js_trim raw in
      if line = [] then (fst acc, None)
      else if take 1 line = ''#'' then (fst acc, Some (js_trim (drop 1 line)))
      else (fst acc @ [\<lparr>ent_id = first_word line, ent_reason = snd acc, ent_exp = match_exp False line, ent_lineNo = i + 1\<rparr>], None))"

fun parse_lines :: "nat \<Rightarrow> string list \<Rightarrow> ignore_entry list \<times> string option \<Rightarrow> ignore_entry list \<times> string option" where
  "parse_lines i [] acc = acc"
| "parse_lines i (raw # rest) acc = parse_lines (Suc i) rest (parse_line i raw acc)"

definition parse_ignore :: "string \<Rightarrow> ignore_entry list" where
  "parse_ignore txt = fst (parse_lines 0 (split_on (CHR 0x0A) txt) ([], None))"

section \<open>The verdict\<close>

definition entry_problem :: "(string \<Rightarrow> jsnum) \<Rightarrow> int \<Rightarrow> ignore_entry \<Rightarrow> string option" where
  "entry_problem engine now e =
     (let name = ent_id e @ '' (line '' @ nat_string (ent_lineNo e) @ '')'' in
      if ent_reason e = None \<or> ent_reason e = Some [] then Some (name @ '': needs a reason comment on the line above'')
      else (case ent_exp e of
          None \<Rightarrow> Some (name @ '': needs an exp:YYYY-MM-DD date'')
        | Some d \<Rightarrow>
            (if js_gt (js_sub (date_parse engine d) (Fin (of_int (today now)))) (Fin (of_int (MAX_EXCEPTION_DAYS * DAY)))
             then Some (name @ '': exp is more than '' @ int_string MAX_EXCEPTION_DAYS @ '' days out ('' @ d @ '')'')
             else None)))"

definition checkEntries :: "(string \<Rightarrow> jsnum) \<Rightarrow> int \<Rightarrow> ignore_entry list \<Rightarrow> string list" where
  "checkEntries engine now es = List.map_filter (entry_problem engine now) es"

definition image_evaluate :: "(string \<Rightarrow> jsnum) \<Rightarrow> int \<Rightarrow> string \<Rightarrow> ignore_entry list \<times> string list \<times> bool" where
  "image_evaluate engine now txt =
     (let es = parse_ignore txt; problems = checkEntries engine now es in (es, problems, problems = []))"

text \<open>\<open>main\<close> and the top level: the error lines and the exit code; an unreadable file throws.\<close>

definition image_main :: "(string \<Rightarrow> jsnum) \<Rightarrow> int \<Rightarrow> (string \<Rightarrow> thrown + string) \<Rightarrow> string \<Rightarrow> string list \<times> nat" where
  "image_main engine now read file =
     (case read file of
        Inl e \<Rightarrow> ([''gate.mjs: '' @ message_of e], 1)
      | Inr txt \<Rightarrow>
          (case image_evaluate engine now txt of (es, problems, ok) \<Rightarrow>
             if ok then ([], 0)
             else (problems @ [''Image-scan exception gate FAILED: '' @ nat_string (length problems) @ '' problem(s)''], 1)))"

section \<open>What the file must look like\<close>

fun reason_after :: "string \<Rightarrow> string option" where
  "reason_after raw = (let line = js_trim raw in if take 1 line = ''#'' then Some (js_trim (drop 1 line)) else None)"

definition entry_line :: "string \<Rightarrow> bool" where
  "entry_line raw \<longleftrightarrow> js_trim raw \<noteq> [] \<and> take 1 (js_trim raw) \<noteq> ''#''"

definition entry_at :: "string list \<Rightarrow> nat \<Rightarrow> ignore_entry" where
  "entry_at ls i =
     \<lparr>ent_id = first_word (js_trim (ls ! i)), ent_reason = (if i = 0 then None else reason_after (ls ! (i - 1))),
      ent_exp = match_exp False (js_trim (ls ! i)), ent_lineNo = i + 1\<rparr>"

lemma parse_line_snd: "snd (parse_line i raw acc) = reason_after raw"
  by (auto simp: parse_line_def Let_def)

lemma parse_line_fst:
  "fst (parse_line i raw (es, r)) =
    es @ (if entry_line raw
          then [\<lparr>ent_id = first_word (js_trim raw), ent_reason = r, ent_exp = match_exp False (js_trim raw), ent_lineNo = i + 1\<rparr>]
          else [])"
  by (auto simp: parse_line_def Let_def entry_line_def)

text \<open>The entries are the lines that are neither blank nor comments, each with the comment directly above.\<close>

lemma parse_lines_entries:
  "fst (parse_lines (length pre) post (es, if pre = [] then None else reason_after (last pre)))
    = es @ map (entry_at (pre @ post)) (filter (\<lambda>i. entry_line ((pre @ post) ! i)) [length pre..<length (pre @ post)])"
proof (induction post arbitrary: pre es)
  case (Cons raw rest)
  let ?r = "if pre = [] then None else reason_after (last pre)"
  have up: "[length pre..<length (pre @ raw # rest)] = length pre # [length (pre @ [raw])..<length ((pre @ [raw]) @ rest)]"
    by (simp add: upt_conv_Cons del: upt_Suc)
  have here: "entry_at (pre @ raw # rest) (length pre)
      = \<lparr>ent_id = first_word (js_trim raw), ent_reason = ?r, ent_exp = match_exp False (js_trim raw), ent_lineNo = length pre + 1\<rparr>"
    by (cases pre rule: rev_cases) (auto simp: entry_at_def nth_append)
  have "parse_line (length pre) raw (es, ?r) = (fst (parse_line (length pre) raw (es, ?r)), reason_after raw)"
    by (simp add: prod_eq_iff parse_line_snd)
  then have "fst (parse_lines (length pre) (raw # rest) (es, ?r))
      = fst (parse_lines (length (pre @ [raw])) rest (fst (parse_line (length pre) raw (es, ?r)), reason_after raw))"
    by simp
  also have "\<dots> = fst (parse_line (length pre) raw (es, ?r))
      @ map (entry_at (pre @ raw # rest)) (filter (\<lambda>i. entry_line ((pre @ raw # rest) ! i)) [length (pre @ [raw])..<length ((pre @ [raw]) @ rest)])"
    using Cons.IH [of "pre @ [raw]" "fst (parse_line (length pre) raw (es, ?r))"] by simp
  finally show ?case unfolding up by (simp add: parse_line_fst here del: upt_Suc)
qed simp

lemma parse_ignore_entries:
  "parse_ignore txt =
    (let ls = split_on (CHR 0x0A) txt in map (entry_at ls) (filter (\<lambda>i. entry_line (ls ! i)) [0..<length ls]))"
  using parse_lines_entries [of "[]" "split_on (CHR 0x0A) txt" "[]"] by (simp add: parse_ignore_def Let_def)

section \<open>The expression and the date\<close>

text \<open>A match of the expression, by its place in the line: \<open>exp:\<close> and a date, with no word character on either side.\<close>

definition exp_at :: "bool \<Rightarrow> string \<Rightarrow> nat \<Rightarrow> string \<Rightarrow> bool" where
  "exp_at after_word line n d \<longleftrightarrow>
     take 4 (drop n line) = ''exp:'' \<and> take 10 (drop 4 (drop n line)) = d \<and> date_only d
     \<and> (if n = 0 then \<not> after_word else \<not> word_char (line ! (n - 1)))
     \<and> (case drop 14 (drop n line) of [] \<Rightarrow> True | c # _ \<Rightarrow> \<not> word_char c)"

definition first_exp :: "string \<Rightarrow> string \<Rightarrow> bool" where
  "first_exp line d \<longleftrightarrow> (\<exists>n. exp_at False line n d \<and> (\<forall>n'<n. \<forall>d'. \<not> exp_at False line n' d'))"

lemma exp_at_0: "exp_at b s 0 d \<longleftrightarrow> exp_here b s = Some d"
  by (auto simp: exp_at_def exp_here_def)

lemma exp_at_Suc: "exp_at b (c # s) (Suc n) d \<longleftrightarrow> exp_at (word_char c) s n d"
  by (cases n) (simp_all add: exp_at_def del: drop_drop)

lemma match_exp_first: "match_exp b s = Some d \<longleftrightarrow> (\<exists>n. exp_at b s n d \<and> (\<forall>n'<n. \<forall>d'. \<not> exp_at b s n' d'))"
proof (induction b s rule: match_exp.induct)
  case (1 b)
  then show ?case by (simp add: exp_at_def)
next
  case (2 b c s)
  show ?case
  proof (cases "exp_here b (c # s)")
    case None
    have "(\<exists>n. exp_at b (c # s) n d \<and> (\<forall>n'<n. \<forall>d'. \<not> exp_at b (c # s) n' d'))
        \<longleftrightarrow> (\<exists>n. exp_at b (c # s) (Suc n) d \<and> (\<forall>n'<n. \<forall>d'. \<not> exp_at b (c # s) (Suc n') d'))" (is "?L \<longleftrightarrow> ?R")
    proof
      assume ?L
      then obtain n where n: "exp_at b (c # s) n d" "\<forall>n'<n. \<forall>d'. \<not> exp_at b (c # s) n' d'" by blast
      then have "n \<noteq> 0" using None by (metis exp_at_0 option.distinct(1))
      with n show ?R by (cases n) auto
    next
      assume ?R
      then obtain n where "exp_at b (c # s) (Suc n) d" "\<forall>n'<n. \<forall>d'. \<not> exp_at b (c # s) (Suc n') d'" by blast
      moreover have "\<not> exp_at b (c # s) 0 d'" for d' using None by (simp add: exp_at_0)
      ultimately show ?L by (metis less_Suc_eq_0_disj)
    qed
    with None 2 show ?thesis by (simp add: exp_at_Suc)
  next
    case (Some d1)
    then have "exp_at b (c # s) 0 d1" by (simp add: exp_at_0)
    moreover have "d = d1" if "exp_at b (c # s) n d" "\<forall>n'<n. \<forall>d'. \<not> exp_at b (c # s) n' d'" for n
      using that Some \<open>exp_at b (c # s) 0 d1\<close> by (cases n) (auto simp: exp_at_0)
    ultimately show ?thesis using Some by auto
  qed
qed

text \<open>What the upper bound means for a date: a day of the calendar is at most 90 days after today. A month or a day no calendar has is
  not bounded, and a day its month does not have is what the engine makes of it.\<close>

definition expiry_ok :: "(string \<Rightarrow> jsnum) \<Rightarrow> int \<Rightarrow> string \<Rightarrow> bool" where
  "expiry_ok engine now d \<longleftrightarrow>
     (let y = part 0 4 d; m = part 5 2 d; dy = part 8 2 d; day0 = now div 86400000 * 86400000 in
      if m < 1 \<or> 12 < m \<or> dy < 1 \<or> 31 < dy then True
      else if dy \<le> days_in_month y m then date_ms y m dy \<le> day0 + 90 * 86400000
      else \<not> js_gt (js_sub (engine d) (Fin (of_int day0))) (Fin (of_int (90 * 86400000))))"

lemma digits_val_bound: "list_all is_digit ds \<Longrightarrow> 0 \<le> digits_val 10 ds \<and> digits_val 10 ds < 10 ^ length ds"
proof (induction ds rule: rev_induct)
  case (snoc c ds)
  then have "0 \<le> digit_val c" "digit_val c \<le> 9" by (auto simp: digit_val_def is_digit_def)
  with snoc show ?case by auto
qed simp

lemma date_year: "date_only d \<Longrightarrow> 0 \<le> part 0 4 d \<and> part 0 4 d < 10000"
proof -
  assume "date_only d"
  then have "list_all is_digit (take 4 d)" "length (take 4 d) = 4"
    by (auto simp: date_only_def matches_def list_all2_Cons1)
  with digits_val_bound [of "take 4 d"] show ?thesis by (simp add: part_def)
qed

lemma day_from_month_bound: "m \<le> 12 \<Longrightarrow> 0 \<le> day_from_month y m \<and> day_from_month y m \<le> 31 * 11"
proof -
  assume "m \<le> 12"
  have "0 \<le> sum_list (map (\<lambda>i. days_in_month y (int i)) xs) \<and> sum_list (map (\<lambda>i. days_in_month y (int i)) xs) \<le> 31 * int (length xs)" for xs
  proof (induction xs)
    case (Cons x xs)
    have "0 \<le> days_in_month y (int x) \<and> days_in_month y (int x) \<le> 31" by (simp add: days_in_month_def)
    with Cons show ?case by auto
  qed simp
  from this [of "[1..<nat m]"] \<open>m \<le> 12\<close> show ?thesis by (auto simp: day_from_month_def)
qed

lemma date_ms_bound:
  assumes "0 \<le> y" "y < 10000" "m \<le> 12" "1 \<le> d" "d \<le> 31"
  shows "\<bar>date_ms y m d\<bar> < 400000000000000"
proof -
  have "day_from_year y < 3700000" "- 1000000 < day_from_year y" using assms by (auto simp: day_from_year_def)
  with day_from_month_bound [OF assms(3), of y] assms show ?thesis by (auto simp: date_ms_def DAY_def)
qed

lemma expiry_iff:
  assumes "date_only d" "0 \<le> now" "now < 253402300800000"
  shows "\<not> js_gt (js_sub (date_parse engine d) (Fin (of_int (today now)))) (Fin (of_int (90 * DAY))) \<longleftrightarrow> expiry_ok engine now d"
proof (cases "part 5 2 d < 1 \<or> 12 < part 5 2 d \<or> part 8 2 d < 1 \<or> 31 < part 8 2 d")
  case True
  then have "date_parse engine d = NaN" using assms(1) by (simp add: date_parse_def date_of_def Let_def)
  with True show ?thesis by (simp add: expiry_ok_def js_gt_def Let_def)
next
  case False
  have t: "today now = now div 86400000 * 86400000" by (simp add: today_def DAY_def)
  show ?thesis
  proof (cases "part 8 2 d \<le> days_in_month (part 0 4 d) (part 5 2 d)")
    case True
    let ?x = "date_ms (part 0 4 d) (part 5 2 d) (part 8 2 d)"
    have "date_parse engine d = Fin (of_int ?x)" using assms(1) False True by (simp add: date_parse_def date_of_def Let_def)
    moreover have "\<bar>?x - today now\<bar> < 2 ^ 52"
    proof -
      have "\<bar>?x\<bar> < 400000000000000" using False date_year [OF assms(1)] by (intro date_ms_bound) auto
      moreover have "0 \<le> today now" "today now \<le> now" using assms(2) by (auto simp: t)
      ultimately show ?thesis using assms(3) by simp
    qed
    then have "js_sub (Fin (of_int ?x)) (Fin (of_int (today now))) = Fin (of_int (?x - today now))"
      using to_double_of_int by (simp flip: of_int_diff)
    ultimately show ?thesis using False True by (auto simp: expiry_ok_def Let_def t DAY_def simp flip: of_int_diff)
  next
    case day: False
    then have "date_parse engine d = engine d" using assms(1) False by (simp add: date_parse_def date_of_def Let_def)
    with False day show ?thesis by (simp add: expiry_ok_def Let_def t DAY_def)
  qed
qed


definition demo_ignore :: string where
  "demo_ignore = ''# fix pending'' @ [CHR 0x0A] @ ''CVE-2025-0001 exp:2025-02-01''"


text \<open>A date that does not exist is never more than 90 days away: the comparison with not-a-number is
  false, so the upper bound does not hold for it.\<close>

lemma impossible_date_passes:
  "snd (image_main engine now (\<lambda>_. Inr (''# fix pending'' @ [CHR 0x0A] @ ''CVE-2025-0001 exp:2099-99-99'')) file) = 0"
proof -
  let ?t = "''# fix pending'' @ [CHR 0x0A] @ ''CVE-2025-0001 exp:2099-99-99''"
  have "parse_ignore ?t = [\<lparr>ent_id = ''CVE-2025-0001'', ent_reason = Some ''fix pending'', ent_exp = Some ''2099-99-99'', ent_lineNo = 2\<rparr>]"
    by code_simp
  moreover have "date_parse engine ''2099-99-99'' = NaN" by code_simp
  ultimately have "image_evaluate engine now ?t = (parse_ignore ?t, [], True)"
    by (simp add: image_evaluate_def Let_def checkEntries_def map_filter_simps entry_problem_def js_gt_def)
  then show ?thesis by (simp add: image_main_def)
qed

end
