(* ===== verification/Sast_Gate.thy ===== *)
theory Sast_Gate
  imports JsConvert Json Js_Date
begin

text \<open>
  \<open>security/sast/gate.mjs\<close>: the gate over the SARIF files of CodeQL. A file is a JSON value; every access that
  throws in the source is \<open>Inl\<close>, and a throw ends with exit code 1.
\<close>

section \<open>Rules\<close>

text \<open>The table of rules of a run: \<open>rules.set(r.id, r)\<close> for every rule of the driver and the extensions. A key
  that is an object is found by nothing read from elsewhere in the file.\<close>

definition add_rule :: "jsval \<Rightarrow> (jsval \<times> jsval) list \<Rightarrow> thrown + (jsval \<times> jsval) list" where
  "add_rule r rules = and_then (member_of r ''id'') (\<lambda>i. Inr (obj_set i r rules))"

definition add_component :: "jsval \<Rightarrow> (jsval \<times> jsval) list \<Rightarrow> thrown + (jsval \<times> jsval) list" where
  "add_component c rules = and_then (iterate (js_get c ''rules'')) (\<lambda>rs. fold_then add_rule rs rules)"

definition rules_of :: "jsval \<Rightarrow> thrown + (jsval \<times> jsval) list" where
  "rules_of run =
     and_then (member_of run ''tool'') (\<lambda>tool.
     and_then (iterate (js_get tool ''extensions'')) (\<lambda>exts.
       fold_then add_component (js_get tool ''driver'' # exts) []))"

definition rule_get :: "(jsval \<times> jsval) list \<Rightarrow> jsval \<Rightarrow> jsval" where
  "rule_get rules i = (if is_object i then JUndefined else case map_of rules i of Some r \<Rightarrow> r | None \<Rightarrow> JUndefined)"

section \<open>Results\<close>

text \<open>\<open>v?.length\<close> as a condition, and \<open>v?.[0]\<close>.\<close>

fun has_length :: "jsval \<Rightarrow> bool" where
  "has_length (JArr vs) = (vs \<noteq> [])"
| "has_length (JStr s) = (s \<noteq> [])"
| "has_length v = truthy (js_get v ''length'')"

fun first_of :: "jsval \<Rightarrow> jsval" where
  "first_of (JArr (v # _)) = v"
| "first_of (JStr (c # _)) = JStr [c]"
| "first_of v = js_get v ''0''"

record finding =
  fi_rule :: jsval
  fi_score :: jsnum
  fi_where :: string
  fi_message :: jsval

definition suppressed :: "jsval \<Rightarrow> bool" where
  "suppressed res \<longleftrightarrow> has_length (js_get res ''suppressions'')"

definition rule_id :: "jsval \<Rightarrow> jsval" where
  "rule_id res = js_or (js_get res ''ruleId'') (js_get (js_get res ''rule'') ''id'')"

definition severity :: "(jsval \<times> jsval) list \<Rightarrow> jsval \<Rightarrow> jsval" where
  "severity rules res = js_get (js_get (rule_get rules (rule_id res)) ''properties'') ''security-severity''"

definition location_of :: "jsval \<Rightarrow> thrown + string" where
  "location_of res =
     (let loc = js_get (first_of (js_get res ''locations'')) ''physicalLocation'' in
      and_then (string_of (js_or (js_get (js_get loc ''artifactLocation'') ''uri'') (JStr ''?''))) (\<lambda>uri.
      and_then (string_of (js_or (js_get (js_get loc ''region'') ''startLine'') (JStr ''?''))) (\<lambda>line.
        Inr (uri @ '':'' @ line))))"

text \<open>The body of the loop over the results. \<open>below\<close> is \<open>score < threshold\<close>.\<close>

definition below :: "jsnum \<Rightarrow> jsnum \<Rightarrow> bool" where
  "below score threshold \<longleftrightarrow> js_gt threshold score"

definition add_result ::
  "jsnum \<Rightarrow> (jsval \<times> jsval) list \<Rightarrow> jsval \<Rightarrow> finding list \<Rightarrow> thrown + finding list" where
  "add_result threshold rules res found =
     (if nullish res then Inl (type_error ''Cannot read properties of null'')
      else if suppressed res then Inr found
      else and_then (number_of (severity rules res)) (\<lambda>score.
        if \<not> is_finite score \<or> below score threshold then Inr found
        else and_then (location_of res) (\<lambda>pos.
          Inr (found @ [\<lparr>fi_rule = rule_id res, fi_score = score, fi_where = pos,
                         fi_message = js_or (js_get (js_get res ''message'') ''text'') (JStr [])\<rparr>]))))"

definition add_run :: "jsnum \<Rightarrow> jsval \<Rightarrow> finding list \<Rightarrow> thrown + finding list" where
  "add_run threshold run found =
     and_then (rules_of run) (\<lambda>rules.
     and_then (iterate (js_get run ''results'')) (\<lambda>rs. fold_then (add_result threshold rules) rs found))"

definition blockingFindings :: "jsnum \<Rightarrow> jsval \<Rightarrow> thrown + finding list" where
  "blockingFindings threshold sarif =
     and_then (member_of sarif ''runs'') (\<lambda>runs.
     and_then (iterate runs) (\<lambda>rs. fold_then (add_run threshold) rs []))"

section \<open>The gate\<close>

definition THRESHOLD :: "string option \<Rightarrow> jsnum" where
  "THRESHOLD env = (case env of None \<Rightarrow> Fin 7 | Some s \<Rightarrow> string_to_number s)"

definition finding_line :: "finding \<Rightarrow> thrown + string" where
  "finding_line f =
     and_then (string_of (fi_rule f)) (\<lambda>rule.
     and_then (string_of (fi_message f)) (\<lambda>m.
       Inr (fi_where f @ ''  '' @ rule @ '' (security-severity '' @ num_string (fi_score f) @ '')  '' @ m)))"

definition sast_file ::
  "jsnum \<Rightarrow> (string \<Rightarrow> thrown + string) \<Rightarrow> string \<Rightarrow> string list \<times> nat \<Rightarrow> thrown + string list \<times> nat" where
  "sast_file threshold read file acc =
     and_then (read file) (\<lambda>txt.
     and_then (case json_parse txt of Some v \<Rightarrow> Inr v | None \<Rightarrow> Inl (error_of PlainError ''not valid JSON'')) (\<lambda>sarif.
     and_then (blockingFindings threshold sarif) (\<lambda>findings.
     and_then (fold_then (\<lambda>f ls. and_then (finding_line f) (\<lambda>l. Inr (ls @ [l]))) findings (fst acc)) (\<lambda>ls.
       Inr (ls, snd acc + length findings)))))"

definition sast_main :: "string option \<Rightarrow> (string \<Rightarrow> thrown + string) \<Rightarrow> string list \<Rightarrow> thrown + string list \<times> nat" where
  "sast_main env read files =
     (if files = [] then Inr ([''gate.mjs: no SARIF file given (did the CodeQL analyze step produce output?)''], 1)
      else and_then (fold_then (sast_file (THRESHOLD env) read) files ([], 0)) (\<lambda>(ls, failed).
        Inr (if 0 < failed
             then (ls @ [''CodeQL gate FAILED: '' @ nat_string failed @ '' finding(s) at security-severity >= '' @ num_string (THRESHOLD env)], 1)
             else (ls, 0))))"

definition sast_exit :: "thrown + string list \<times> nat \<Rightarrow> nat" where
  "sast_exit r = (case r of Inl e \<Rightarrow> 1 | Inr out \<Rightarrow> snd out)"

section \<open>When the gate passes\<close>

text \<open>A result that blocks: it is not suppressed, and the severity of its rule is a finite number that is not
  below the threshold.\<close>

definition harmless :: "jsnum \<Rightarrow> (jsval \<times> jsval) list \<Rightarrow> jsval \<Rightarrow> bool" where
  "harmless threshold rules res \<longleftrightarrow>
     \<not> nullish res
     \<and> (suppressed res
        \<or> (case number_of (severity rules res) of Inr score \<Rightarrow> \<not> is_finite score \<or> below score threshold | Inl _ \<Rightarrow> False))"

definition harmless_run :: "jsnum \<Rightarrow> jsval \<Rightarrow> bool" where
  "harmless_run threshold run \<longleftrightarrow>
     (\<exists>rules rs. rules_of run = Inr rules \<and> iterate (js_get run ''results'') = Inr rs \<and> list_all (harmless threshold rules) rs)"

definition harmless_file :: "jsnum \<Rightarrow> jsval \<Rightarrow> bool" where
  "harmless_file threshold sarif \<longleftrightarrow>
     \<not> nullish sarif \<and> (\<exists>rs. iterate (js_get sarif ''runs'') = Inr rs \<and> list_all (harmless_run threshold) rs)"

lemma add_result_same: "harmless threshold rules res \<Longrightarrow> add_result threshold rules res found = Inr found"
  by (auto simp: harmless_def add_result_def split: sum.splits)

lemma add_result_grows:
  assumes "add_result threshold rules res found = Inr found'"
  shows "length found \<le> length found' \<and> (length found' = length found \<longrightarrow> harmless threshold rules res)"
  using assms by (auto simp: harmless_def add_result_def and_then_Inr split: if_splits sum.splits)

text \<open>A loop that only appends and whose result is no longer than what it started with: no round appended.\<close>

lemma fold_then_grows:
  assumes "\<And>x s s'. f x s = Inr s' \<Longrightarrow> m s \<le> (m s' :: nat) \<and> (m s' = m s \<longrightarrow> P x)"
    and "fold_then f xs s = Inr s'"
  shows "m s \<le> m s' \<and> (m s' = m s \<longrightarrow> list_all P xs)"
  using assms(2)
proof (induction xs arbitrary: s)
  case (Cons x xs)
  then obtain s1 where s1: "f x s = Inr s1" "fold_then f xs s1 = Inr s'" by (auto simp: and_then_Inr)
  from assms(1) [OF s1(1)] Cons.IH [OF s1(2)] show ?case by auto
qed simp

lemma fold_then_same:
  assumes "\<And>x s. P x \<Longrightarrow> f x s = Inr s"
  shows "list_all P xs \<Longrightarrow> fold_then f xs s = Inr s"
  using assms by (induction xs) auto

lemma add_run_grows:
  assumes "add_run threshold run found = Inr found'"
  shows "length found \<le> length found' \<and> (length found' = length found \<longrightarrow> harmless_run threshold run)"
proof -
  obtain rules rs where r: "rules_of run = Inr rules" "iterate (js_get run ''results'') = Inr rs"
    and f: "fold_then (add_result threshold rules) rs found = Inr found'"
    using assms by (auto simp: add_run_def and_then_Inr)
  from fold_then_grows [where m = length, OF add_result_grows f] r show ?thesis by (auto simp: harmless_run_def)
qed

lemma add_run_same: "harmless_run threshold run \<Longrightarrow> add_run threshold run found = Inr found"
  using fold_then_same [where f = "add_result threshold _", OF add_result_same] by (auto simp: add_run_def harmless_run_def)

lemma blockingFindings_none: "blockingFindings threshold sarif = Inr [] \<longleftrightarrow> harmless_file threshold sarif"
proof
  assume "blockingFindings threshold sarif = Inr []"
  then obtain rs where rs: "\<not> nullish sarif" "iterate (js_get sarif ''runs'') = Inr rs" "fold_then (add_run threshold) rs [] = Inr []"
    by (auto simp: blockingFindings_def member_of_def and_then_Inr split: if_splits)
  from fold_then_grows [where m = length, OF add_run_grows rs(3)] rs show "harmless_file threshold sarif"
    by (auto simp: harmless_file_def)
next
  assume "harmless_file threshold sarif"
  then show "blockingFindings threshold sarif = Inr []"
    using fold_then_same [where f = "add_run threshold", OF add_run_same]
    by (auto simp: harmless_file_def blockingFindings_def member_of_def)
qed

definition file_passes :: "jsnum \<Rightarrow> (string \<Rightarrow> thrown + string) \<Rightarrow> string \<Rightarrow> bool" where
  "file_passes threshold read file \<longleftrightarrow>
     (\<exists>txt sarif. read file = Inr txt \<and> json_parse txt = Some sarif \<and> harmless_file threshold sarif)"

lemma sast_file_grows:
  assumes "sast_file threshold read file acc = Inr acc'"
  shows "snd acc \<le> snd acc' \<and> (snd acc' = snd acc \<longrightarrow> file_passes threshold read file)"
  using assms
  by (auto simp: sast_file_def and_then_Inr file_passes_def blockingFindings_none [symmetric] split: option.splits)

lemma sast_file_same: "file_passes threshold read file \<Longrightarrow> sast_file threshold read file acc = Inr acc"
  by (auto simp: sast_file_def file_passes_def blockingFindings_none [symmetric])

lemma sast_exit_0:
  "sast_exit (sast_main env read files) = 0 \<longleftrightarrow> files \<noteq> [] \<and> list_all (file_passes (THRESHOLD env) read) files"
proof
  assume L: "sast_exit (sast_main env read files) = 0"
  then obtain ls n where "fold_then (sast_file (THRESHOLD env) read) files ([], 0) = Inr (ls, n)" "n = 0" "files \<noteq> []"
    by (auto simp: sast_exit_def sast_main_def and_then_def split: sum.splits if_splits)
  with fold_then_grows [where m = snd, OF sast_file_grows] show "files \<noteq> [] \<and> list_all (file_passes (THRESHOLD env) read) files"
    by fastforce
next
  assume "files \<noteq> [] \<and> list_all (file_passes (THRESHOLD env) read) files"
  with fold_then_same [where f = "sast_file (THRESHOLD env) read", OF sast_file_same, where xs = files and s = "([], 0)"]
  show "sast_exit (sast_main env read files) = 0" by (simp add: sast_exit_def sast_main_def)
qed

section \<open>The report, read directly\<close>

text \<open>The same verdict without the loop and the table: the elements of what the report lists, the last rule
  listed with an id, and the comparison of a severity with the threshold written out.\<close>

definition listed_components :: "jsval \<Rightarrow> jsval list" where
  "listed_components run = js_get (js_get run ''tool'') ''driver'' # elems (js_get (js_get run ''tool'') ''extensions'')"

definition listed_rules :: "jsval list \<Rightarrow> jsval list" where
  "listed_rules cs = concat (map (\<lambda>c. elems (js_get c ''rules'')) cs)"

definition readable_rules :: "jsval \<Rightarrow> bool" where
  "readable_rules run \<longleftrightarrow>
     \<not> nullish run \<and> iterable (js_get (js_get run ''tool'') ''extensions'')
     \<and> list_all (\<lambda>c. iterable (js_get c ''rules'')) (listed_components run)
     \<and> list_all (\<lambda>r. \<not> nullish r) (listed_rules (listed_components run))"

definition reported_rule :: "jsval \<Rightarrow> jsval" where
  "reported_rule res = (let i = js_get res ''ruleId'' in if i = JUndefined \<or> i = JNull then js_get (js_get res ''rule'') ''id'' else i)"

definition rated :: "jsval \<Rightarrow> jsval \<Rightarrow> jsval" where
  "rated run res =
     (if is_object (reported_rule res) then JUndefined
      else (case find (\<lambda>r. js_get r ''id'' = reported_rule res) (rev (listed_rules (listed_components run))) of
          Some r \<Rightarrow> js_get (js_get r ''properties'') ''security-severity''
        | None \<Rightarrow> JUndefined))"

fun reaches :: "rat \<Rightarrow> jsnum \<Rightarrow> bool" where
  "reaches score (Fin t) = (t \<le> score)"
| "reaches score (Infty up) = (\<not> up)"
| "reaches score NaN = True"

definition unsuppressed :: "jsval \<Rightarrow> bool" where
  "unsuppressed res \<longleftrightarrow>
     (case js_get res ''suppressions'' of
        JArr vs \<Rightarrow> vs = [] | JStr s \<Rightarrow> s = [] | JUndefined \<Rightarrow> True | JNull \<Rightarrow> True | v \<Rightarrow> \<not> truthy (js_get v ''length''))"

text \<open>A result that does not stop the pipeline: it is suppressed, or its rule has no severity that is a number, or one that
  does not reach the threshold. A severity that cannot be converted to a number throws.\<close>

definition passing_result :: "jsnum \<Rightarrow> jsval \<Rightarrow> jsval \<Rightarrow> bool" where
  "passing_result threshold run res \<longleftrightarrow>
     \<not> nullish res
     \<and> (if unsuppressed res
        then (case number_of (rated run res) of Inr (Fin score) \<Rightarrow> \<not> reaches score threshold | Inr _ \<Rightarrow> True | Inl _ \<Rightarrow> False)
        else True)"

definition passing_report :: "jsnum \<Rightarrow> jsval \<Rightarrow> bool" where
  "passing_report threshold sarif \<longleftrightarrow>
     \<not> nullish sarif \<and> iterable (js_get sarif ''runs'')
     \<and> list_all (\<lambda>run. readable_rules run \<and> iterable (js_get run ''results'')
          \<and> list_all (passing_result threshold run) (elems (js_get run ''results''))) (elems (js_get sarif ''runs''))"

lemma add_rules:
  "fold_then add_rule rs rules = Inr rules' \<longleftrightarrow>
    list_all (\<lambda>r. \<not> nullish r) rs \<and> rules' = fold (\<lambda>r. obj_set (js_get r ''id'') r) rs rules"
  by (induction rs arbitrary: rules) (auto simp: and_then_Inr add_rule_def member_of_def)

lemma add_components:
  "fold_then add_component cs rules = Inr rules' \<longleftrightarrow>
    list_all (\<lambda>c. iterable (js_get c ''rules'')) cs \<and> list_all (\<lambda>r. \<not> nullish r) (listed_rules cs)
    \<and> rules' = fold (\<lambda>r. obj_set (js_get r ''id'') r) (listed_rules cs) rules"
  by (induction cs arbitrary: rules) (auto simp: and_then_Inr add_component_def iterate_elems add_rules listed_rules_def)

lemma rules_of_listed:
  "rules_of run = Inr rules \<longleftrightarrow>
    readable_rules run \<and> rules = fold (\<lambda>r. obj_set (js_get r ''id'') r) (listed_rules (listed_components run)) []"
  by (auto simp: rules_of_def readable_rules_def listed_components_def member_of_def and_then_Inr iterate_elems add_components
      simp del: fold_then.simps)

lemma reported_rule_id: "reported_rule res = rule_id res"
  by (cases "js_get res ''ruleId''") (simp_all add: reported_rule_def rule_id_def js_or_def)

lemma rated_severity: "rules_of run = Inr rules \<Longrightarrow> severity rules res = rated run res"
  by (simp add: rules_of_listed severity_def rule_get_def rated_def reported_rule_id map_of_assigned split: option.split)

lemma below_reaches: "below (Fin score) threshold \<longleftrightarrow> \<not> reaches score threshold"
  by (cases threshold) (auto simp: below_def js_gt_def)

lemma unsuppressed_iff: "unsuppressed res \<longleftrightarrow> \<not> suppressed res"
  by (cases "js_get res ''suppressions''") (auto simp: unsuppressed_def suppressed_def)

lemma harmless_passing: "rules_of run = Inr rules \<Longrightarrow> harmless threshold rules res \<longleftrightarrow> passing_result threshold run res"
  by (auto simp: harmless_def passing_result_def rated_severity unsuppressed_iff below_reaches split: sum.splits jsnum.splits)

lemma harmless_report: "harmless_file threshold sarif \<longleftrightarrow> passing_report threshold sarif"
proof -
  have "harmless_run threshold run \<longleftrightarrow> readable_rules run \<and> iterable (js_get run ''results'')
      \<and> list_all (passing_result threshold run) (elems (js_get run ''results''))" for run
    using harmless_passing [of run] by (auto simp: harmless_run_def iterate_elems rules_of_listed list_all_iff)
  then show ?thesis by (simp add: harmless_file_def passing_report_def iterate_elems list_all_iff)
qed

text \<open>C39: the CodeQL gate passes (exit code 0) exactly when at least one file is given and every file can be read, is
  JSON whose runs, rules and results can be walked, and has no result that is unsuppressed and whose rule, the last one listed with
  its id, has a security severity that is a number at or above the threshold; the threshold is 7 unless
  \<open>CODEQL_FAIL_SEVERITY\<close> is set, and one that is no number is reached by every severity. Every throw is exit code 1.\<close>

theorem sast_gate_passes_iff:
  "sast_exit (sast_main env read files) = 0 \<longleftrightarrow>
    files \<noteq> []
    \<and> list_all (\<lambda>file. \<exists>txt sarif. read file = Inr txt \<and> json_parse txt = Some sarif
        \<and> passing_report (case env of None \<Rightarrow> Fin 7 | Some v \<Rightarrow> string_to_number v) sarif) files"
proof -
  have "list_all (\<lambda>file. \<exists>txt sarif. read file = Inr txt \<and> json_parse txt = Some sarif
        \<and> passing_report (case env of None \<Rightarrow> Fin 7 | Some v \<Rightarrow> string_to_number v) sarif) files
      \<longleftrightarrow> list_all (file_passes (THRESHOLD env) read) files"
    by (simp add: file_passes_def [abs_def] harmless_report THRESHOLD_def)
  then show ?thesis by (simp only: sast_exit_0)
qed

text \<open>A threshold that is no number blocks every rated finding; the gate does not fail open.\<close>

lemma below_NaN: "\<not> below score NaN"
  by (cases score) (simp_all add: below_def js_gt_def)

text \<open>A file without runs passes.\<close>

lemma empty_report_passes: "file_passes threshold (\<lambda>_. Inr ''{}'') file"
proof -
  have "json_parse ''{}'' = Some (JObj [])" by code_simp
  then show ?thesis by (simp add: file_passes_def harmless_file_def)
qed

end
