(* ===== verification/Commit_Gate.thy ===== *)
theory Commit_Gate
  imports JsConvert
begin

text \<open>
  \<open>security/commit-lint/gate.mjs\<close>: the subject of every commit follows the Conventional Commits grammar. The
  regular expressions are matchers here; the property relates them to the grammar they stand for.
\<close>

section \<open>The regular expressions\<close>

definition TYPES :: "string list" where
  "TYPES = [''feat'', ''fix'', ''docs'', ''style'', ''refactor'', ''perf'', ''test'', ''build'', ''ci'', ''chore'', ''revert'']"

text \<open>The class \<open>[\w./-]\<close>, the line terminators (those the dot does not match), and the rest of a subject:
  a character that is no white space and no line terminator after it.\<close>

definition scope_char :: "char \<Rightarrow> bool" where
  "scope_char c \<longleftrightarrow>
     is_digit c \<or> (97 \<le> byte (to_lower c) \<and> byte (to_lower c) \<le> 122) \<or> c = CHR ''_'' \<or> c = CHR ''.'' \<or> c = CHR ''/'' \<or> c = CHR ''-''"

definition line_break :: "nat list \<Rightarrow> bool" where
  "line_break bs \<longleftrightarrow> take 1 bs = [10] \<or> take 1 bs = [13] \<or> take 3 bs = [226, 128, 168] \<or> take 3 bs = [226, 128, 169]"

fun one_line :: "string \<Rightarrow> bool" where
  "one_line [] = True"
| "one_line (c # s) = (\<not> line_break (map byte (c # s)) \<and> one_line s)"

definition subject_rest :: "string \<Rightarrow> bool" where
  "subject_rest s \<longleftrightarrow> s \<noteq> [] \<and> space_bytes (map byte s) = 0 \<and> one_line s"

text \<open>What follows the type: \<open>(\([\w./-]+\))?!?: \S.*$\<close>.\<close>

definition after_scope :: "string \<Rightarrow> bool" where
  "after_scope s =
     (let t = (if take 1 s = ''!'' then drop 1 s else s) in take 2 t = '': '' \<and> subject_rest (drop 2 t))"

definition after_type :: "string \<Rightarrow> bool" where
  "after_type s =
     (if take 1 s = ''(''
      then takeWhile scope_char (drop 1 s) \<noteq> [] \<and> take 1 (dropWhile scope_char (drop 1 s)) = '')''
         \<and> after_scope (drop 1 (dropWhile scope_char (drop 1 s)))
      else after_scope s)"

definition CONVENTIONAL :: "string \<Rightarrow> bool" where
  "CONVENTIONAL s \<longleftrightarrow> list_ex (\<lambda>t. take (length t) s = t \<and> after_type (drop (length t) s)) TYPES"

text \<open>\<open>/^(Revert ".+"|Merge (pull request|branch) )/\<close>: after the opening quote, a closing quote that is not the
  first character, with no line terminator before it.\<close>

fun quote_follows :: "string \<Rightarrow> bool" where
  "quote_follows [] = False"
| "quote_follows (c # s) = (c = CHR 0x22 \<or> (\<not> line_break (map byte (c # s)) \<and> quote_follows s))"

definition reverted :: "string \<Rightarrow> bool" where
  "reverted s \<longleftrightarrow> (case s of [] \<Rightarrow> False | c # r \<Rightarrow> \<not> line_break (map byte s) \<and> quote_follows r)"

definition EXEMPT :: "string \<Rightarrow> bool" where
  "EXEMPT s \<longleftrightarrow>
     (take 8 s = ''Revert '' @ [CHR 0x22] \<and> reverted (drop 8 s))
     \<or> take 19 s = ''Merge pull request '' \<or> take 13 s = ''Merge branch ''"

section \<open>The gate\<close>

definition invalid_reason :: string where
  "invalid_reason = ''must match '' @ [CHR 0x22] @ ''type(scope)?: subject'' @ [CHR 0x22] @ '' with type one of '' @ join_with '', '' TYPES"

definition invalidSubjects :: "string list \<Rightarrow> (string \<times> string) list" where
  "invalidSubjects subjects =
     map (\<lambda>s. (s, invalid_reason))
       (filter (\<lambda>s. \<not> EXEMPT s \<and> \<not> CONVENTIONAL s) (filter (\<lambda>s. 0 < length s) (map js_trim subjects)))"

text \<open>\<open>main\<close>: the lines on the error stream and the exit code.\<close>

definition commit_main :: "string \<Rightarrow> string list \<times> nat" where
  "commit_main stdin =
     (let invalid = invalidSubjects (split_on (CHR 0x0A) stdin) in
      if invalid = [] then ([], 0)
      else (map (\<lambda>(s, r). [CHR 0x22] @ s @ [CHR 0x22] @ ''  '' @ r) invalid
            @ [''Commit message gate FAILED: '' @ nat_string (length invalid) @ '' non-conforming subject(s)''], 1))"

section \<open>The grammar\<close>

definition conventional_grammar :: "string \<Rightarrow> bool" where
  "conventional_grammar s \<longleftrightarrow>
     (\<exists>t scope bang subject. s = t @ scope @ bang @ '': '' @ subject \<and> t \<in> set TYPES
        \<and> (scope = [] \<or> (\<exists>x. scope = ''('' @ x @ '')'' \<and> x \<noteq> [] \<and> list_all scope_char x))
        \<and> (bang = [] \<or> bang = ''!'') \<and> subject_rest subject)"

lemma after_scope_grammar: "after_scope s \<longleftrightarrow> (\<exists>bang subject. s = bang @ '': '' @ subject \<and> (bang = [] \<or> bang = ''!'') \<and> subject_rest subject)"
proof
  assume a: "after_scope s"
  let ?b = "if take 1 s = ''!'' then ''!'' else []" and ?t = "if take 1 s = ''!'' then drop 1 s else s"
  have t: "take 2 ?t = '': ''" "subject_rest (drop 2 ?t)" using a by (simp_all only: after_scope_def Let_def)
  have "s = ?b @ ?t" by (cases s) auto
  also have "?t = '': '' @ drop 2 ?t" using append_take_drop_id [of 2 ?t] unfolding t(1) by (rule sym)
  finally show "\<exists>bang subject. s = bang @ '': '' @ subject \<and> (bang = [] \<or> bang = ''!'') \<and> subject_rest subject"
    using t(2) by (intro exI [of _ ?b] exI [of _ "drop 2 ?t"]) auto
qed (auto simp: after_scope_def)

lemma scope_paren: "\<not> scope_char (CHR '')'')"
  by (simp add: scope_char_def is_digit_def to_lower_def byte_def)

lemma after_type_grammar:
  "after_type s \<longleftrightarrow> (\<exists>scope rest. s = scope @ rest \<and> after_scope rest
     \<and> (scope = [] \<or> (\<exists>x. scope = ''('' @ x @ '')'' \<and> x \<noteq> [] \<and> list_all scope_char x)))"
  (is "_ \<longleftrightarrow> ?R")
proof
  assume a: "after_type s"
  show ?R
  proof (cases "take 1 s = ''(''")
    case True
    let ?x = "takeWhile scope_char (drop 1 s)" and ?r = "dropWhile scope_char (drop 1 s)"
    have x: "?x \<noteq> []" "take 1 ?r = '')''" "after_scope (drop 1 ?r)" using a True by (simp_all add: after_type_def)
    have "s = ''('' @ drop 1 s" using True append_take_drop_id [of 1 s] by simp
    also have "drop 1 s = ?x @ ?r" by simp
    also have "?r = '')'' @ drop 1 ?r" using x(2) append_take_drop_id [of 1 ?r] by simp
    finally have "s = (''('' @ ?x @ '')'') @ drop 1 ?r" by simp
    with x show ?thesis by (metis list_all_iff set_takeWhileD)
  next
    case False
    with a show ?thesis by (auto simp: after_type_def)
  qed
next
  assume ?R
  then obtain scope rest where s: "s = scope @ rest" "after_scope rest"
    "scope = [] \<or> (\<exists>x. scope = ''('' @ x @ '')'' \<and> x \<noteq> [] \<and> list_all scope_char x)" by blast
  from s(3) show "after_type s"
  proof
    assume "scope = []"
    moreover have "take 1 rest \<noteq> ''(''" using s(2) unfolding after_scope_grammar by auto
    ultimately show ?thesis using s by (simp add: after_type_def)
  next
    assume "\<exists>x. scope = ''('' @ x @ '')'' \<and> x \<noteq> [] \<and> list_all scope_char x"
    then obtain x where x: "scope = ''('' @ x @ '')''" "x \<noteq> []" "list_all scope_char x" by blast
    then have "takeWhile scope_char (x @ '')'' @ rest) = x" "dropWhile scope_char (x @ '')'' @ rest) = '')'' @ rest"
      using scope_paren by (auto simp: list_all_iff takeWhile_append dropWhile_append)
    with s x show ?thesis by (simp add: after_type_def)
  qed
qed

lemma CONVENTIONAL_grammar: "CONVENTIONAL s \<longleftrightarrow> conventional_grammar s"
proof -
  have "take (length t) s = t \<longleftrightarrow> (\<exists>r. s = t @ r)" for t by (metis append_eq_conv_conj)
  then have "CONVENTIONAL s \<longleftrightarrow> (\<exists>t r. t \<in> set TYPES \<and> s = t @ r \<and> after_type r)"
    by (auto simp: CONVENTIONAL_def list_ex_iff)
  then show ?thesis
    by (simp only: conventional_grammar_def after_type_grammar after_scope_grammar) blast
qed

text \<open>C40: the commit gate passes exactly when every line, trimmed, is empty, exempt (a revert or merge subject), or a
  sentence of the grammar \<open>type [(scope)] [!]: subject\<close> with one of the types, a scope of word characters,
  dots, slashes and dashes, and a subject that starts with a visible character.\<close>

theorem commit_gate_passes_iff:
  "snd (commit_main stdin) = 0 \<longleftrightarrow>
     list_all (\<lambda>l. js_trim l = [] \<or> EXEMPT (js_trim l) \<or> conventional_grammar (js_trim l)) (split_on (CHR 0x0A) stdin)"
proof -
  have "snd (commit_main stdin) = 0 \<longleftrightarrow> invalidSubjects (split_on (CHR 0x0A) stdin) = []"
    by (simp add: commit_main_def Let_def)
  also have "\<dots> \<longleftrightarrow> list_all (\<lambda>l. js_trim l = [] \<or> EXEMPT (js_trim l) \<or> CONVENTIONAL (js_trim l)) (split_on (CHR 0x0A) stdin)"
    by (auto simp: invalidSubjects_def filter_empty_conv list_all_iff)
  finally show ?thesis by (simp only: CONVENTIONAL_grammar)
qed

lemma commit_examples:
  "snd (commit_main (''feat(order-service)!: drop v0 api'' @ [CHR 0x0A] @ ''fix: x'' @ [CHR 0x0A])) = 0"
  "snd (commit_main ''feat(): x'') = 1" "snd (commit_main ''feature: x'') = 1"
  by code_simp+

end
