(* ===== verification/Spec2Isabelle.thy ===== *)
theory Spec2Isabelle
  imports Whole_System App_Modules Image_Gate Sast_Gate Commit_Gate
begin

text \<open>
  This development verifies the platform-engineering-lab: four TypeScript services under \<open>src/services\<close> and the
  four pipeline gates under \<open>src/security\<close>.

  \<^bold>\<open>The program.\<close> The api-gateway identifies, throttles and authenticates a request and proxies it by its path. The
  user-service keeps users, the order-service creates orders (it asks the user-service whether the user
  exists, through a Redis cache, stores the order and its idempotency key in one transaction, and publishes
  \<open>order.created\<close> over RabbitMQ), the notification-worker consumes these events and stores a notification for each.
  Every service verifies the caller's token again and decides by role and ownership. The gates are the
  scripts that let a pipeline pass: dependency advisories, image scan exceptions, CodeQL results, commit subjects.

  \<^bold>\<open>How code is modelled.\<close> A JavaScript string is the list of its UTF-8 bytes (\<open>Prelude\<close>); a value of JSON, a header or an
  environment variable is a \<open>jsval\<close>, a number a double with its rounding (\<open>JsValue\<close>); operations that throw on some
  values give \<open>Inl\<close> (\<open>JsConvert\<close>); \<open>JSON.parse\<close> and \<open>JSON.stringify\<close> are \<open>Json\<close>, \<open>Date.parse\<close> is \<open>Js_Date\<close>. An asynchronous method is a
  function from the state to its outcome (\<open>Inl\<close> of the thrown value) and the new state, written with the
  combinators of \<open>Async\<close>; the state is a record that holds the tables, the calls made to other systems, the log
  lines and the counters. Databases, brokers, Redis, the network, clocks, random ids, the token library, the rate
  limiter, the proxy library and the framework's pipes are parameters: functions that may answer each call
  differently and may fail at any of them.

  \<^bold>\<open>The theories.\<close>
  \<^item> \<open>Token_Verifier\<close>, \<open>Auth_Guard\<close>: \<open>auth/token-verifier.ts\<close>, \<open>auth.guard.ts\<close>, \<open>auth.decorators.ts\<close>, \<open>auth.metrics.ts\<close>. The guard never fails open,
    refusals look alike, nothing logged depends on the token.
  \<^item> \<open>User_Directory\<close>: \<open>infra/cache.service.ts\<close>, \<open>users/user-directory.service.ts\<close>. What a lookup answers, how often it asks and what it caches.
  \<^item> \<open>Orders_Store\<close>: the tables and statements, with the locale \<open>order_store\<close> for what the service relies on, interpreted on
    the PostgreSQL schema (\<open>pg_orders\<close>).
  \<^item> \<open>Orders_Service\<close>: \<open>orders.service.ts\<close>, \<open>orders.controller.ts\<close>, \<open>create-order.dto.ts\<close> for one request; \<open>Orders_Concurrency\<close>: any
    interleaving of requests, as a machine that stops at every \<open>await\<close>. Creation refines its specification, is
    idempotent, and under races gives one order per key, announced once.
  \<^item> \<open>Event_Publisher\<close>: \<open>infra/event-publisher.service.ts\<close> as a step relation over calls, answers of the broker and
    the closing of the connection at shutdown; invariant and recovery.
  \<^item> \<open>Notifications\<close>, \<open>Consumer\<close>, \<open>Consumer_Session\<close>: \<open>order-created.event.ts\<close>, \<open>notifications.*.ts\<close>, \<open>consumer.service.ts\<close>. Every message
    is settled once and safely, gives at most one notification, and ends within \<open>MAX_ATTEMPTS\<close> deliveries over a broker that
    satisfies the locale \<open>retry_broker\<close> (interpreted on RabbitMQ's \<open>x-death\<close> bookkeeping as \<open>rabbit\<close>); shutdown and backoff are
    bounded.
  \<^item> \<open>Worker_Machine\<close>: the same \<open>consumer.service.ts\<close> with everything at once: the reconnect loop, \<open>onModuleDestroy\<close> and any number of
    handlers, each suspended at its \<open>await\<close>, with the connections and channels of the client library (\<open>wk_step\<close>, \<open>wk_reach\<close>). In
    every reachable state one session at most is live (\<open>session_inv\<close>), every delivery is settled once and only after its event
    is stored or its copy confirmed (\<open>handlers_ok\<close>), the table has one row per event (\<open>rows_ok\<close>), and a shutdown that was
    confirmed drains; every run of one handler to its end has the effects of \<open>handleMessage\<close> on a channel that answers as the run did.
  \<^item> \<open>Gateway\<close>: \<open>gateway/gateway.ts\<close>; it refines a specification of what happens to a request. The proxy library relays the upstream's status,
    headers (over the gateway's own) and body, whole or broken off, or reports an error before anything was relayed; what of an error
    reaches the client is fixed.
  \<^item> \<open>Request_Path\<close>: the logger's request id, the request as the gateway hands it on, and the routes of order-service and
    notification-worker from the guard to the filter. The locale \<open>owned_resource\<close> is what a route relies on in its handler; it is
    interpreted on \<open>POST /v1/orders\<close>, \<open>GET /v1/orders/:id\<close> and the notifications (\<open>post_orders\<close>, \<open>get_order\<close>, \<open>get_notifications\<close>).
  \<^item> \<open>Auth_Module\<close>: \<open>remoteKeys\<close>, \<open>auth.module.ts\<close> and the gateway's configuration: the verifier a started service uses, and that
    gateway and services put the same question about a token. Each process has its own instance of the token library, at its own
    moment and with its own keys, so their answers may differ.
  \<^item> \<open>Database_Filter\<close>, \<open>Users_Service\<close>: \<open>common/database-unavailable.filter.ts\<close> (three identical copies), \<open>users/*.ts\<close>.
  \<^item> \<open>Env_Config\<close>: the validation of the environment of all four services.
  \<^item> \<open>Telemetry\<close>, \<open>Service_Lifecycle\<close>: \<open>telemetry.ts\<close> and \<open>telemetry.lifecycle.ts\<close> (when the SDK runs, what it traces, that its flush is
    bounded), \<open>health.controller.ts\<close> (readiness against the states of the machine), and how long order-service takes to stop.
  \<^item> \<open>Schema\<close>: the migrations of the three databases and the entities. \<open>up\<close> and \<open>down\<close> are inverse, the inserts the other theories
    write out for each table are what PostgreSQL does on the declared columns (\<open>pg_insert\<close>), and the tables serve the entities.
  \<^item> \<open>App_Modules\<close>: \<open>app.module.ts\<close>, \<open>orders.module.ts\<close>, \<open>users.module.ts\<close>, \<open>auth.module.ts\<close> and \<open>main.ts\<close>: the module trees and their routes, none of
    which is left open; the global validation pipe, which makes the bodies strict; the options of logger, database and process,
    and the order of starting up.
  \<^item> \<open>Dependency_Gate\<close>, \<open>Image_Gate\<close>, \<open>Sast_Gate\<close>, \<open>Commit_Gate\<close>: \<open>src/security/*/gate.mjs\<close>; for each, exactly when it passes, said
    of the report and the files themselves.
  \<^item> \<open>Json_Roundtrip\<close>: the reader reads back what the writer wrote.
  \<^item> \<open>Composition\<close> and this theory: the services together. The locale \<open>event_contract\<close> is what the worker relies on in a
    publisher; it is interpreted on the events of order-service (\<open>order_events\<close>).
  \<^item> \<open>Whole_System\<close>: the requests of order-service, its publisher and the worker as one machine (\<open>system_reach\<close>), with a broker that may
    delay, repeat and drop what it was sent. In every state a notification belongs to a stored order and to its user, no order has
    two, and an acknowledged message is stored or kept in the dead letter queue.
  The files under \<open>auth/\<close> and \<open>common/\<close> are copied into the services; the model follows order-service's copy.

  \<^bold>\<open>Bounds and fuel.\<close> \<open>json_parse\<close> gives its reader twice the length of the text plus two, which \<open>json_parse_string\<close> shows to be
  enough for every text the writer produces. \<open>fetch_loop\<close> runs \<open>ATTEMPTS\<close> = 2 times as the source does. \<open>shortest_digits\<close> stops at
  17 digits, which identify a double. \<open>lifecycle\<close> takes the number of deliveries as its fuel, and \<open>lifecycle_ends\<close> of the locale \<open>retry_broker\<close> shows
  that the configured number is enough. The loop \<open>run\<close> of the worker, which the source runs until it
  is stopped, is a list of sessions in \<open>Consumer_Session\<close> and steps of the machine in \<open>Worker_Machine\<close>; \<open>job_rank\<close> and \<open>loop_rank\<close> bound the
  steps of a handler and of a loop that is stopping. Times are in milliseconds, without bound, as the sources'
  timers are.

  \<^bold>\<open>Not modelled.\<close> The libraries behind the parameters (NestJS and its dependency injection, TypeORM, terminus, the
  OpenTelemetry SDK, jose, amqplib, ioredis, express-rate-limit, the proxy), the names and units of the metrics, the success lines
  the gates print, and the order in which JavaScript lists integer-like property names. Of the validators of a body only what
  the code relies on is stated; a body that is not an object is left to the pipe. Texts are valid UTF-8.
\<close>

section \<open>From an order to its notification\<close>

text \<open>C4: what order-service announces, notification-worker receives. For every order whose ids are UUIDs, the text of
  the message that is published for it is accepted by the worker's parser, and gives back the event id, the
  correlation id, the order id and the user id, whatever the description and the amount contain.\<close>

theorem announced_order_is_understood:
  assumes "uuid_test (oe_randomUUID env n)" "uuid_test (ord_id order)" "uuid_test (ord_userId order)"
  shows "parseOrderCreated (pm_content (event_message engine ''order.created'' (created_event env order correlationId n))) =
    Inr \<lparr>oc_eventId = oe_randomUUID env n, oc_correlationId = correlationId, oc_orderId = ord_id order,
         oc_userId = ord_userId order\<rparr>"
  using order_events.understood [of "created_event env order correlationId n"] assms
  by (simp add: created_event_def received_event_def event_ids_ok_def)

definition hostile_order :: order_row where
  "hostile_order = \<lparr>ord_id = ''6fa459ea-ee8a-4ca4-894e-db77e160355e'', ord_userId = ''1b4e28ba-2fa1-41d2-883f-0016d3cca427'',
     ord_amount = 1999 / 100, ord_description = [CHR 0x22] @ '', type: {'' @ [CHR 0x5C, CHR 0x0A, CHR 0x00],
     ord_status = ''CREATED'', ord_createdAt = ''t''\<rparr>"

theorem announced_order_is_understood_witness:
  "parseOrderCreated (pm_content (event_message no_engine ''order.created'' (created_event demo_env hostile_order ''r1'' 0))) =
    Inr \<lparr>oc_eventId = oe_randomUUID demo_env 0, oc_correlationId = ''r1'', oc_orderId = ''6fa459ea-ee8a-4ca4-894e-db77e160355e'',
         oc_userId = ''1b4e28ba-2fa1-41d2-883f-0016d3cca427''\<rparr>"
proof -
  have "uuid_test (oe_randomUUID demo_env 0)" "uuid_test (ord_id hostile_order)" "uuid_test (ord_userId hostile_order)" by code_simp+
  from announced_order_is_understood [OF this, of no_engine "''r1''"] show ?thesis by (simp add: hostile_order_def)
qed


definition demo_message :: message where
  "demo_message = \<lparr>msg_content = pm_content (event_message no_engine ''order.created'' (created_event demo_env demo_order ''r1'' 0)),
     msg_contentType = Some ''application/json'', msg_messageId = None, msg_correlationId = None, msg_headers = []\<rparr>"

lemma demo_reading:
  fixes w :: "'z notif_world_scheme"
  shows "\<exists>rs. fst (byOrder demo_notif_env Inr demo_order_id demo_customer w) = Inr rs"
proof -
  have "uuid_test demo_order_id" "uuid_test (sub demo_customer)" "\<not> isAdmin demo_customer" by code_simp+
  then show ?thesis
    by (simp add: byOrder_def findByOrder_def note_query_def select_notifications_def pg_uuid_def demo_notif_env_def io_defs Let_def)
qed


section \<open>Order-service and user-service\<close>

text \<open>C19: order-service learns from user-service exactly whether the user exists. With user-service's own handlers
  behind the network (its database up) and a caller who forwards a bearer token that user-service accepts
  for the user himself or for an admin, the lookup of a user that is not cached answers yes if the users
  table has the user and no if it has not, after a single request.\<close>

theorem lookup_agrees_with_user_service:
  fixes uw :: "'u user_world_scheme" and w :: "'z dir_world_scheme"
  assumes "\<not> cached redis userId w" "pipe userId = Inr userId" "uuid_test userId" "ue_fail uenv (user_stmts uw) = None"
    and "guard_accepts verifier (Some [''customer'', ''admin'']) (forwarded_request (lookup_request cfg userId rid auth)) p"
    and "isAdmin p \<or> sub p = toLowerCase userId"
  defines "net \<equiv> user_service_net verifier uenv pipe cfg uw"
  shows "fst (user_exists redis net cfg userId rid auth w) = Inr (toLowerCase userId \<in> user_id ` set (users_tbl uw))
    \<and> fetches (snd (user_exists redis net cfg userId rid auth w)) = fetches w @ [lookup_request cfg userId rid auth]"
proof -
  let ?req = "lookup_request cfg userId rid auth"
  have "net (fetches w @ [?req]) = Inr (if toLowerCase userId \<in> user_id ` set (users_tbl uw) then 200 else 404)"
    unfolding net_def user_service_net_def Let_def last_snoc lookup_forwarded(2)
    by (rule GET_user_status [where pipe = pipe and i = userId, OF assms(2-6)])
  with user_exists_miss_effects [OF assms(1), of net cfg rid auth] show ?thesis by (simp add: decide_def)
qed

theorem lookup_agrees_with_user_service_witness:
  "fst (user_exists (\<lambda>_. Inr None)
      (user_service_net (\<lambda>_. Inr demo_principal) demo_user_env Inr (oe_cfg demo_env) demo_user_world)
      (oe_cfg demo_env) (sub demo_principal) ''r1'' (Some ''Bearer t'') demo_world) = Inr True"
proof -
  have u: "uuid_test (sub demo_principal)" "toLowerCase (sub demo_principal) = sub demo_principal"
    "bearer_token ''Bearer t'' = Some ''t''" "roles demo_principal = [''customer'']" by code_simp+
  have "guard_accepts (\<lambda>_. Inr demo_principal) (Some [''customer'', ''admin''])
      (forwarded_request (lookup_request (oe_cfg demo_env) (sub demo_principal) ''r1'' (Some ''Bearer t''))) demo_principal"
    by (simp add: guard_accepts_def presented_token_def forwarded_request_def lookup_forwarded u)
  from lookup_agrees_with_user_service [of "\<lambda>_. Inr None" "sub demo_principal" demo_world Inr demo_user_env demo_user_world, OF _ _ _ _ this]
  show ?thesis by (simp add: cached_def u demo_user_env_def demo_user_world_def)
qed

section \<open>A configured worker\<close>

text \<open>C12: a worker that starts gives up in time. For every environment the worker starts with, and as long as its channel works (no
  acknowledgement, rejection or publish fails), a message that enters its queue for the first time, with no rejections counted yet, is
  delivered at least once and at most as often as configured, never more than a hundred times, and then its event is recorded or the message is in
  the dead letter queue, whatever the database does meanwhile.\<close>

theorem configured_worker_terminates:
  assumes "validateWorkerEnv url_ok raw = Inr cfg" "ce_maxAttempts env = nat (wk_MAX_ATTEMPTS cfg)"
    and "channel_works env" "q_deaths q = []"
  shows "\<exists>k w'. lifecycle rabbit_delivered rabbit_redeliver env (nat (wk_MAX_ATTEMPTS cfg)) q w = (Some k, w')
    \<and> 1 \<le> k \<and> k \<le> 100 \<and> disposed (q_content q) w'"
proof -
  have b: "1 \<le> wk_MAX_ATTEMPTS cfg" "wk_MAX_ATTEMPTS cfg \<le> 100" using validateWorkerEnv_ok [OF assms(1)] by auto
  from rabbit.lifecycle_ends [OF assms(3), of q "ce_maxAttempts env" w] assms(2,4) b show ?thesis
    by (force simp: rabbit_rejections_def rabbit_delivered_def)
qed

theorem configured_worker_terminates_witness:
  "\<exists>k w'. lifecycle rabbit_delivered rabbit_redeliver
       (demo_consumer_env (\<lambda>_. Some (error_of PlainError ''down''))\<lparr>ce_maxAttempts := 5\<rparr>) 5 demo_queued demo_consumer_world = (Some k, w')
     \<and> k \<le> 100 \<and> disposed demo_event_text w'"
proof -
  obtain cfg where cfg: "validateWorkerEnv (\<lambda>_. True) demo_worker_env = Inr cfg" "wk_MAX_ATTEMPTS cfg = 5"
    using demo_worker_config by blast
  have w: "channel_works (demo_consumer_env f\<lparr>ce_maxAttempts := 5\<rparr>)" for f
    by (simp add: channel_works_def demo_consumer_env_def)
  show ?thesis
    using configured_worker_terminates [OF cfg(1) _ w, of "\<lambda>_. Some (error_of PlainError ''down'')" demo_queued demo_consumer_world] cfg(2)
    by (simp add: demo_queued_def del: lifecycle.simps) blast
qed

section \<open>One id for one request\<close>

text \<open>C13: the request id the client gets back names the request everywhere. It is the client's own id if it sent one, else
  a fresh one; the gateway answers with it, provided order-service's answer, whose headers the proxy puts over the gateway's own, has no id or the
  one order-service's logger gave the request; and an order that order-service creates for the request is announced under it: the worker that reads
  the event finds that id as its correlation id.\<close>

theorem request_id_travels:
  assumes "\<not> headersSent w" "gw_randomUUID env \<noteq> []" "i = gen_req_id (gw_randomUUID env) (gw_x_request_id req)"
    and "fate env (req\<lparr>gw_assigned_id := Some i\<rparr>) = Sent fw"
    and answered: "\<And>a j. upstream_head (gw_upstream env fw) = Some a \<Longrightarrow> map_of (rev (ua_headers a)) ''x-request-id'' = Some j \<Longrightarrow>
      req_id (upstream_request fresh fw ''POST'' ''/v1/orders'') = Some j"
    and "POST_orders verifier v oenv (upstream_request fresh fw ''POST'' ''/v1/orders'') dto key (h, ow) = ((201, Some ord), (h', ow'))"
    and "uuid_test (oe_randomUUID oenv (length (publishes ow)))" "uuid_test (ord_id ord)" "uuid_test (ord_userId ord)"
  shows "map_of (gw_res_headers (snd (gateway_app env req w))) ''x-request-id'' = Some i
    \<and> (\<exists>ev oc. publishes ow' = publishes ow @ [(''order.created'', ev)] \<and> event_correlationId ev = i
         \<and> parseOrderCreated (pm_content (event_message engine ''order.created'' ev)) = Inr oc \<and> oc_correlationId oc = i)"
proof
  have i: "i \<noteq> []" using assms(2,3) gen_req_id_nonempty by simp
  have "fw_request_id fw = i" by (rule fate_Sent [OF assms(4)]) (simp add: forward_of_def identified_def gw_request_id_def)
  then have "answered_id env fw = i"
    using answered i by (auto simp: answered_id_def upstream_request_def gen_req_id_keeps split: option.split)
  then show "map_of (gw_res_headers (snd (gateway_app env req w))) ''x-request-id'' = Some i"
    unfolding gateway_app_eq assms(3) [symmetric]
    using conjunct1 [OF createGateway_outcome [of "w\<lparr>gw_res_headers := obj_set ''x-request-id'' i (gw_res_headers w)\<rparr>" env
        "req\<lparr>gw_assigned_id := Some i\<rparr>"]] assms(1,4) by simp
  have "string_id (upstream_request fresh fw ''POST'' ''/v1/orders'') = i"
    using forwarded_request_seen(1) [OF assms(4) i] by (simp add: string_id_def)
  then have ev: "publishes ow' = publishes ow @ [(''order.created'', created_event oenv ord i (length (publishes ow)))]"
    using POST_orders_outcome [where verifier = verifier and v = v and env = oenv and dto = dto and key = key and h = h and w = ow
        and req = "upstream_request fresh fw ''POST'' ''/v1/orders''"] assms(6) by auto
  have "event_ids_ok (created_event oenv ord i (length (publishes ow)))"
    using assms(7-9) by (simp add: event_ids_ok_def created_event_def)
  from order_events.understood [OF this, of engine "''order.created''"] ev
  show "\<exists>ev oc. publishes ow' = publishes ow @ [(''order.created'', ev)] \<and> event_correlationId ev = i
         \<and> parseOrderCreated (pm_content (event_message engine ''order.created'' ev)) = Inr oc \<and> oc_correlationId oc = i"
    by (auto simp: received_event_def created_event_def)
qed

lemma demo_post:
  "fst (POST_orders (\<lambda>_. Inr demo_customer) demo_validators demo_env
     (upstream_request ''u'' (forward_of (identified demo_gw_env (demo_gw_request\<lparr>gw_assigned_id := Some ''abc''\<rparr>))
        ''http://order-service:3000'') ''POST'' ''/v1/orders'') demo_dto (Some ''k1'') (empty_ctx, demo_world)) = (201, Some demo_order)"
  by code_simp

theorem request_id_travels_witness:
  "map_of (gw_res_headers (snd (gateway_app demo_gw_env demo_gw_request demo_gw_world))) ''x-request-id'' = Some ''abc''"
proof -
  let ?fw = "forward_of (identified demo_gw_env (demo_gw_request\<lparr>gw_assigned_id := Some ''abc''\<rparr>)) ''http://order-service:3000''"
  obtain h' ow' where post: "POST_orders (\<lambda>_. Inr demo_customer) demo_validators demo_env
      (upstream_request ''u'' ?fw ''POST'' ''/v1/orders'') demo_dto (Some ''k1'') (empty_ctx, demo_world) = ((201, Some demo_order), (h', ow'))"
    using demo_post by (metis prod.collapse)
  have f: "fate demo_gw_env (demo_gw_request\<lparr>gw_assigned_id := Some ''abc''\<rparr>) = Sent ?fw" by code_simp
  have ids: "uuid_test (ord_id demo_order)" "uuid_test (ord_userId demo_order)" by code_simp+
  have u: "uuid_test (oe_randomUUID demo_env n)" for n by (simp add: demo_env_def) code_simp
  have i: "''abc'' = gen_req_id (gw_randomUUID demo_gw_env) (gw_x_request_id demo_gw_request)"
    by (simp add: gen_req_id_def demo_gw_request_def)
  have echoed: "req_id (upstream_request ''u'' ?fw ''POST'' ''/v1/orders'') = Some j"
    if "upstream_head (gw_upstream demo_gw_env ?fw) = Some a" "map_of (rev (ua_headers a)) ''x-request-id'' = Some j" for a j
    using that by (auto simp: demo_gw_env_def upstream_request_def gen_req_id_def forward_of_def identified_def gw_request_id_def)
  show ?thesis
    using request_id_travels [OF _ _ i f echoed post u ids, of demo_gw_world] by (simp add: demo_gw_world_def demo_gw_env_def)
qed

end
